(* ===== verification/Prelude.thy ===== *)
theory Prelude
  imports Main "HOL-Library.Word"
begin

unbundle bit_operations_syntax

text \<open>
  Shared vocabulary of the development: the machine types of the C++ code, byte strings
  (\<^verbatim>\<open>Slice\<close> and \<^verbatim>\<open>std::string\<close> are both byte lists: the model keeps the contents and drops
  the address), the status values, little-endian conversion between words and bytes, and the
  codec interface that every encode/decode pair of the storage formats is an instance of.
\<close>

section \<open>Machine types and byte strings\<close>

type_synonym byte = "8 word"
type_synonym u16 = "16 word"
type_synonym u32 = "32 word"
type_synonym u64 = "64 word"
type_synonym slice = "byte list"

named_theorems codec_simps \<open>decoding an encoding, one rule per codec\<close>
named_theorems suffix_intros \<open>what a successful decoder leaves is a proper suffix of its input\<close>

section \<open>Status\<close>

datatype code = kOk | kNotFound | kCorruption | kNotSupported | kInvalidArgument | kIOError
  | kMergeInProgress | kIncomplete | kShutdownInProgress | kTimedOut | kAborted | kBusy
  | kExpired | kTryAgain | kCompactionTooLarge | kColumnFamilyDropped

datatype subcode = kNone | kMutexTimeout | kLockTimeout | kLockLimit | kNoSpace | kDeadlock
  | kStaleFile | kMemoryLimit | kSpaceLimit | kPathNotFound | KMergeOperandsInsufficientCapacity
  | kManualCompactionPaused | kOverwritten | kTxnNotPrepared | kIOFenced | kMergeOperatorFailed

text \<open>
  A status is its code, its subcode and its message. The C++ status also carries a severity and
  the I/O flags, which no modelled component reads.
\<close>

datatype status = Status (st_code: code) (st_subcode: subcode) (st_msg: string)

definition Status_OK :: status where
  "Status_OK = Status kOk kNone []"

definition Status_Corruption :: "string \<Rightarrow> status" where
  "Status_Corruption msg = Status kCorruption kNone msg"

definition Status_NotFound :: "string \<Rightarrow> status" where
  "Status_NotFound msg = Status kNotFound kNone msg"

definition Status_InvalidArgument :: "string \<Rightarrow> status" where
  "Status_InvalidArgument msg = Status kInvalidArgument kNone msg"

definition Status_NotSupported :: "string \<Rightarrow> status" where
  "Status_NotSupported msg = Status kNotSupported kNone msg"

definition ok :: "status \<Rightarrow> bool" where
  "ok s \<longleftrightarrow> st_code s = kOk"

lemma ok_simps [simp]:
  "ok Status_OK" "\<not> ok (Status_Corruption m)" "\<not> ok (Status_NotFound m)"
  "\<not> ok (Status_InvalidArgument m)" "\<not> ok (Status_NotSupported m)"
  by (simp_all add: ok_def Status_OK_def Status_Corruption_def Status_NotFound_def
      Status_InvalidArgument_def Status_NotSupported_def)

section \<open>Lists\<close>

lemma take_append_length [simp]: "n = length xs \<Longrightarrow> take n (xs @ ys) = xs"
  by simp

lemma drop_append_length [simp]: "n = length xs \<Longrightarrow> drop n (xs @ ys) = ys"
  by simp

text \<open>A proper suffix: what is left of a parser's input once it has consumed something.\<close>

definition proper_suffix :: "'a list \<Rightarrow> 'a list \<Rightarrow> bool" where
  "proper_suffix r s \<longleftrightarrow> (\<exists>p. p \<noteq> [] \<and> s = p @ r)"

lemma proper_suffix_length: "proper_suffix r s \<Longrightarrow> length r < length s"
  by (auto simp: proper_suffix_def)

lemma proper_suffix_append: "p \<noteq> [] \<Longrightarrow> proper_suffix r (p @ r)"
  by (auto simp: proper_suffix_def)

lemma proper_suffix_Cons [simp, intro]: "proper_suffix r (x # r)"
  by (metis append_Cons append_Nil list.distinct(1) proper_suffix_def)

lemma proper_suffix_trans: "proper_suffix r s \<Longrightarrow> proper_suffix s t \<Longrightarrow> proper_suffix r t"
  unfolding proper_suffix_def by (metis append_assoc append_is_Nil_conv)

lemma proper_suffix_ConsI: "proper_suffix r s \<Longrightarrow> proper_suffix r (x # s)"
  by (rule proper_suffix_trans) auto

lemma proper_suffix_drop: "0 < n \<Longrightarrow> n \<le> length s \<Longrightarrow> proper_suffix (drop n s) s"
  unfolding proper_suffix_def by (rule exI [of _ "take n s"]) auto

lemma proper_suffix_drop_trans: "proper_suffix r s \<Longrightarrow> proper_suffix (drop n r) s"
  unfolding proper_suffix_def
  by (metis append.assoc append_is_Nil_conv append_take_drop_id)

section \<open>Little-endian words\<close>

lemma unat_less_exp: "unat (w :: 'a::len word) < 2 ^ LENGTH('a)"
  by (rule unsigned_less)

text \<open>\<^verbatim>\<open>to_le_bytes\<close> of a word over its first \<open>n\<close> bytes, and \<^verbatim>\<open>from_le_bytes\<close>.\<close>

definition le_bytes :: "nat \<Rightarrow> 'a::len word \<Rightarrow> slice" where
  "le_bytes n w = map (\<lambda>i. ucast (drop_bit (8 * i) w)) [0..<n]"

fun le_word :: "slice \<Rightarrow> 'a::len word" where
  "le_word [] = 0"
| "le_word (b # bs) = ucast b OR push_bit 8 (le_word bs)"

lemma length_le_bytes [simp]: "length (le_bytes n w) = n"
  by (simp add: le_bytes_def)

lemma le_bytes_nth: "i < n \<Longrightarrow> le_bytes n w ! i = ucast (drop_bit (8 * i) w)"
  by (simp add: le_bytes_def)

lemma bit_le_word:
  "bit (le_word bs :: 'a::len word) i \<longleftrightarrow>
     i < LENGTH('a) \<and> i div 8 < length bs \<and> bit (bs ! (i div 8)) (i mod 8)"
proof (induction bs arbitrary: i)
  case Nil
  then show ?case by simp
next
  case (Cons b bs)
  show ?case
  proof (cases "i < 8")
    case True
    then show ?thesis by (auto simp: bit_simps)
  next
    case False
    then obtain j where "i = j + 8" by (metis le_add_diff_inverse2 not_less)
    moreover have "(j + 8) div 8 = Suc (j div 8)" by simp
    moreover have "\<not> bit b (j + 8)" using bit_imp_le_length [of b "j + 8"] by auto
    ultimately show ?thesis by (auto simp: bit_simps Cons.IH)
  qed
qed

lemma le_word_le_bytes:
  assumes "LENGTH('a) \<le> 8 * n"
  shows "le_word (le_bytes n w) = (w :: 'a::len word)"
proof (rule bit_word_eqI)
  fix i assume "i < LENGTH('a)"
  moreover from this assms have "i div 8 < n" by linarith
  ultimately show "bit (le_word (le_bytes n w) :: 'a word) i = bit w i"
    by (auto simp: bit_le_word le_bytes_nth bit_simps)
qed

lemma le_bytes_le_word:
  assumes "8 * length bs \<le> LENGTH('a)"
  shows "le_bytes (length bs) (le_word bs :: 'a::len word) = bs"
proof (rule nth_equalityI)
  fix i assume "i < length (le_bytes (length bs) (le_word bs :: 'a word))"
  then have i: "i < length bs" by simp
  show "le_bytes (length bs) (le_word bs :: 'a word) ! i = bs ! i"
  proof (rule bit_word_eqI)
    fix j assume j: "j < LENGTH(8)"
    then have "8 * i + j < LENGTH('a)" using i assms by simp
    with i j show "bit (le_bytes (length bs) (le_word bs :: 'a word) ! i) j = bit (bs ! i) j"
      by (auto simp: le_bytes_nth bit_simps bit_le_word)
  qed
qed simp

section \<open>Bytes and their top bit\<close>

lemma bit_byte_ge_8 [simp]: "8 \<le> n \<Longrightarrow> \<not> bit (c :: byte) n"
  using bit_imp_le_length [of c n] by auto

lemma bit_numeral_128: "bit (0x80 :: 'a::len word) n \<longleftrightarrow> n = 7 \<and> 7 < LENGTH('a)"
proof -
  have "(0x80 :: 'a word) = 2 ^ 7" by simp
  then show ?thesis by (metis bit_exp_iff possible_bit_word)
qed

lemma bit_numeral_127: "bit (0x7f :: 'a::len word) n \<longleftrightarrow> n < 7 \<and> n < LENGTH('a)"
proof -
  have "(0x7f :: 'a word) = mask 7" by (simp add: mask_eq_exp_minus_1)
  then show ?thesis by (simp only: bit_mask_iff possible_bit_word) auto
qed

lemma bit_int_127: "bit (127 :: int) n \<longleftrightarrow> n < 7"
proof -
  have "(127 :: int) = mask 7" by (simp add: mask_eq_exp_minus_1)
  then show ?thesis by (simp only: bit_mask_iff) simp
qed

lemma bit_int_128: "bit (128 :: int) n \<longleftrightarrow> n = 7"
proof -
  have "(128 :: int) = 2 ^ 7" by simp
  then show ?thesis by (metis bit_exp_iff possible_bit_int)
qed

lemma bit_numeral_255: "bit (0xff :: 'a::len word) n \<longleftrightarrow> n < 8 \<and> n < LENGTH('a)"
proof -
  have "(0xff :: 'a word) = mask 8" by (simp add: mask_eq_exp_minus_1)
  then show ?thesis by (simp only: bit_mask_iff possible_bit_word) auto
qed

lemma bit_int_255: "bit (255 :: int) n \<longleftrightarrow> n < 8"
proof -
  have "(255 :: int) = mask 8" by (simp add: mask_eq_exp_minus_1)
  then show ?thesis by (simp only: bit_mask_iff) simp
qed

lemmas bit_masks = bit_numeral_127 bit_numeral_128 bit_numeral_255 bit_int_127 bit_int_128 bit_int_255

lemma scast_msb_clear:
  "((scast (c :: byte) :: 'a::len word) AND 0x80 = 0) \<longleftrightarrow> \<not> bit c 7" if "LENGTH('a) > 8"
proof -
  have b: "bit ((scast c :: 'a word) AND 0x80) n \<longleftrightarrow> n = 7 \<and> bit c 7" for n
    using that by (auto simp only: bit_and_iff bit_signed_iff bit_numeral_128) auto
  show ?thesis
  proof
    assume "(scast c :: 'a word) AND 0x80 = 0"
    then show "\<not> bit c 7" using b [of 7] by simp
  next
    assume "\<not> bit c 7"
    then show "(scast c :: 'a word) AND 0x80 = 0" by (intro bit_eqI) (simp only: b, simp)
  qed
qed
section \<open>The codec interface\<close>

text \<open>
  What a reader relies on: decoding undoes encoding whatever follows it, and a successful decode
  consumes at least one byte. Everything else about a self-delimiting format follows.
\<close>

locale codec =
  fixes enc :: "'a \<Rightarrow> slice" and dec :: "slice \<Rightarrow> ('a \<times> slice) option" and good :: "'a \<Rightarrow> bool"
  assumes dec_enc: "good x \<Longrightarrow> dec (enc x @ rest) = Some (x, rest)"
    and dec_suffix: "dec bs = Some (x, rest) \<Longrightarrow> proper_suffix rest bs"
begin

lemma enc_nonempty: "good x \<Longrightarrow> enc x \<noteq> []"
  using dec_enc [of x "[]"] dec_suffix [of "enc x" x "[]"] by (auto simp: proper_suffix_def)

lemma dec_enc_Nil: "good x \<Longrightarrow> dec (enc x) = Some (x, [])"
  using dec_enc [of x "[]"] by simp

lemma prefix_free:
  assumes "good x" and "good y" and "enc x @ r = enc y @ s"
  shows "x = y \<and> r = s"
proof -
  have "Some (x, r) = dec (enc x @ r)" by (rule dec_enc [OF assms(1), symmetric])
  also have "\<dots> = Some (y, s)" unfolding assms(3) by (rule dec_enc [OF assms(2)])
  finally show ?thesis by simp
qed

lemma enc_inj: "inj_on enc {x. good x}"
proof (rule inj_onI)
  fix x y assume "x \<in> {x. good x}" "y \<in> {x. good x}" "enc x = enc y"
  then show "x = y" using prefix_free [of x y "[]" "[]"] by auto
qed

lemma dec_length: "dec bs = Some (x, rest) \<Longrightarrow> length rest < length bs"
  by (rule proper_suffix_length) (rule dec_suffix)

text \<open>Decoding a concatenation item by item gives the items back.\<close>

fun dec_many :: "nat \<Rightarrow> slice \<Rightarrow> ('a list \<times> slice) option" where
  "dec_many 0 bs = Some ([], bs)"
| "dec_many (Suc n) bs =
     (case dec bs of None \<Rightarrow> None
      | Some (x, r) \<Rightarrow> (case dec_many n r of None \<Rightarrow> None | Some (xs, s) \<Rightarrow> Some (x # xs, s)))"

lemma dec_many_enc:
  "\<forall>x \<in> set xs. good x \<Longrightarrow> dec_many (length xs) (concat (map enc xs) @ rest) = Some (xs, rest)"
  by (induction xs) (simp_all add: dec_enc)

end

end
