(* ===== verification/Coding.thy ===== *)
theory Coding
  imports Prelude
begin

unbundle bit_operations_syntax

text \<open>
  The integer and string encodings of \<^verbatim>\<open>util/coding.h\<close> and of the routines it calls in
  \<^verbatim>\<open>src/coding.rs\<close> and \<^verbatim>\<open>src/coding_lean.rs\<close>: fixed-width little-endian words, base-128 varints
  (the unrolled 32-bit writer, the 64-bit loop, both readers), zigzag, and length-prefixed
  strings. A \<^verbatim>\<open>Put\<close> routine returns the string it appended to. A \<^verbatim>\<open>Get\<close> routine returns the value
  and the advanced input, \<^const>\<open>None\<close> for its \<^verbatim>\<open>false\<close>. Every pair is proved an instance of the
  \<open>codec\<close> interface.
\<close>

section \<open>Fixed-width integers\<close>

definition EncodeFixed16 :: "u16 \<Rightarrow> slice" where
  "EncodeFixed16 value = le_bytes 2 value"

definition EncodeFixed32 :: "u32 \<Rightarrow> slice" where
  "EncodeFixed32 value = le_bytes 4 value"

definition EncodeFixed64 :: "u64 \<Rightarrow> slice" where
  "EncodeFixed64 value = le_bytes 8 value"

text \<open>The readers look at the first 2, 4 or 8 bytes at the pointer and do not check bounds.\<close>

definition DecodeFixed16 :: "slice \<Rightarrow> u16" where
  "DecodeFixed16 p = le_word (take 2 p)"

definition DecodeFixed32 :: "slice \<Rightarrow> u32" where
  "DecodeFixed32 p = le_word (take 4 p)"

definition DecodeFixed64 :: "slice \<Rightarrow> u64" where
  "DecodeFixed64 p = le_word (take 8 p)"

definition PutFixed16 :: "slice \<Rightarrow> u16 \<Rightarrow> slice" where
  "PutFixed16 dst value = dst @ EncodeFixed16 value"

definition PutFixed32 :: "slice \<Rightarrow> u32 \<Rightarrow> slice" where
  "PutFixed32 dst value = dst @ EncodeFixed32 value"

definition PutFixed64 :: "slice \<Rightarrow> u64 \<Rightarrow> slice" where
  "PutFixed64 dst value = dst @ EncodeFixed64 value"

definition GetFixed16 :: "slice \<Rightarrow> (u16 \<times> slice) option" where
  "GetFixed16 input = (if length input < 2 then None else Some (DecodeFixed16 input, drop 2 input))"

definition GetFixed32 :: "slice \<Rightarrow> (u32 \<times> slice) option" where
  "GetFixed32 input = (if length input < 4 then None else Some (DecodeFixed32 input, drop 4 input))"

definition GetFixed64 :: "slice \<Rightarrow> (u64 \<times> slice) option" where
  "GetFixed64 input = (if length input < 8 then None else Some (DecodeFixed64 input, drop 8 input))"

section \<open>Varints\<close>

text \<open>The 64-bit writer is a loop; termination is by the value shifted right.\<close>

lemma drop_bit_7_less: "\<not> v < (128 :: u64) \<Longrightarrow> unat (drop_bit 7 v) < unat v"
proof -
  assume "\<not> v < 128"
  then have "128 \<le> unat v" by (simp add: word_less_nat_alt)
  moreover have "unat (drop_bit 7 v) = unat v div 128"
    by (simp add: drop_bit_eq_div unat_div_distrib)
  ultimately show ?thesis by simp
qed

function EncodeVarint64 :: "u64 \<Rightarrow> slice" where
  "EncodeVarint64 v =
     (if v \<ge> 128 then ucast ((v AND 127) OR 128) # EncodeVarint64 (drop_bit 7 v)
      else [ucast v])"
  by pat_completeness auto
termination
  by (relation "measure unat") (auto intro!: drop_bit_7_less simp: not_less)

declare EncodeVarint64.simps [simp del]

definition EncodeVarint32 :: "u32 \<Rightarrow> slice" where
  "EncodeVarint32 v =
     (let msb = 0x80 :: u32 in
      if v < push_bit 7 1 then [ucast v]
      else if v < push_bit 14 1 then [ucast (v OR msb), ucast (drop_bit 7 v)]
      else if v < push_bit 21 1 then
        [ucast (v OR msb), ucast (drop_bit 7 v OR msb), ucast (drop_bit 14 v)]
      else if v < push_bit 28 1 then
        [ucast (v OR msb), ucast (drop_bit 7 v OR msb), ucast (drop_bit 14 v OR msb),
         ucast (drop_bit 21 v)]
      else
        [ucast (v OR msb), ucast (drop_bit 7 v OR msb), ucast (drop_bit 14 v OR msb),
         ucast (drop_bit 21 v OR msb), ucast (drop_bit 28 v)])"

text \<open>
  The readers. \<^verbatim>\<open>c_char\<close> is signed on x86-64, so \<^verbatim>\<open>*p as u64\<close> sign-extends; the loop's guard on
  \<^verbatim>\<open>shift\<close> and on the limit come before each byte is read.
\<close>

fun get_varint64_loop :: "nat \<Rightarrow> u64 \<Rightarrow> slice \<Rightarrow> (u64 \<times> slice) option" where
  "get_varint64_loop shift result [] = None"
| "get_varint64_loop shift result (c # p) =
     (if shift \<le> 63 then
        (let byte = scast c :: u64 in
         if byte AND 0x80 = 0 then Some (result OR push_bit shift byte, p)
         else get_varint64_loop (shift + 7) (result OR push_bit shift (byte AND 0x7f)) p)
      else None)"

definition GetVarint64Ptr :: "slice \<Rightarrow> (u64 \<times> slice) option" where
  "GetVarint64Ptr p = get_varint64_loop 0 0 p"

fun get_varint32_loop :: "nat \<Rightarrow> u32 \<Rightarrow> slice \<Rightarrow> (u32 \<times> slice) option" where
  "get_varint32_loop shift result [] = None"
| "get_varint32_loop shift result (c # p) =
     (if shift \<le> 28 then
        (let byte = scast c :: u32 in
         if byte AND 0x80 = 0 then Some (result OR push_bit shift byte, p)
         else get_varint32_loop (shift + 7) (result OR push_bit shift (byte AND 0x7f)) p)
      else None)"

definition GetVarint32PtrFallback :: "slice \<Rightarrow> (u32 \<times> slice) option" where
  "GetVarint32PtrFallback p = get_varint32_loop 0 0 p"

definition GetVarint32Ptr :: "slice \<Rightarrow> (u32 \<times> slice) option" where
  "GetVarint32Ptr p =
     (case p of
        [] \<Rightarrow> GetVarint32PtrFallback p
      | c # p' \<Rightarrow>
          (let result = scast c :: u32 in
           if result AND 0x80 = 0 then Some (result, p') else GetVarint32PtrFallback p))"

function VarintLength :: "u64 \<Rightarrow> nat" where
  "VarintLength v = (if v \<ge> 128 then Suc (VarintLength (drop_bit 7 v)) else 1)"
  by pat_completeness auto
termination
  by (relation "measure unat") (auto intro!: drop_bit_7_less simp: not_less)

declare VarintLength.simps [simp del]

definition PutVarint32 :: "slice \<Rightarrow> u32 \<Rightarrow> slice" where
  "PutVarint32 dst v = dst @ EncodeVarint32 v"

definition PutVarint32Varint32 :: "slice \<Rightarrow> u32 \<Rightarrow> u32 \<Rightarrow> slice" where
  "PutVarint32Varint32 dst v1 v2 = dst @ (EncodeVarint32 v1 @ EncodeVarint32 v2)"

definition PutVarint32Varint32Varint32 :: "slice \<Rightarrow> u32 \<Rightarrow> u32 \<Rightarrow> u32 \<Rightarrow> slice" where
  "PutVarint32Varint32Varint32 dst v1 v2 v3 =
     dst @ (EncodeVarint32 v1 @ EncodeVarint32 v2 @ EncodeVarint32 v3)"

definition PutVarint64 :: "slice \<Rightarrow> u64 \<Rightarrow> slice" where
  "PutVarint64 dst v = dst @ EncodeVarint64 v"

definition PutVarint64Varint64 :: "slice \<Rightarrow> u64 \<Rightarrow> u64 \<Rightarrow> slice" where
  "PutVarint64Varint64 dst v1 v2 = dst @ (EncodeVarint64 v1 @ EncodeVarint64 v2)"

definition PutVarint32Varint64 :: "slice \<Rightarrow> u32 \<Rightarrow> u64 \<Rightarrow> slice" where
  "PutVarint32Varint64 dst v1 v2 = dst @ (EncodeVarint32 v1 @ EncodeVarint64 v2)"

definition PutVarint32Varint32Varint64 :: "slice \<Rightarrow> u32 \<Rightarrow> u32 \<Rightarrow> u64 \<Rightarrow> slice" where
  "PutVarint32Varint32Varint64 dst v1 v2 v3 =
     dst @ (EncodeVarint32 v1 @ EncodeVarint32 v2 @ EncodeVarint64 v3)"

definition GetVarint32 :: "slice \<Rightarrow> (u32 \<times> slice) option" where
  "GetVarint32 input = GetVarint32Ptr input"

definition GetVarint64 :: "slice \<Rightarrow> (u64 \<times> slice) option" where
  "GetVarint64 input = GetVarint64Ptr input"

section \<open>Signed varints\<close>

text \<open>An \<^verbatim>\<open>i64\<close> is the same 64 bits; \<^verbatim>\<open>v >> 63\<close> on it is the arithmetic shift.\<close>

definition i64ToZigzag :: "u64 \<Rightarrow> u64" where
  "i64ToZigzag v = push_bit 1 v XOR signed_drop_bit 63 v"

definition zigzagToI64 :: "u64 \<Rightarrow> u64" where
  "zigzagToI64 n = drop_bit 1 n XOR (- (n AND 1))"

definition PutVarsignedint64 :: "slice \<Rightarrow> u64 \<Rightarrow> slice" where
  "PutVarsignedint64 dst v = dst @ EncodeVarint64 (i64ToZigzag v)"

definition GetVarsignedint64 :: "slice \<Rightarrow> (u64 \<times> slice) option" where
  "GetVarsignedint64 input =
     (case GetVarint64Ptr input of None \<Rightarrow> None | Some (u, q) \<Rightarrow> Some (zigzagToI64 u, q))"

section \<open>Length-prefixed strings\<close>

text \<open>The length is cast to \<^verbatim>\<open>uint32_t\<close>: a longer string has a truncated prefix.\<close>

definition PutLengthPrefixedSlice :: "slice \<Rightarrow> slice \<Rightarrow> slice" where
  "PutLengthPrefixedSlice dst value = PutVarint32 dst (word_of_nat (length value)) @ value"

definition PutLengthPrefixedSliceParts_from :: "slice \<Rightarrow> nat \<Rightarrow> slice list \<Rightarrow> slice" where
  "PutLengthPrefixedSliceParts_from dst total_bytes parts =
     fold (\<lambda>part d. d @ part) parts
       (PutVarint32 dst (word_of_nat (fold (\<lambda>part n. n + length part) parts total_bytes)))"

definition PutLengthPrefixedSliceParts :: "slice \<Rightarrow> slice list \<Rightarrow> slice" where
  "PutLengthPrefixedSliceParts dst parts = PutLengthPrefixedSliceParts_from dst 0 parts"

definition PutLengthPrefixedSlicePartsWithPadding :: "slice \<Rightarrow> slice list \<Rightarrow> nat \<Rightarrow> slice" where
  "PutLengthPrefixedSlicePartsWithPadding dst parts pad_sz =
     PutLengthPrefixedSliceParts_from dst pad_sz parts @ replicate pad_sz 0"

definition GetLengthPrefixedSlice :: "slice \<Rightarrow> (slice \<times> slice) option" where
  "GetLengthPrefixedSlice input =
     (case GetVarint32 input of
        None \<Rightarrow> None
      | Some (len, rest) \<Rightarrow>
          if length rest \<ge> unat len then Some (take (unat len) rest, drop (unat len) rest)
          else None)"

text \<open>
  The overload on a bare pointer assumes well-formed data: it looks at five bytes at most for the
  length and then takes that many; \<^const>\<open>None\<close> stands for the null pointer it would dereference.
\<close>

definition GetLengthPrefixedSlice_data :: "slice \<Rightarrow> slice option" where
  "GetLengthPrefixedSlice_data data =
     (case GetVarint32Ptr (take 5 data) of
        None \<Rightarrow> None
      | Some (len, p) \<Rightarrow> Some (take (unat len) (p @ drop 5 data)))"

section \<open>Bits of a varint\<close>

lemma bit_byte_7: "\<not> bit (c :: byte) 7 \<Longrightarrow> 7 \<le> n \<Longrightarrow> \<not> bit c n"
  by (cases "n = 7") auto

lemma scast_low: "\<not> bit c 7 \<Longrightarrow> (scast (c :: byte) :: 'a::len word) = ucast c"
  by (rule bit_eqI) (auto simp: bit_simps min_def not_le bit_byte_7)

lemma scast_and_7f:
  "LENGTH('a) > 8 \<Longrightarrow> (scast (c :: byte) :: 'a::len word) AND 0x7f = ucast c AND 0x7f"
  by (rule bit_eqI) (auto simp: bit_simps bit_masks)

text \<open>What the first byte of an encoding contributes.\<close>

lemma varint_low_bits:
  "push_bit s ((ucast (ucast ((v AND 127) OR 128 :: u64) :: byte) :: u64) AND 0x7f)
     OR push_bit (s + 7) (drop_bit 7 v) = push_bit s v"
proof -
  let ?a = "(ucast (ucast ((v AND 127) OR 128) :: byte) :: u64) AND 0x7f"
  have eq: "?a OR push_bit 7 (drop_bit 7 v) = v"
    (is "?l = v")
  proof (rule bit_word_eqI)
    fix n assume "n < LENGTH(64)"
    show "bit ?l n = bit v n"
    proof (cases "n < 7")
      case True
      then show ?thesis by (auto simp: bit_simps bit_masks)
    next
      case False
      then obtain m where "n = 7 + m" by (metis le_add_diff_inverse not_less)
      with \<open>n < LENGTH(64)\<close> show ?thesis by (auto simp: bit_simps bit_masks)
    qed
  qed
  have "push_bit s ?a OR push_bit (s + 7) (drop_bit 7 v) = push_bit s (?a OR push_bit 7 (drop_bit 7 v))"
    by (simp only: push_bit_or push_bit_push_bit)
  then show ?thesis by (simp only: eq)
qed

lemma drop_bit_less_exp: 
  assumes "unat (v :: u64) < 2 ^ n"
  shows "unat (drop_bit 7 v) < 2 ^ (n - 7)"
proof -
  have "unat (drop_bit 7 v) = unat v div 128" by (simp add: drop_bit_eq_div unat_div_distrib)
  moreover have "unat v div 128 < 2 ^ (n - 7)"
  proof (cases "n < 7")
    case True
    then have "(2::nat) ^ n \<le> 2 ^ 7" by (intro power_increasing) auto
    with assms True show ?thesis by simp
  next
    case False
    then obtain m where "n = m + 7" by (metis le_add_diff_inverse2 not_less)
    with assms show ?thesis by (simp add: power_add less_mult_imp_div_less)
  qed
  ultimately show ?thesis by simp
qed


lemma get_varint64_step:
  "shift \<le> 63 \<Longrightarrow> get_varint64_loop shift result (c # p) =
     (if bit c 7 then get_varint64_loop (shift + 7) (result OR push_bit shift (ucast c AND 0x7f)) p
      else Some (result OR push_bit shift (ucast c), p))"
  by (simp only: get_varint64_loop.simps Let_def if_True) (simp only: scast_msb_clear scast_and_7f scast_low  len_num1 len_num0 len_bit0 if_True if_False split: if_split, simp add: scast_low)

lemma unat_less_128_byte:
  assumes "(v :: u64) < 128"
  shows "\<not> bit (ucast v :: byte) 7" and "ucast (ucast v :: byte) = v"
proof -
  have "unat (take_bit 7 v) = unat v"
    using assms by (simp add: unsigned_take_bit_eq take_bit_nat_eq_self word_less_nat_alt)
  then have "take_bit 7 v = v" by (simp only: word_unat_eq_iff)
  then have b: "bit v n \<Longrightarrow> n < 7" for n by (metis bit_take_bit_iff)
  from b [of 7] show "\<not> bit (ucast v :: byte) 7" by (auto simp: bit_simps)
  show "ucast (ucast v :: byte) = v"
    by (rule bit_eqI) (auto simp: bit_simps dest: b)
qed

lemma get_varint64_loop_encode:
  "shift \<le> 63 \<Longrightarrow> unat v < 2 ^ (64 - shift) \<Longrightarrow>
   get_varint64_loop shift result (EncodeVarint64 v @ rest) = Some (result OR push_bit shift v, rest)"
proof (induction v arbitrary: shift result rule: EncodeVarint64.induct)
  case (1 v)
  show ?case
  proof (cases "128 \<le> v")
    case True
    then have "128 \<le> unat v" by (simp add: word_le_nat_alt)
    then have "(2::nat) ^ 7 < 2 ^ (64 - shift)" using "1.prems"(2) by simp
    then have s: "shift + 7 \<le> 63" using power_less_imp_less_exp [of "2::nat" 7 "64 - shift"] by simp
    have v: "unat (drop_bit 7 v) < 2 ^ (64 - (shift + 7))"
      using drop_bit_less_exp [OF "1.prems"(2)] by simp
    let ?c = "ucast ((v AND 127) OR 128) :: byte"
    have c: "bit ?c 7" by (simp add: bit_simps bit_masks)
    have e: "EncodeVarint64 v = ?c # EncodeVarint64 (drop_bit 7 v)"
      using True by (subst EncodeVarint64.simps) (simp only: if_True)
    show ?thesis
      unfolding e append_Cons get_varint64_step [OF "1.prems"(1)] if_P [OF c]
        "1.IH" [OF True s v] or.assoc varint_low_bits ..
  next
    case False
    then have e: "EncodeVarint64 v = [ucast v]" by (subst EncodeVarint64.simps) simp
    have b: "\<not> bit (ucast v :: byte) 7" "ucast (ucast v :: byte) = v"
      using unat_less_128_byte [of v] False by (simp_all add: not_le)
    show ?thesis unfolding e append_Cons append_Nil get_varint64_step [OF "1.prems"(1)] if_not_P [OF b(1)] b(2) ..
  qed
qed

lemma get_varint32_step:
  "shift \<le> 28 \<Longrightarrow> get_varint32_loop shift result (c # p) =
     (if bit c 7 then get_varint32_loop (shift + 7) (result OR push_bit shift (ucast c AND 0x7f)) p
      else Some (result OR push_bit shift (ucast c), p))"
  by (simp only: get_varint32_loop.simps Let_def if_True)
    (simp only: scast_msb_clear scast_and_7f len_num1 len_num0 len_bit0 if_True if_False split: if_split,
      simp add: scast_low)

lemma varint_low_bits32:
  "push_bit s ((ucast (ucast ((v AND 127) OR 128 :: u64) :: byte) :: u32) AND 0x7f)
     OR push_bit (s + 7) (ucast (drop_bit 7 v)) = push_bit s (ucast v)"
proof -
  let ?b = "ucast ((v AND 127) OR 128) :: byte"
  have "ucast (push_bit s ((ucast ?b :: u64) AND 0x7f) OR push_bit (s + 7) (drop_bit 7 v))
      = (ucast (push_bit s v) :: u32)"
    by (simp only: varint_low_bits)
  moreover have "ucast (push_bit s ((ucast ?b :: u64) AND 0x7f)) = push_bit s ((ucast ?b :: u32) AND 0x7f)"
    by (rule bit_eqI) (auto simp: bit_simps bit_masks)
  moreover have "ucast (push_bit n w) = (push_bit n (ucast w) :: u32)" for n and w :: u64
    by (rule bit_eqI) (auto simp: bit_simps)
  moreover have "ucast (a OR b) = (ucast a OR ucast b :: u32)" for a b :: u64
    by (rule bit_eqI) (auto simp: bit_simps)
  ultimately show ?thesis by (simp only:)
qed

lemma get_varint32_loop_encode:
  "7 dvd shift \<Longrightarrow> shift \<le> 28 \<Longrightarrow> unat v < 2 ^ (32 - shift) \<Longrightarrow>
   get_varint32_loop shift result (EncodeVarint64 v @ rest) =
     Some (result OR push_bit shift (ucast v), rest)"
proof (induction v arbitrary: shift result rule: EncodeVarint64.induct)
  case (1 v)
  show ?case
  proof (cases "128 \<le> v")
    case True
    then have "128 \<le> unat v" by (simp add: word_le_nat_alt)
    then have "(2::nat) ^ 7 < 2 ^ (32 - shift)" using "1.prems"(3) by simp
    then have "shift < 25" using power_less_imp_less_exp [of "2::nat" 7 "32 - shift"] by simp
    with "1.prems"(1) have s: "7 dvd shift + 7" "shift + 7 \<le> 28" by (auto elim!: dvdE)
    have v: "unat (drop_bit 7 v) < 2 ^ (32 - (shift + 7))"
      using drop_bit_less_exp [OF "1.prems"(3)] by simp
    let ?c = "ucast ((v AND 127) OR 128) :: byte"
    have c: "bit ?c 7" by (simp add: bit_simps bit_masks)
    have e: "EncodeVarint64 v = ?c # EncodeVarint64 (drop_bit 7 v)"
      using True by (subst EncodeVarint64.simps) (simp only: if_True)
    show ?thesis
      unfolding e append_Cons get_varint32_step [OF "1.prems"(2)] if_P [OF c]
        "1.IH" [OF True s v] or.assoc varint_low_bits32 ..
  next
    case False
    then have e: "EncodeVarint64 v = [ucast v]" by (subst EncodeVarint64.simps) simp
    have b: "\<not> bit (ucast v :: byte) 7" "ucast (ucast v :: byte) = v"
      using unat_less_128_byte [of v] False by (simp_all add: not_le)
    have "(ucast (ucast v :: byte) :: u32) = ucast v"
      by (subst b(2) [symmetric], rule bit_eqI) (auto simp: bit_simps)
    then show ?thesis
      unfolding e append_Cons append_Nil get_varint32_step [OF "1.prems"(2)] if_not_P [OF b(1)] by simp
  qed
qed

text \<open>The unrolled 32-bit writer is the loop.\<close>

lemma EncodeVarint64_step32:
  "EncodeVarint64 (ucast (v :: u32)) =
     (if v < 128 then [ucast v] else ucast (v OR 128) # EncodeVarint64 (ucast (drop_bit 7 v)))"
proof -
  have "unat (ucast v :: u64) = unat v"
    using unat_less_exp [of v] by (simp add: unsigned_ucast_eq take_bit_nat_eq_self)
  then have "(128 \<le> (ucast v :: u64)) \<longleftrightarrow> \<not> v < 128"
    by (simp add: word_le_nat_alt word_less_nat_alt not_less)
  moreover have "drop_bit 7 (ucast v :: u64) = ucast (drop_bit 7 v)"
    by (rule bit_eqI) (auto simp: bit_simps dest: bit_imp_le_length)
  moreover have "(ucast (((ucast v :: u64) AND 127) OR 128) :: byte) = ucast (v OR 128)"
    by (rule bit_eqI) (auto simp: bit_simps bit_masks)
  moreover have "(ucast (ucast v :: u64) :: byte) = ucast v"
    by (rule bit_eqI) (auto simp: bit_simps)
  ultimately show ?thesis by (subst EncodeVarint64.simps) simp
qed

lemma unat_drop_bit_div: "unat (drop_bit n (v :: 'a::len word)) = unat v div 2 ^ n"
  by (simp add: unat_drop_bit_eq flip: drop_bit_eq_div)

lemma EncodeVarint32_loop: "EncodeVarint32 v = EncodeVarint64 (ucast v)"
proof -
  have lt: "drop_bit n v < 128 \<longleftrightarrow> unat v < 128 * 2 ^ n" for n
    by (simp add: word_less_nat_alt unat_drop_bit_div div_less_iff_less_mult)
  have le: "v < 128 \<longleftrightarrow> unat v < 128" "v < 16384 \<longleftrightarrow> unat v < 16384"
    "v < 2097152 \<longleftrightarrow> unat v < 2097152" "v < 268435456 \<longleftrightarrow> unat v < 268435456"
    by (simp_all add: word_less_nat_alt)
  have "unat v < 2 ^ 32" using unat_less_exp [of v] by simp
  then show ?thesis
    unfolding EncodeVarint32_def Let_def
    apply (subst EncodeVarint64_step32, subst EncodeVarint64_step32, subst EncodeVarint64_step32,
        subst EncodeVarint64_step32, subst EncodeVarint64_step32)
    apply (simp add: drop_bit_drop_bit lt le)
    done
qed

section \<open>The codecs\<close>

lemma GetFixed_Put [codec_simps]:
  "GetFixed16 (EncodeFixed16 a @ rest) = Some (a, rest)"
  "GetFixed32 (EncodeFixed32 b @ rest) = Some (b, rest)"
  "GetFixed64 (EncodeFixed64 c @ rest) = Some (c, rest)"
  by (simp_all add: GetFixed16_def GetFixed32_def GetFixed64_def EncodeFixed16_def EncodeFixed32_def
      EncodeFixed64_def DecodeFixed16_def DecodeFixed32_def DecodeFixed64_def le_word_le_bytes)

lemma GetFixed_suffix [suffix_intros]:
  "GetFixed16 bs = Some (a, rest) \<Longrightarrow> proper_suffix rest bs"
  "GetFixed32 bs = Some (b, rest) \<Longrightarrow> proper_suffix rest bs"
  "GetFixed64 bs = Some (c, rest) \<Longrightarrow> proper_suffix rest bs"
  by (auto simp: GetFixed16_def GetFixed32_def GetFixed64_def split: if_splits
      intro!: proper_suffix_drop)

lemma get_varint64_loop_suffix:
  "get_varint64_loop shift result bs = Some (v, rest) \<Longrightarrow> proper_suffix rest bs"
  by (induction shift result bs rule: get_varint64_loop.induct)
    (auto simp: Let_def split: if_splits intro: proper_suffix_ConsI)

lemma get_varint32_loop_suffix:
  "get_varint32_loop shift result bs = Some (v, rest) \<Longrightarrow> proper_suffix rest bs"
  by (induction shift result bs rule: get_varint32_loop.induct)
    (auto simp: Let_def split: if_splits intro: proper_suffix_ConsI)

text \<open>The one-byte fast path of the 32-bit reader agrees with the loop behind it.\<close>

lemma GetVarint32Ptr_Fallback: "GetVarint32Ptr p = GetVarint32PtrFallback p"
  by (cases p) (simp_all add: GetVarint32Ptr_def GetVarint32PtrFallback_def Let_def)

lemma GetVarint64_Encode [codec_simps]: "GetVarint64 (EncodeVarint64 v @ rest) = Some (v, rest)"
  using get_varint64_loop_encode [of 0 v 0 rest] unat_less_exp [of v]
  by (simp add: GetVarint64_def GetVarint64Ptr_def)

lemma GetVarint32_Encode [codec_simps]: "GetVarint32 (EncodeVarint32 v @ rest) = Some (v, rest)"
proof -
  have u: "unat (ucast v :: u64) = unat v"
    using unat_less_exp [of v] by (simp add: unsigned_ucast_eq take_bit_nat_eq_self)
  have "(ucast (ucast v :: u64) :: u32) = v" by (rule bit_eqI) (auto simp: bit_simps)
  then show ?thesis
    using get_varint32_loop_encode [of 0 "ucast v" 0 rest] unat_less_exp [of v]
    by (simp add: GetVarint32_def GetVarint32Ptr_Fallback GetVarint32PtrFallback_def
        EncodeVarint32_loop u)
qed

lemma GetVarint_suffix [suffix_intros]:
  "GetVarint64 bs = Some (v, rest) \<Longrightarrow> proper_suffix rest bs"
  "GetVarint32 bs = Some (w, rest) \<Longrightarrow> proper_suffix rest bs"
  by (auto simp: GetVarint64_def GetVarint64Ptr_def GetVarint32_def GetVarint32Ptr_Fallback
      GetVarint32PtrFallback_def dest: get_varint64_loop_suffix get_varint32_loop_suffix)

lemma zigzag_roundtrip: "zigzagToI64 (i64ToZigzag v) = v"
proof (rule bit_word_eqI)
  fix n assume n: "n < LENGTH(64)"
  let ?z = "i64ToZigzag v"
  have m: "- (w AND 1) = (if bit w 0 then - 1 else 0)" for w :: u64
    by (simp add: and_one_eq bit_0 odd_iff_mod_2_eq_one)
  have d: "bit (signed_drop_bit 63 v) k \<longleftrightarrow> k < 64 \<and> bit v 63" for k
    by (cases "k = 0") (auto simp: bit_signed_drop_bit_iff dest: bit_imp_le_length)
  have z: "bit ?z k \<longleftrightarrow> k < 64 \<and> ((0 < k \<and> bit v (k - 1)) \<noteq> bit v 63)" for k
    unfolding i64ToZigzag_def bit_xor_iff bit_push_bit_iff d possible_bit_word by auto
  have "bit (zigzagToI64 ?z) n \<longleftrightarrow> (bit ?z (Suc n) \<noteq> bit ?z 0)"
    unfolding zigzagToI64_def m using n by (simp add: bit_xor_iff bit_drop_bit_eq)
  also have "\<dots> \<longleftrightarrow> bit v n"
    using n by (cases "n = 63") (auto simp: z)
  finally show "bit (zigzagToI64 ?z) n = bit v n" .
qed

lemma GetVarsignedint64_Encode [codec_simps]:
  "GetVarsignedint64 (EncodeVarint64 (i64ToZigzag v) @ rest) = Some (v, rest)"
  using GetVarint64_Encode [of "i64ToZigzag v" rest]
  by (simp add: GetVarsignedint64_def GetVarint64_def zigzag_roundtrip)

definition EncodeLengthPrefixed :: "slice \<Rightarrow> slice" where
  "EncodeLengthPrefixed value = PutLengthPrefixedSlice [] value"

lemma PutLengthPrefixedSlice_append:
  "PutLengthPrefixedSlice dst value = dst @ EncodeLengthPrefixed value"
  by (simp add: PutLengthPrefixedSlice_def EncodeLengthPrefixed_def PutVarint32_def)

lemma unat_word_of_nat32 [simp]: "n < 2 ^ 32 \<Longrightarrow> unat (word_of_nat n :: u32) = n"
  by (simp add: unat_of_nat)

lemma GetLengthPrefixedSlice_Encode [codec_simps]:
  "length value < 2 ^ 32 \<Longrightarrow>
   GetLengthPrefixedSlice (EncodeLengthPrefixed value @ rest) = Some (value, rest)"
  by (simp add: GetLengthPrefixedSlice_def EncodeLengthPrefixed_def PutLengthPrefixedSlice_def
      PutVarint32_def GetVarint32_Encode)

lemma GetLengthPrefixedSlice_suffix [suffix_intros]:
  "GetLengthPrefixedSlice bs = Some (v, rest) \<Longrightarrow> proper_suffix rest bs"
  by (auto simp: GetLengthPrefixedSlice_def split: option.splits if_splits
      dest!: GetVarint_suffix(2) intro: proper_suffix_drop_trans)

interpretation fixed16: codec EncodeFixed16 GetFixed16 "\<lambda>_. True"
  by unfold_locales (simp_all add: codec_simps suffix_intros)

interpretation fixed32: codec EncodeFixed32 GetFixed32 "\<lambda>_. True"
  by unfold_locales (simp_all add: codec_simps suffix_intros)

interpretation fixed64: codec EncodeFixed64 GetFixed64 "\<lambda>_. True"
  by unfold_locales (simp_all add: codec_simps suffix_intros)

interpretation varint32: codec EncodeVarint32 GetVarint32 "\<lambda>_. True"
  by unfold_locales (simp_all add: codec_simps suffix_intros)

interpretation varint64: codec EncodeVarint64 GetVarint64 "\<lambda>_. True"
  by unfold_locales (simp_all add: codec_simps suffix_intros)

interpretation lprefixed: codec EncodeLengthPrefixed GetLengthPrefixedSlice "\<lambda>v. length v < 2 ^ 32"
  by unfold_locales (simp_all add: codec_simps suffix_intros)

lemma VarintLength_eq: "VarintLength v = length (EncodeVarint64 v)"
  by (induction v rule: EncodeVarint64.induct)
    (subst VarintLength.simps, subst EncodeVarint64.simps, simp)

lemma VarintLength_le: "unat v < 2 ^ (7 * n) \<Longrightarrow> 0 < n \<Longrightarrow> VarintLength v \<le> n"
proof (induction n arbitrary: v)
  case (Suc n)
  show ?case
  proof (cases "128 \<le> v \<and> 0 < n")
    case True
    have "unat (drop_bit 7 v) < 2 ^ (7 * n)" using drop_bit_less_exp [OF Suc.prems(1)] by simp
    with Suc.IH True have "VarintLength (drop_bit 7 v) \<le> n" by simp
    then show ?thesis by (subst VarintLength.simps) simp
  next
    case False
    with Suc.prems have "\<not> 128 \<le> v" by (cases n) (auto simp: word_le_nat_alt)
    then show ?thesis by (subst VarintLength.simps) simp
  qed
qed simp

lemma length_EncodeVarint64: "length (EncodeVarint64 v) \<le> 10"
  using VarintLength_le [of v 10] unat_less_exp [of v] by (simp add: VarintLength_eq)

lemma length_EncodeVarint32: "length (EncodeVarint32 v) \<le> 5"
  by (simp add: EncodeVarint32_def Let_def)

section \<open>Properties\<close>

text \<open>
  C1: every integer and string encoding is read back exactly, whatever bytes follow it: fixed
  16, 32 and 64-bit words, 32 and 64-bit varints, zigzag varints, and length-prefixed strings
  shorter than \<open>2 ^ 32\<close> bytes (the length prefix is a 32-bit varint).
\<close>

theorem coding_roundtrip:
  assumes "length s < 2 ^ 32"
  shows "GetFixed16 (PutFixed16 [] a @ rest) = Some (a, rest) \<and>
    GetFixed32 (PutFixed32 [] b @ rest) = Some (b, rest) \<and>
    GetFixed64 (PutFixed64 [] c @ rest) = Some (c, rest) \<and>
    GetVarint32 (PutVarint32 [] b @ rest) = Some (b, rest) \<and>
    GetVarint64 (PutVarint64 [] c @ rest) = Some (c, rest) \<and>
    GetVarsignedint64 (PutVarsignedint64 [] c @ rest) = Some (c, rest) \<and>
    GetLengthPrefixedSlice (PutLengthPrefixedSlice [] s @ rest) = Some (s, rest)"
  using assms
  by (simp add: PutFixed16_def PutFixed32_def PutFixed64_def PutVarint32_def PutVarint64_def
      PutVarsignedint64_def PutLengthPrefixedSlice_append codec_simps)

theorem coding_roundtrip_witness:
  "GetVarsignedint64 (PutVarsignedint64 [] (- 3) @ [7]) = Some (- 3, [7]) \<and>
   GetLengthPrefixedSlice (PutLengthPrefixedSlice [] [1, 2] @ [7]) = Some ([1, 2], [7])"
  using coding_roundtrip [of "[1, 2]" 0 "[7]" 0 "- 3"] by simp

text \<open>
  C4: the unrolled 32-bit varint writer emits exactly the bytes of the general loop, at most
  five of them, and \<^verbatim>\<open>VarintLength\<close> predicts their number; the 64-bit loop emits at most
  \<^verbatim>\<open>kMaxVarint64Length\<close> = 10 bytes, so the stack buffers of the \<^verbatim>\<open>Put\<close> routines suffice.
\<close>

theorem varint_writers_agree:
  "EncodeVarint32 v = EncodeVarint64 (ucast v) \<and> length (EncodeVarint32 v) \<le> 5 \<and>
   length (EncodeVarint64 w) = VarintLength w \<and> VarintLength w \<le> 10"
  using length_EncodeVarint64 [of w]
  by (simp add: EncodeVarint32_loop length_EncodeVarint32 [unfolded EncodeVarint32_loop] VarintLength_eq)

end
