(* ===== verification/Crc32c.thy ===== *)
theory Crc32c
  imports Coding
begin

unbundle bit_operations_syntax

text \<open>
  CRC-32C as \<^verbatim>\<open>util/crc32c.cc\<close> computes it on a build without hardware instructions: the four
  slicing tables, \<^verbatim>\<open>ExtendImpl<DefaultCRC32>\<close>, the combination of two checksums by multiplication in
  the Galois field, and the masking of \<^verbatim>\<open>util/crc32c.h\<close>. The reference is the bit-serial register
  \<open>crc_bit\<close>; it is linear over exclusive or, and every optimised routine is reduced to its powers.
\<close>

section \<open>Tables\<close>

definition table0 :: "u32 list" where
  "table0 =
    [0x00000000, 0xf26b8303, 0xe13b70f7, 0x1350f3f4, 0xc79a971f, 0x35f1141c, 0x26a1e7e8, 0xd4ca64eb,
     0x8ad958cf, 0x78b2dbcc, 0x6be22838, 0x9989ab3b, 0x4d43cfd0, 0xbf284cd3, 0xac78bf27, 0x5e133c24,
     0x105ec76f, 0xe235446c, 0xf165b798, 0x030e349b, 0xd7c45070, 0x25afd373, 0x36ff2087, 0xc494a384,
     0x9a879fa0, 0x68ec1ca3, 0x7bbcef57, 0x89d76c54, 0x5d1d08bf, 0xaf768bbc, 0xbc267848, 0x4e4dfb4b,
     0x20bd8ede, 0xd2d60ddd, 0xc186fe29, 0x33ed7d2a, 0xe72719c1, 0x154c9ac2, 0x061c6936, 0xf477ea35,
     0xaa64d611, 0x580f5512, 0x4b5fa6e6, 0xb93425e5, 0x6dfe410e, 0x9f95c20d, 0x8cc531f9, 0x7eaeb2fa,
     0x30e349b1, 0xc288cab2, 0xd1d83946, 0x23b3ba45, 0xf779deae, 0x05125dad, 0x1642ae59, 0xe4292d5a,
     0xba3a117e, 0x4851927d, 0x5b016189, 0xa96ae28a, 0x7da08661, 0x8fcb0562, 0x9c9bf696, 0x6ef07595,
     0x417b1dbc, 0xb3109ebf, 0xa0406d4b, 0x522bee48, 0x86e18aa3, 0x748a09a0, 0x67dafa54, 0x95b17957,
     0xcba24573, 0x39c9c670, 0x2a993584, 0xd8f2b687, 0x0c38d26c, 0xfe53516f, 0xed03a29b, 0x1f682198,
     0x5125dad3, 0xa34e59d0, 0xb01eaa24, 0x42752927, 0x96bf4dcc, 0x64d4cecf, 0x77843d3b, 0x85efbe38,
     0xdbfc821c, 0x2997011f, 0x3ac7f2eb, 0xc8ac71e8, 0x1c661503, 0xee0d9600, 0xfd5d65f4, 0x0f36e6f7,
     0x61c69362, 0x93ad1061, 0x80fde395, 0x72966096, 0xa65c047d, 0x5437877e, 0x4767748a, 0xb50cf789,
     0xeb1fcbad, 0x197448ae, 0x0a24bb5a, 0xf84f3859, 0x2c855cb2, 0xdeeedfb1, 0xcdbe2c45, 0x3fd5af46,
     0x7198540d, 0x83f3d70e, 0x90a324fa, 0x62c8a7f9, 0xb602c312, 0x44694011, 0x5739b3e5, 0xa55230e6,
     0xfb410cc2, 0x092a8fc1, 0x1a7a7c35, 0xe811ff36, 0x3cdb9bdd, 0xceb018de, 0xdde0eb2a, 0x2f8b6829,
     0x82f63b78, 0x709db87b, 0x63cd4b8f, 0x91a6c88c, 0x456cac67, 0xb7072f64, 0xa457dc90, 0x563c5f93,
     0x082f63b7, 0xfa44e0b4, 0xe9141340, 0x1b7f9043, 0xcfb5f4a8, 0x3dde77ab, 0x2e8e845f, 0xdce5075c,
     0x92a8fc17, 0x60c37f14, 0x73938ce0, 0x81f80fe3, 0x55326b08, 0xa759e80b, 0xb4091bff, 0x466298fc,
     0x1871a4d8, 0xea1a27db, 0xf94ad42f, 0x0b21572c, 0xdfeb33c7, 0x2d80b0c4, 0x3ed04330, 0xccbbc033,
     0xa24bb5a6, 0x502036a5, 0x4370c551, 0xb11b4652, 0x65d122b9, 0x97baa1ba, 0x84ea524e, 0x7681d14d,
     0x2892ed69, 0xdaf96e6a, 0xc9a99d9e, 0x3bc21e9d, 0xef087a76, 0x1d63f975, 0x0e330a81, 0xfc588982,
     0xb21572c9, 0x407ef1ca, 0x532e023e, 0xa145813d, 0x758fe5d6, 0x87e466d5, 0x94b49521, 0x66df1622,
     0x38cc2a06, 0xcaa7a905, 0xd9f75af1, 0x2b9cd9f2, 0xff56bd19, 0x0d3d3e1a, 0x1e6dcdee, 0xec064eed,
     0xc38d26c4, 0x31e6a5c7, 0x22b65633, 0xd0ddd530, 0x0417b1db, 0xf67c32d8, 0xe52cc12c, 0x1747422f,
     0x49547e0b, 0xbb3ffd08, 0xa86f0efc, 0x5a048dff, 0x8ecee914, 0x7ca56a17, 0x6ff599e3, 0x9d9e1ae0,
     0xd3d3e1ab, 0x21b862a8, 0x32e8915c, 0xc083125f, 0x144976b4, 0xe622f5b7, 0xf5720643, 0x07198540,
     0x590ab964, 0xab613a67, 0xb831c993, 0x4a5a4a90, 0x9e902e7b, 0x6cfbad78, 0x7fab5e8c, 0x8dc0dd8f,
     0xe330a81a, 0x115b2b19, 0x020bd8ed, 0xf0605bee, 0x24aa3f05, 0xd6c1bc06, 0xc5914ff2, 0x37faccf1,
     0x69e9f0d5, 0x9b8273d6, 0x88d28022, 0x7ab90321, 0xae7367ca, 0x5c18e4c9, 0x4f48173d, 0xbd23943e,
     0xf36e6f75, 0x0105ec76, 0x12551f82, 0xe03e9c81, 0x34f4f86a, 0xc69f7b69, 0xd5cf889d, 0x27a40b9e,
     0x79b737ba, 0x8bdcb4b9, 0x988c474d, 0x6ae7c44e, 0xbe2da0a5, 0x4c4623a6, 0x5f16d052, 0xad7d5351]"

definition table1 :: "u32 list" where
  "table1 =
    [0x00000000, 0x13a29877, 0x274530ee, 0x34e7a899, 0x4e8a61dc, 0x5d28f9ab, 0x69cf5132, 0x7a6dc945,
     0x9d14c3b8, 0x8eb65bcf, 0xba51f356, 0xa9f36b21, 0xd39ea264, 0xc03c3a13, 0xf4db928a, 0xe7790afd,
     0x3fc5f181, 0x2c6769f6, 0x1880c16f, 0x0b225918, 0x714f905d, 0x62ed082a, 0x560aa0b3, 0x45a838c4,
     0xa2d13239, 0xb173aa4e, 0x859402d7, 0x96369aa0, 0xec5b53e5, 0xfff9cb92, 0xcb1e630b, 0xd8bcfb7c,
     0x7f8be302, 0x6c297b75, 0x58ced3ec, 0x4b6c4b9b, 0x310182de, 0x22a31aa9, 0x1644b230, 0x05e62a47,
     0xe29f20ba, 0xf13db8cd, 0xc5da1054, 0xd6788823, 0xac154166, 0xbfb7d911, 0x8b507188, 0x98f2e9ff,
     0x404e1283, 0x53ec8af4, 0x670b226d, 0x74a9ba1a, 0x0ec4735f, 0x1d66eb28, 0x298143b1, 0x3a23dbc6,
     0xdd5ad13b, 0xcef8494c, 0xfa1fe1d5, 0xe9bd79a2, 0x93d0b0e7, 0x80722890, 0xb4958009, 0xa737187e,
     0xff17c604, 0xecb55e73, 0xd852f6ea, 0xcbf06e9d, 0xb19da7d8, 0xa23f3faf, 0x96d89736, 0x857a0f41,
     0x620305bc, 0x71a19dcb, 0x45463552, 0x56e4ad25, 0x2c896460, 0x3f2bfc17, 0x0bcc548e, 0x186eccf9,
     0xc0d23785, 0xd370aff2, 0xe797076b, 0xf4359f1c, 0x8e585659, 0x9dface2e, 0xa91d66b7, 0xbabffec0,
     0x5dc6f43d, 0x4e646c4a, 0x7a83c4d3, 0x69215ca4, 0x134c95e1, 0x00ee0d96, 0x3409a50f, 0x27ab3d78,
     0x809c2506, 0x933ebd71, 0xa7d915e8, 0xb47b8d9f, 0xce1644da, 0xddb4dcad, 0xe9537434, 0xfaf1ec43,
     0x1d88e6be, 0x0e2a7ec9, 0x3acdd650, 0x296f4e27, 0x53028762, 0x40a01f15, 0x7447b78c, 0x67e52ffb,
     0xbf59d487, 0xacfb4cf0, 0x981ce469, 0x8bbe7c1e, 0xf1d3b55b, 0xe2712d2c, 0xd69685b5, 0xc5341dc2,
     0x224d173f, 0x31ef8f48, 0x050827d1, 0x16aabfa6, 0x6cc776e3, 0x7f65ee94, 0x4b82460d, 0x5820de7a,
     0xfbc3faf9, 0xe861628e, 0xdc86ca17, 0xcf245260, 0xb5499b25, 0xa6eb0352, 0x920cabcb, 0x81ae33bc,
     0x66d73941, 0x7575a136, 0x419209af, 0x523091d8, 0x285d589d, 0x3bffc0ea, 0x0f186873, 0x1cbaf004,
     0xc4060b78, 0xd7a4930f, 0xe3433b96, 0xf0e1a3e1, 0x8a8c6aa4, 0x992ef2d3, 0xadc95a4a, 0xbe6bc23d,
     0x5912c8c0, 0x4ab050b7, 0x7e57f82e, 0x6df56059, 0x1798a91c, 0x043a316b, 0x30dd99f2, 0x237f0185,
     0x844819fb, 0x97ea818c, 0xa30d2915, 0xb0afb162, 0xcac27827, 0xd960e050, 0xed8748c9, 0xfe25d0be,
     0x195cda43, 0x0afe4234, 0x3e19eaad, 0x2dbb72da, 0x57d6bb9f, 0x447423e8, 0x70938b71, 0x63311306,
     0xbb8de87a, 0xa82f700d, 0x9cc8d894, 0x8f6a40e3, 0xf50789a6, 0xe6a511d1, 0xd242b948, 0xc1e0213f,
     0x26992bc2, 0x353bb3b5, 0x01dc1b2c, 0x127e835b, 0x68134a1e, 0x7bb1d269, 0x4f567af0, 0x5cf4e287,
     0x04d43cfd, 0x1776a48a, 0x23910c13, 0x30339464, 0x4a5e5d21, 0x59fcc556, 0x6d1b6dcf, 0x7eb9f5b8,
     0x99c0ff45, 0x8a626732, 0xbe85cfab, 0xad2757dc, 0xd74a9e99, 0xc4e806ee, 0xf00fae77, 0xe3ad3600,
     0x3b11cd7c, 0x28b3550b, 0x1c54fd92, 0x0ff665e5, 0x759baca0, 0x663934d7, 0x52de9c4e, 0x417c0439,
     0xa6050ec4, 0xb5a796b3, 0x81403e2a, 0x92e2a65d, 0xe88f6f18, 0xfb2df76f, 0xcfca5ff6, 0xdc68c781,
     0x7b5fdfff, 0x68fd4788, 0x5c1aef11, 0x4fb87766, 0x35d5be23, 0x26772654, 0x12908ecd, 0x013216ba,
     0xe64b1c47, 0xf5e98430, 0xc10e2ca9, 0xd2acb4de, 0xa8c17d9b, 0xbb63e5ec, 0x8f844d75, 0x9c26d502,
     0x449a2e7e, 0x5738b609, 0x63df1e90, 0x707d86e7, 0x0a104fa2, 0x19b2d7d5, 0x2d557f4c, 0x3ef7e73b,
     0xd98eedc6, 0xca2c75b1, 0xfecbdd28, 0xed69455f, 0x97048c1a, 0x84a6146d, 0xb041bcf4, 0xa3e32483]"

definition table2 :: "u32 list" where
  "table2 =
    [0x00000000, 0xa541927e, 0x4f6f520d, 0xea2ec073, 0x9edea41a, 0x3b9f3664, 0xd1b1f617, 0x74f06469,
     0x38513ec5, 0x9d10acbb, 0x773e6cc8, 0xd27ffeb6, 0xa68f9adf, 0x03ce08a1, 0xe9e0c8d2, 0x4ca15aac,
     0x70a27d8a, 0xd5e3eff4, 0x3fcd2f87, 0x9a8cbdf9, 0xee7cd990, 0x4b3d4bee, 0xa1138b9d, 0x045219e3,
     0x48f3434f, 0xedb2d131, 0x079c1142, 0xa2dd833c, 0xd62de755, 0x736c752b, 0x9942b558, 0x3c032726,
     0xe144fb14, 0x4405696a, 0xae2ba919, 0x0b6a3b67, 0x7f9a5f0e, 0xdadbcd70, 0x30f50d03, 0x95b49f7d,
     0xd915c5d1, 0x7c5457af, 0x967a97dc, 0x333b05a2, 0x47cb61cb, 0xe28af3b5, 0x08a433c6, 0xade5a1b8,
     0x91e6869e, 0x34a714e0, 0xde89d493, 0x7bc846ed, 0x0f382284, 0xaa79b0fa, 0x40577089, 0xe516e2f7,
     0xa9b7b85b, 0x0cf62a25, 0xe6d8ea56, 0x43997828, 0x37691c41, 0x92288e3f, 0x78064e4c, 0xdd47dc32,
     0xc76580d9, 0x622412a7, 0x880ad2d4, 0x2d4b40aa, 0x59bb24c3, 0xfcfab6bd, 0x16d476ce, 0xb395e4b0,
     0xff34be1c, 0x5a752c62, 0xb05bec11, 0x151a7e6f, 0x61ea1a06, 0xc4ab8878, 0x2e85480b, 0x8bc4da75,
     0xb7c7fd53, 0x12866f2d, 0xf8a8af5e, 0x5de93d20, 0x29195949, 0x8c58cb37, 0x66760b44, 0xc337993a,
     0x8f96c396, 0x2ad751e8, 0xc0f9919b, 0x65b803e5, 0x1148678c, 0xb409f5f2, 0x5e273581, 0xfb66a7ff,
     0x26217bcd, 0x8360e9b3, 0x694e29c0, 0xcc0fbbbe, 0xb8ffdfd7, 0x1dbe4da9, 0xf7908dda, 0x52d11fa4,
     0x1e704508, 0xbb31d776, 0x511f1705, 0xf45e857b, 0x80aee112, 0x25ef736c, 0xcfc1b31f, 0x6a802161,
     0x56830647, 0xf3c29439, 0x19ec544a, 0xbcadc634, 0xc85da25d, 0x6d1c3023, 0x8732f050, 0x2273622e,
     0x6ed23882, 0xcb93aafc, 0x21bd6a8f, 0x84fcf8f1, 0xf00c9c98, 0x554d0ee6, 0xbf63ce95, 0x1a225ceb,
     0x8b277743, 0x2e66e53d, 0xc448254e, 0x6109b730, 0x15f9d359, 0xb0b84127, 0x5a968154, 0xffd7132a,
     0xb3764986, 0x1637dbf8, 0xfc191b8b, 0x595889f5, 0x2da8ed9c, 0x88e97fe2, 0x62c7bf91, 0xc7862def,
     0xfb850ac9, 0x5ec498b7, 0xb4ea58c4, 0x11abcaba, 0x655baed3, 0xc01a3cad, 0x2a34fcde, 0x8f756ea0,
     0xc3d4340c, 0x6695a672, 0x8cbb6601, 0x29faf47f, 0x5d0a9016, 0xf84b0268, 0x1265c21b, 0xb7245065,
     0x6a638c57, 0xcf221e29, 0x250cde5a, 0x804d4c24, 0xf4bd284d, 0x51fcba33, 0xbbd27a40, 0x1e93e83e,
     0x5232b292, 0xf77320ec, 0x1d5de09f, 0xb81c72e1, 0xccec1688, 0x69ad84f6, 0x83834485, 0x26c2d6fb,
     0x1ac1f1dd, 0xbf8063a3, 0x55aea3d0, 0xf0ef31ae, 0x841f55c7, 0x215ec7b9, 0xcb7007ca, 0x6e3195b4,
     0x2290cf18, 0x87d15d66, 0x6dff9d15, 0xc8be0f6b, 0xbc4e6b02, 0x190ff97c, 0xf321390f, 0x5660ab71,
     0x4c42f79a, 0xe90365e4, 0x032da597, 0xa66c37e9, 0xd29c5380, 0x77ddc1fe, 0x9df3018d, 0x38b293f3,
     0x7413c95f, 0xd1525b21, 0x3b7c9b52, 0x9e3d092c, 0xeacd6d45, 0x4f8cff3b, 0xa5a23f48, 0x00e3ad36,
     0x3ce08a10, 0x99a1186e, 0x738fd81d, 0xd6ce4a63, 0xa23e2e0a, 0x077fbc74, 0xed517c07, 0x4810ee79,
     0x04b1b4d5, 0xa1f026ab, 0x4bdee6d8, 0xee9f74a6, 0x9a6f10cf, 0x3f2e82b1, 0xd50042c2, 0x7041d0bc,
     0xad060c8e, 0x08479ef0, 0xe2695e83, 0x4728ccfd, 0x33d8a894, 0x96993aea, 0x7cb7fa99, 0xd9f668e7,
     0x9557324b, 0x3016a035, 0xda386046, 0x7f79f238, 0x0b899651, 0xaec8042f, 0x44e6c45c, 0xe1a75622,
     0xdda47104, 0x78e5e37a, 0x92cb2309, 0x378ab177, 0x437ad51e, 0xe63b4760, 0x0c158713, 0xa954156d,
     0xe5f54fc1, 0x40b4ddbf, 0xaa9a1dcc, 0x0fdb8fb2, 0x7b2bebdb, 0xde6a79a5, 0x3444b9d6, 0x91052ba8]"

definition table3 :: "u32 list" where
  "table3 =
    [0x00000000, 0xdd45aab8, 0xbf672381, 0x62228939, 0x7b2231f3, 0xa6679b4b, 0xc4451272, 0x1900b8ca,
     0xf64463e6, 0x2b01c95e, 0x49234067, 0x9466eadf, 0x8d665215, 0x5023f8ad, 0x32017194, 0xef44db2c,
     0xe964b13d, 0x34211b85, 0x560392bc, 0x8b463804, 0x924680ce, 0x4f032a76, 0x2d21a34f, 0xf06409f7,
     0x1f20d2db, 0xc2657863, 0xa047f15a, 0x7d025be2, 0x6402e328, 0xb9474990, 0xdb65c0a9, 0x06206a11,
     0xd725148b, 0x0a60be33, 0x6842370a, 0xb5079db2, 0xac072578, 0x71428fc0, 0x136006f9, 0xce25ac41,
     0x2161776d, 0xfc24ddd5, 0x9e0654ec, 0x4343fe54, 0x5a43469e, 0x8706ec26, 0xe524651f, 0x3861cfa7,
     0x3e41a5b6, 0xe3040f0e, 0x81268637, 0x5c632c8f, 0x45639445, 0x98263efd, 0xfa04b7c4, 0x27411d7c,
     0xc805c650, 0x15406ce8, 0x7762e5d1, 0xaa274f69, 0xb327f7a3, 0x6e625d1b, 0x0c40d422, 0xd1057e9a,
     0xaba65fe7, 0x76e3f55f, 0x14c17c66, 0xc984d6de, 0xd0846e14, 0x0dc1c4ac, 0x6fe34d95, 0xb2a6e72d,
     0x5de23c01, 0x80a796b9, 0xe2851f80, 0x3fc0b538, 0x26c00df2, 0xfb85a74a, 0x99a72e73, 0x44e284cb,
     0x42c2eeda, 0x9f874462, 0xfda5cd5b, 0x20e067e3, 0x39e0df29, 0xe4a57591, 0x8687fca8, 0x5bc25610,
     0xb4868d3c, 0x69c32784, 0x0be1aebd, 0xd6a40405, 0xcfa4bccf, 0x12e11677, 0x70c39f4e, 0xad8635f6,
     0x7c834b6c, 0xa1c6e1d4, 0xc3e468ed, 0x1ea1c255, 0x07a17a9f, 0xdae4d027, 0xb8c6591e, 0x6583f3a6,
     0x8ac7288a, 0x57828232, 0x35a00b0b, 0xe8e5a1b3, 0xf1e51979, 0x2ca0b3c1, 0x4e823af8, 0x93c79040,
     0x95e7fa51, 0x48a250e9, 0x2a80d9d0, 0xf7c57368, 0xeec5cba2, 0x3380611a, 0x51a2e823, 0x8ce7429b,
     0x63a399b7, 0xbee6330f, 0xdcc4ba36, 0x0181108e, 0x1881a844, 0xc5c402fc, 0xa7e68bc5, 0x7aa3217d,
     0x52a0c93f, 0x8fe56387, 0xedc7eabe, 0x30824006, 0x2982f8cc, 0xf4c75274, 0x96e5db4d, 0x4ba071f5,
     0xa4e4aad9, 0x79a10061, 0x1b838958, 0xc6c623e0, 0xdfc69b2a, 0x02833192, 0x60a1b8ab, 0xbde41213,
     0xbbc47802, 0x6681d2ba, 0x04a35b83, 0xd9e6f13b, 0xc0e649f1, 0x1da3e349, 0x7f816a70, 0xa2c4c0c8,
     0x4d801be4, 0x90c5b15c, 0xf2e73865, 0x2fa292dd, 0x36a22a17, 0xebe780af, 0x89c50996, 0x5480a32e,
     0x8585ddb4, 0x58c0770c, 0x3ae2fe35, 0xe7a7548d, 0xfea7ec47, 0x23e246ff, 0x41c0cfc6, 0x9c85657e,
     0x73c1be52, 0xae8414ea, 0xcca69dd3, 0x11e3376b, 0x08e38fa1, 0xd5a62519, 0xb784ac20, 0x6ac10698,
     0x6ce16c89, 0xb1a4c631, 0xd3864f08, 0x0ec3e5b0, 0x17c35d7a, 0xca86f7c2, 0xa8a47efb, 0x75e1d443,
     0x9aa50f6f, 0x47e0a5d7, 0x25c22cee, 0xf8878656, 0xe1873e9c, 0x3cc29424, 0x5ee01d1d, 0x83a5b7a5,
     0xf90696d8, 0x24433c60, 0x4661b559, 0x9b241fe1, 0x8224a72b, 0x5f610d93, 0x3d4384aa, 0xe0062e12,
     0x0f42f53e, 0xd2075f86, 0xb025d6bf, 0x6d607c07, 0x7460c4cd, 0xa9256e75, 0xcb07e74c, 0x16424df4,
     0x106227e5, 0xcd278d5d, 0xaf050464, 0x7240aedc, 0x6b401616, 0xb605bcae, 0xd4273597, 0x09629f2f,
     0xe6264403, 0x3b63eebb, 0x59416782, 0x8404cd3a, 0x9d0475f0, 0x4041df48, 0x22635671, 0xff26fcc9,
     0x2e238253, 0xf36628eb, 0x9144a1d2, 0x4c010b6a, 0x5501b3a0, 0x88441918, 0xea669021, 0x37233a99,
     0xd867e1b5, 0x05224b0d, 0x6700c234, 0xba45688c, 0xa345d046, 0x7e007afe, 0x1c22f3c7, 0xc167597f,
     0xc747336e, 0x1a0299d6, 0x782010ef, 0xa565ba57, 0xbc65029d, 0x6120a825, 0x0302211c, 0xde478ba4,
     0x31035088, 0xec46fa30, 0x8e647309, 0x5321d9b1, 0x4a21617b, 0x9764cbc3, 0xf54642fa, 0x2803e842]"

section \<open>Extending a checksum\<close>

text \<open>The 64-bit accumulator \<^verbatim>\<open>l\<close> is kept at its width; an index \<^verbatim>\<open>x & 0xff\<close> is below 256.\<close>

definition LE_LOAD32 :: "slice \<Rightarrow> u32" where
  "LE_LOAD32 p = DecodeFixed32 p"

definition crc_word :: "u64 \<Rightarrow> slice \<Rightarrow> u64" where
  "crc_word l p =
     (let c = ucast (l XOR ucast (LE_LOAD32 p)) :: u32 in
      ucast (table3 ! unat (c AND 0xff) XOR table2 ! unat (drop_bit 8 c AND 0xff) XOR
        table1 ! unat (drop_bit 16 c AND 0xff) XOR table0 ! unat (drop_bit 24 c)))"

definition DefaultCRC32 :: "u64 \<Rightarrow> slice \<Rightarrow> u64 \<times> slice" where
  "DefaultCRC32 l p =
     (let l1 = crc_word l p; p1 = drop 4 p; l2 = crc_word l1 p1 in (l2, drop 4 p1))"

fun STEP1 :: "u64 \<Rightarrow> byte \<Rightarrow> u64" where
  "STEP1 l b =
     (let c = (l AND 0xff) XOR ucast b in ucast (table0 ! unat c) XOR drop_bit 8 l)"

text \<open>\<^verbatim>\<open>while (p != x) STEP1;\<close> over the bytes up to \<^verbatim>\<open>x\<close>.\<close>

definition step_bytes :: "u64 \<Rightarrow> slice \<Rightarrow> u64" where
  "step_bytes l p = foldl STEP1 l p"

definition ALIGN :: "nat \<Rightarrow> nat \<Rightarrow> nat" where
  "ALIGN n m = (n + (2 ^ m - 1)) div 2 ^ m * 2 ^ m"

function crc_16_at_a_time :: "u64 \<Rightarrow> slice \<Rightarrow> u64 \<times> slice" where
  "crc_16_at_a_time l p =
     (if length p \<ge> 16
      then (case DefaultCRC32 l p of (l1, p1) \<Rightarrow>
             case DefaultCRC32 l1 p1 of (l2, p2) \<Rightarrow> crc_16_at_a_time l2 p2)
      else (l, p))"
  by pat_completeness auto
termination
  by (relation "measure (\<lambda>(l, p). length p)") (auto simp: DefaultCRC32_def Let_def)

function crc_8_at_a_time :: "u64 \<Rightarrow> slice \<Rightarrow> u64 \<times> slice" where
  "crc_8_at_a_time l p =
     (if length p \<ge> 8 then (case DefaultCRC32 l p of (l1, p1) \<Rightarrow> crc_8_at_a_time l1 p1) else (l, p))"
  by pat_completeness auto
termination
  by (relation "measure (\<lambda>(l, p). length p)") (auto simp: DefaultCRC32_def Let_def)

declare crc_16_at_a_time.simps [simp del] crc_8_at_a_time.simps [simp del]

text \<open>\<open>pval\<close> is the address of the buffer: it decides how many bytes are stepped one at a time.\<close>

definition ExtendImpl :: "nat \<Rightarrow> u32 \<Rightarrow> slice \<Rightarrow> u32" where
  "ExtendImpl pval crc buf =
     (let l = ucast (crc XOR 0xffffffff) :: u64;
          x = ALIGN pval 4 - pval;
          (l, p) = (if x \<le> length buf then (step_bytes l (take x buf), drop x buf) else (l, buf));
          (l, p) = crc_16_at_a_time l p;
          (l, p) = crc_8_at_a_time l p;
          l = step_bytes l p
      in ucast (l XOR 0xffffffff))"

text \<open>
  The result does not depend on the address (\<open>ExtendImpl_eq\<close> below), so the callers' model takes
  an aligned buffer.
\<close>

definition Extend :: "u32 \<Rightarrow> slice \<Rightarrow> u32" where
  "Extend crc buf = ExtendImpl 0 crc buf"

definition Value :: "slice \<Rightarrow> u32" where
  "Value data = Extend 0 data"

definition kMaskDelta :: u32 where
  "kMaskDelta = 0xa282ead8"

definition Mask :: "u32 \<Rightarrow> u32" where
  "Mask crc = (drop_bit 15 crc OR push_bit 17 crc) + kMaskDelta"

definition Unmask :: "u32 \<Rightarrow> u32" where
  "Unmask masked_crc =
     (let rot = masked_crc - kMaskDelta in drop_bit 17 rot OR push_bit 15 rot)"

section \<open>Combining two checksums\<close>

function gf_multiply_sw_1 :: "nat \<Rightarrow> u32 \<Rightarrow> u32 \<Rightarrow> u32 \<Rightarrow> u32 \<Rightarrow> u32" where
  "gf_multiply_sw_1 i p a b m =
     (if i \<ge> 32 then p
      else gf_multiply_sw_1 (i + 1)
        (p XOR ((0 - (drop_bit 31 b AND 1)) AND a))
        (drop_bit 1 a XOR ((0 - (a AND 1)) AND m))
        (push_bit 1 b) m)"
  by pat_completeness auto
termination
  by (relation "measure (\<lambda>(i, p, a, b, m). 32 - i)") auto

declare gf_multiply_sw_1.simps [simp del]

definition gf_multiply_sw :: "u32 \<Rightarrow> u32 \<Rightarrow> u32 \<Rightarrow> u32" where
  "gf_multiply_sw a b m = gf_multiply_sw_1 0 0 a b m"

definition gf_square_sw :: "u32 \<Rightarrow> u32 \<Rightarrow> u32" where
  "gf_square_sw a m = gf_multiply_sw a a m"

fun gf_powers_memo :: "nat \<Rightarrow> u32 \<Rightarrow> u32" where
  "gf_powers_memo 0 m = m"
| "gf_powers_memo (Suc i) m = gf_square_sw (gf_powers_memo i m) m"

definition crc32c_m :: u32 where
  "crc32c_m = 0x82f63b78"

definition crc32c_powers :: "u32 list" where
  "crc32c_powers = map (\<lambda>i. gf_powers_memo i crc32c_m) [0..<62]"

text \<open>The builtin is undefined at 0; the loop below never calls it there.\<close>

fun CountTrailingZeroBits :: "nat \<Rightarrow> nat" where
  "CountTrailingZeroBits v = (if v = 0 \<or> odd v then 0 else Suc (CountTrailingZeroBits (v div 2)))"

declare CountTrailingZeroBits.simps [simp del]

text \<open>
  \<open>powers\<close> is the index the pointer has advanced to; reading past the 62 entries is \<^const>\<open>None\<close>.
\<close>

lemma drop_bit_less_nat: "0 < n \<Longrightarrow> drop_bit 1 (drop_bit r n) < (n :: nat)"
proof -
  assume "0 < n"
  have "drop_bit r n \<le> n" by (simp add: drop_bit_eq_div)
  with \<open>0 < n\<close> have "drop_bit r n div 2 < n" by linarith
  then show ?thesis by (simp only: drop_bit_eq_div [of 1] power_one_right)
qed

function append_zeroes_loop :: "nat \<Rightarrow> nat \<Rightarrow> u32 \<Rightarrow> u32 \<Rightarrow> u32 list \<Rightarrow> u32 option" where
  "append_zeroes_loop powers len_bits crc polynomial powers_array =
     (if len_bits = 0 then Some crc
      else
        (let r = CountTrailingZeroBits len_bits;
             len_bits' = drop_bit r len_bits;
             powers' = powers + r
         in if powers' < length powers_array
            then append_zeroes_loop (powers' + 1) (drop_bit 1 len_bits')
                   (gf_multiply_sw crc (powers_array ! powers') polynomial) polynomial powers_array
            else None))"
  by pat_completeness auto
termination
  by (relation "measure (\<lambda>(powers, len_bits, crc, polynomial, powers_array). len_bits)")
    (simp_all only: in_measure split_conv drop_bit_less_nat neq0_conv wf_measure)

declare append_zeroes_loop.simps [simp del]

definition Crc32AppendZeroes :: "u32 \<Rightarrow> nat \<Rightarrow> u32 \<Rightarrow> u32 list \<Rightarrow> u32 option" where
  "Crc32AppendZeroes crc len_over_4 polynomial powers_array =
     append_zeroes_loop 0 len_over_4 crc polynomial powers_array"

definition InvertedToPure :: "u32 \<Rightarrow> u32" where
  "InvertedToPure crc = NOT crc"

definition PureToInverted :: "u32 \<Rightarrow> u32" where
  "PureToInverted crc = NOT crc"

definition PureExtend :: "u32 \<Rightarrow> slice \<Rightarrow> u32" where
  "PureExtend crc buf = InvertedToPure (Extend (PureToInverted crc) buf)"

text \<open>\<open>crc2len\<close> is a \<^verbatim>\<open>size_t\<close>: below \<open>2 ^ 64\<close>.\<close>

definition Crc32cCombine :: "u32 \<Rightarrow> u32 \<Rightarrow> nat \<Rightarrow> u32 option" where
  "Crc32cCombine crc1 crc2 crc2len =
     (let pure_crc1_with_init = InvertedToPure crc1;
          pure_crc2_with_init = InvertedToPure crc2;
          pure_crc2_init = - 1 :: u32;
          len = crc2len mod 4;
          tmp = pure_crc1_with_init XOR pure_crc2_init;
          tmp = (if len \<noteq> 0 then PureExtend tmp (replicate len 0) else tmp)
      in map_option (\<lambda>c. PureToInverted (c XOR pure_crc2_with_init))
           (Crc32AppendZeroes tmp (crc2len div 4) crc32c_m crc32c_powers))"

section \<open>The bit-serial reference\<close>

definition crc_bit :: "u32 \<Rightarrow> u32" where
  "crc_bit c = drop_bit 1 c XOR (if bit c 0 then crc32c_m else 0)"

definition crc_byte :: "u32 \<Rightarrow> byte \<Rightarrow> u32" where
  "crc_byte l b = (crc_bit ^^ 8) (l XOR ucast b)"

definition crc_bytes :: "u32 \<Rightarrow> slice \<Rightarrow> u32" where
  "crc_bytes l bs = foldl crc_byte l bs"

lemma crc_bytes_simps [simp]:
  "crc_bytes l [] = l" "crc_bytes l (b # bs) = crc_bytes (crc_byte l b) bs"
  "crc_bytes l (bs @ cs) = crc_bytes (crc_bytes l bs) cs"
  by (simp_all add: crc_bytes_def)

lemma crc_bit_xor: "crc_bit (a XOR b) = crc_bit a XOR crc_bit b"
  by (simp add: crc_bit_def drop_bit_xor bit_xor_iff ac_simps)

lemma crc_pow_xor: "(crc_bit ^^ n) (a XOR b) = (crc_bit ^^ n) a XOR (crc_bit ^^ n) b"
  by (induction n) (simp_all add: crc_bit_xor)

lemma crc_pow_0 [simp]: "(crc_bit ^^ n) 0 = 0"
  by (induction n) (simp_all add: crc_bit_def)

lemma crc_pow_add: "(crc_bit ^^ (m + n)) a = (crc_bit ^^ m) ((crc_bit ^^ n) a)"
  by (simp add: funpow_add)

text \<open>Zero low bits are shifted out without touching the polynomial.\<close>

lemma crc_pow_low_zero: "(\<And>i. i < n \<Longrightarrow> \<not> bit x i) \<Longrightarrow> (crc_bit ^^ n) x = drop_bit n x"
proof (induction n arbitrary: x)
  case (Suc n)
  have "crc_bit x = drop_bit 1 x" using Suc.prems [of 0] by (simp add: crc_bit_def)
  moreover have "(crc_bit ^^ n) (drop_bit 1 x) = drop_bit n (drop_bit 1 x)"
    by (rule Suc.IH) (use Suc.prems in \<open>auto simp: bit_simps\<close>)
  ultimately show ?case by (simp only: funpow_Suc_right comp_apply drop_bit_drop_bit) simp
qed simp

lemma crc_pow_push_bit:
  assumes "\<And>i. bit x i \<Longrightarrow> i + n < 32"
  shows "(crc_bit ^^ n) (push_bit n x) = x"
proof -
  have "(crc_bit ^^ n) (push_bit n x) = drop_bit n (push_bit n x)"
    by (rule crc_pow_low_zero) (simp add: bit_simps)
  also have "\<dots> = x"
    by (rule bit_word_eqI) (auto simp: bit_simps dest: assms)
  finally show ?thesis .
qed

section \<open>The tables\<close>

fun xor_table :: "u32 list \<Rightarrow> u32 list" where
  "xor_table [] = [0]"
| "xor_table (b # bs) = (let t = xor_table bs in t @ map (\<lambda>x. b XOR x) t)"

lemma length_xor_table: "length (xor_table bs) = 2 ^ length bs"
  by (induction bs) (simp_all add: Let_def)

lemma word_of_nat_exp_xor:
  "j < 2 ^ n \<Longrightarrow> word_of_nat (2 ^ n + j) = (2 ^ n XOR word_of_nat j :: 'a::len word)"
proof -
  assume j: "j < 2 ^ n"
  have "take_bit n j = j" using j by (simp add: take_bit_nat_eq_self)
  then have b: "bit j i \<Longrightarrow> i < n" for i by (metis bit_take_bit_iff)
  have "(2 ^ n + j) = 2 ^ n OR j"
    by (rule disjunctive_add_eq_or) (rule bit_eqI, use b in \<open>auto simp: bit_simps\<close>)
  then show ?thesis
    by (simp only:) (rule bit_eqI, use b in \<open>auto simp: bit_simps\<close>)
qed

lemma xor_table_linear:
  assumes lin: "\<And>a b. f (a XOR b) = f a XOR f b" and "f 0 = 0"
  shows "i < 2 ^ n \<Longrightarrow> xor_table (map (\<lambda>k. f (2 ^ k)) (rev [0..<n])) ! i = f (word_of_nat i)"
proof (induction n arbitrary: i)
  case 0
  then show ?case using assms(2) by simp
next
  case (Suc n)
  let ?t = "xor_table (map (\<lambda>k. f (2 ^ k)) (rev [0..<n]))"
  have len: "length ?t = 2 ^ n" by (simp add: length_xor_table)
  show ?case
  proof (cases "i < 2 ^ n")
    case True
    then show ?thesis using Suc.IH [OF True] len by (simp add: Let_def nth_append)
  next
    case False
    then obtain j where i: "i = 2 ^ n + j" by (metis le_add_diff_inverse not_less)
    with Suc.prems have j: "j < 2 ^ n" by simp
    have "xor_table (map (\<lambda>k. f (2 ^ k)) (rev [0..<Suc n])) ! i = f (2 ^ n) XOR ?t ! j"
      using j len by (simp add: Let_def nth_append i)
    also have "\<dots> = f (word_of_nat i)"
      unfolding i word_of_nat_exp_xor [OF j] lin Suc.IH [OF j] ..
    finally show ?thesis .
  qed
qed


definition orbit :: "u32 list" where
  "orbit =
    [0x1, 0x82f63b78, 0x417b1dbc, 0x20bd8ede, 0x105ec76f, 0x8ad958cf, 0xc79a971f, 0xe13b70f7,
     0xf26b8303, 0xfbc3faf9, 0xff17c604, 0x7f8be302, 0x3fc5f181, 0x9d14c3b8, 0x4e8a61dc, 0x274530ee,
     0x13a29877, 0x8b277743, 0xc76580d9, 0xe144fb14, 0x70a27d8a, 0x38513ec5, 0x9edea41a, 0x4f6f520d,
     0xa541927e, 0x52a0c93f, 0xaba65fe7, 0xd725148b, 0xe964b13d, 0xf64463e6, 0x7b2231f3, 0xbf672381,
     0xdd45aab8]"

lemma successively_funpow:
  "successively (\<lambda>x y. f x = y) xs \<Longrightarrow> i < length xs \<Longrightarrow> xs ! i = (f ^^ i) (hd xs)"
proof (induction i)
  case 0
  then show ?case by (cases xs) simp_all
next
  case (Suc i)
  from Suc.prems have "f (xs ! i) = xs ! Suc i" by (simp add: successively_conv_nth)
  with Suc.IH Suc.prems show ?case by simp
qed

lemma orbit_successively: "successively (\<lambda>x y. crc_bit x = y) orbit"
  by (simp add: orbit_def crc_bit_def crc32c_m_def)

lemma orbit_nth: "i < 33 \<Longrightarrow> orbit ! i = (crc_bit ^^ i) 1"
  using successively_funpow [OF orbit_successively, of i] by (simp add: orbit_def)

lemma crc_pow_exp: "k \<le> m \<Longrightarrow> k < 32 \<Longrightarrow> (crc_bit ^^ m) (2 ^ k) = (crc_bit ^^ (m - k)) 1"
proof -
  assume "k \<le> m" "k < 32"
  have "(crc_bit ^^ k) (push_bit k 1) = 1"
    by (rule crc_pow_push_bit) (use \<open>k < 32\<close> in \<open>auto simp: bit_1_iff\<close>)
  then show ?thesis
    using crc_pow_add [of "m - k" k "2 ^ k"] \<open>k \<le> m\<close> by (simp add: push_bit_eq_mult)
qed

lemma table_basis:
  "8 \<le> m \<Longrightarrow> m \<le> 32 \<Longrightarrow>
   map (\<lambda>k. (crc_bit ^^ m) (2 ^ k)) (rev [0..<8]) = take 8 (drop (m - 7) orbit)"
  by (rule nth_equalityI) (auto simp: crc_pow_exp orbit_nth rev_nth orbit_def [THEN arg_cong, of length, simplified])

lemma table_gen:
  "table0 = xor_table (take 8 (drop 1 orbit))" "table1 = xor_table (take 8 (drop 9 orbit))"
  "table2 = xor_table (take 8 (drop 17 orbit))" "table3 = xor_table (take 8 (drop 25 orbit))"
  by (simp_all add: table0_def table1_def table2_def table3_def orbit_def)

lemma table_nth:
  assumes "i < 256"
  shows "table0 ! i = (crc_bit ^^ 8) (word_of_nat i)" "table1 ! i = (crc_bit ^^ 16) (word_of_nat i)"
    "table2 ! i = (crc_bit ^^ 24) (word_of_nat i)" "table3 ! i = (crc_bit ^^ 32) (word_of_nat i)"
proof -
  have "xor_table (take 8 (drop (m - 7) orbit)) ! i = (crc_bit ^^ m) (word_of_nat i)"
    if "8 \<le> m" "m \<le> 32" for m
    unfolding table_basis [OF that, symmetric]
    by (rule xor_table_linear) (use assms in \<open>simp_all add: crc_pow_xor\<close>)
  from this [of 8] this [of 16] this [of 24] this [of 32]
  show "table0 ! i = (crc_bit ^^ 8) (word_of_nat i)" "table1 ! i = (crc_bit ^^ 16) (word_of_nat i)"
    "table2 ! i = (crc_bit ^^ 24) (word_of_nat i)" "table3 ! i = (crc_bit ^^ 32) (word_of_nat i)"
    by (simp_all add: table_gen)
qed

section \<open>The optimised routine computes the reference\<close>

lemma low_byte_split: "x = (x AND 0xff) XOR push_bit 8 (drop_bit 8 (x :: u32))"
proof (rule bit_word_eqI)
  fix n assume n: "n < LENGTH(32)"
  show "bit x n = bit ((x AND 0xff) XOR push_bit 8 (drop_bit 8 x)) n"
    using n by (cases "n < 8") (auto simp: bit_and_iff bit_xor_iff bit_push_bit_iff bit_drop_bit_eq bit_masks)
qed

lemma and_ff_less: "unat (x AND 0xff :: u32) < 256"
proof -
  have "x AND 0xff \<le> (0xff :: u32)" by (rule word_and_le1)
  then have "unat (x AND 0xff :: u32) \<le> unat (0xff :: u32)" by (simp only: word_le_nat_alt)
  then show ?thesis by simp
qed

lemma crc_byte_table: "crc_byte l b = table0 ! unat ((l AND 0xff) XOR ucast b) XOR drop_bit 8 l"
proof -
  let ?x = "l XOR ucast b"
  have e: "(l AND 0xff) XOR ucast b = ?x AND 0xff"
    by (rule bit_eqI) (auto simp: bit_simps bit_masks dest: bit_imp_le_length)
  have d: "drop_bit 8 ?x = drop_bit 8 l"
    by (rule bit_eqI) (auto simp: bit_simps)
  have "crc_byte l b = (crc_bit ^^ 8) (?x AND 0xff) XOR (crc_bit ^^ 8) (push_bit 8 (drop_bit 8 ?x))"
    unfolding crc_byte_def by (subst low_byte_split, subst crc_pow_xor) rule
  also have "(crc_bit ^^ 8) (push_bit 8 (drop_bit 8 ?x)) = drop_bit 8 ?x"
    by (rule crc_pow_push_bit) (auto simp: bit_simps dest: bit_imp_le_length)
  also have "(crc_bit ^^ 8) (?x AND 0xff) = table0 ! unat (?x AND 0xff)"
    using table_nth(1) [OF and_ff_less [of ?x]] by simp
  finally show ?thesis unfolding e d .
qed

lemma ucast_ucast_32 [simp]: "(ucast (ucast (x :: u32) :: u64) :: u32) = x"
  by (rule bit_eqI) (auto simp: bit_simps)

lemma STEP1_ucast: "STEP1 (ucast l) b = ucast (crc_byte l b)"
proof -
  have "((ucast l :: u64) AND 0xff) XOR ucast b = ucast ((l AND 0xff) XOR ucast b)"
    by (rule bit_eqI) (auto simp: bit_simps bit_masks)
  moreover have "unat (ucast ((l AND 0xff) XOR ucast b) :: u64) = unat ((l AND 0xff) XOR ucast b)"
    using unat_less_exp [of "(l AND 0xff) XOR ucast b"] by (simp add: unsigned_ucast_eq take_bit_nat_eq_self)
  moreover have "ucast (t XOR drop_bit 8 l) = (ucast t XOR drop_bit 8 (ucast l) :: u64)" for t :: u32
    by (rule bit_eqI) (auto simp: bit_simps dest: bit_imp_le_length)
  ultimately show ?thesis by (simp add: crc_byte_table Let_def)
qed

lemma step_bytes_ucast: "step_bytes (ucast l) p = ucast (crc_bytes l p)"
  by (induction p arbitrary: l) (simp_all add: step_bytes_def crc_bytes_def STEP1_ucast del: STEP1.simps)

text \<open>Up to four bytes at once: the register takes them as one little-endian word.\<close>

lemma crc_bytes_le_word:
  "length bs \<le> 4 \<Longrightarrow> crc_bytes l bs = (crc_bit ^^ (8 * length bs)) (l XOR le_word bs)"
proof (induction bs arbitrary: l)
  case (Cons b bs)
  let ?w = "le_word bs :: u32"
  have w: "bit ?w i \<Longrightarrow> i + 8 < 32" for i
    using Cons.prems by (auto simp: bit_le_word)
  have "ucast b OR push_bit 8 ?w = ucast b XOR push_bit 8 ?w"
    by (rule bit_eqI) (auto simp: bit_simps)
  then have "(crc_bit ^^ 8) (l XOR le_word (b # bs)) = crc_byte l b XOR ?w"
    by (simp add: crc_byte_def crc_pow_xor crc_pow_push_bit [OF w] xor.assoc [symmetric])
  moreover have "(crc_bit ^^ (8 * length (b # bs))) x = (crc_bit ^^ (8 * length bs)) ((crc_bit ^^ 8) x)" for x
    by (simp add: crc_pow_add [symmetric] add.commute)
  ultimately show ?case using Cons by simp
qed simp

lemma crc_pow_32_bytes:
  "(crc_bit ^^ 32) c = (crc_bit ^^ 32) (c AND 0xff) XOR (crc_bit ^^ 24) (drop_bit 8 c AND 0xff) XOR
     (crc_bit ^^ 16) (drop_bit 16 c AND 0xff) XOR (crc_bit ^^ 8) (drop_bit 24 c)"
proof -
  have p: "(crc_bit ^^ 32) (push_bit n x) = (crc_bit ^^ (32 - n)) x"
    if "n \<le> 32" "\<And>i. bit x i \<Longrightarrow> i + n < 32" for n x
    using crc_pow_add [of "32 - n" n "push_bit n x"] crc_pow_push_bit [OF that(2)] that(1) by simp
  have s: "drop_bit 8 c = (drop_bit 8 c AND 0xff) XOR push_bit 8 (drop_bit 16 c)"
    "drop_bit 16 c = (drop_bit 16 c AND 0xff) XOR push_bit 8 (drop_bit 24 c)"
    using low_byte_split [of "drop_bit 8 c"] low_byte_split [of "drop_bit 16 c"]
    by (simp_all add: drop_bit_drop_bit)
  have "c = (c AND 0xff) XOR push_bit 8 (drop_bit 8 c)" by (rule low_byte_split)
  also have "push_bit 8 (drop_bit 8 c) = push_bit 8 (drop_bit 8 c AND 0xff) XOR push_bit 16 (drop_bit 16 c)"
    by (subst s(1)) (simp only: push_bit_xor push_bit_push_bit, simp)
  also have "push_bit 16 (drop_bit 16 c) = push_bit 16 (drop_bit 16 c AND 0xff) XOR push_bit 24 (drop_bit 24 c)"
    by (subst s(2)) (simp only: push_bit_xor push_bit_push_bit, simp)
  finally have c: "c = (c AND 0xff) XOR (push_bit 8 (drop_bit 8 c AND 0xff) XOR
      (push_bit 16 (drop_bit 16 c AND 0xff) XOR push_bit 24 (drop_bit 24 c)))" (is "c = ?r") .
  have "(crc_bit ^^ 32) (push_bit 8 (drop_bit 8 c AND 0xff)) = (crc_bit ^^ 24) (drop_bit 8 c AND 0xff)"
    using p [of 8 "drop_bit 8 c AND 0xff"] by (auto simp: bit_simps bit_masks)
  moreover have "(crc_bit ^^ 32) (push_bit 16 (drop_bit 16 c AND 0xff)) = (crc_bit ^^ 16) (drop_bit 16 c AND 0xff)"
    using p [of 16 "drop_bit 16 c AND 0xff"] by (auto simp: bit_simps bit_masks)
  moreover have "(crc_bit ^^ 32) (push_bit 24 (drop_bit 24 c)) = (crc_bit ^^ 8) (drop_bit 24 c)"
  proof -
    have "bit (drop_bit 24 c) i \<Longrightarrow> i + 24 < 32" for i
      using bit_imp_le_length [of c "24 + i"] by (simp add: bit_drop_bit_eq)
    from p [OF _ this] show ?thesis by simp
  qed
  moreover have "(crc_bit ^^ 32) c = (crc_bit ^^ 32) ?r" by (subst c) rule
  ultimately show ?thesis by (simp only: crc_pow_xor xor.assoc)
qed

lemma unat_drop_24: "unat (drop_bit 24 (c :: u32)) < 256"
  using unat_less_exp [of c] by (simp add: unat_drop_bit_div less_mult_imp_div_less)

lemma crc_word_ucast:
  assumes "4 \<le> length p"
  shows "crc_word (ucast l) p = ucast (crc_bytes l (take 4 p))"
proof -
  have c: "ucast ((ucast l :: u64) XOR ucast (LE_LOAD32 p)) = l XOR LE_LOAD32 p"
    by (rule bit_eqI) (auto simp: bit_simps)
  have "crc_bytes l (take 4 p) = (crc_bit ^^ 32) (l XOR LE_LOAD32 p)"
    using crc_bytes_le_word [of "take 4 p" l] assms by (simp add: LE_LOAD32_def DecodeFixed32_def)
  then show ?thesis
    unfolding crc_word_def Let_def c
    by (simp only: table_nth and_ff_less unat_drop_24 of_nat_unat ucast_id
        crc_pow_32_bytes [of "l XOR LE_LOAD32 p"])
qed

lemma DefaultCRC32_ucast:
  assumes "8 \<le> length p"
  shows "DefaultCRC32 (ucast l) p = (ucast (crc_bytes l (take 8 p)), drop 8 p)"
proof -
  have "take 8 p = take 4 p @ take 4 (drop 4 p)" by (metis add_numeral_special(3) numeral_Bit0 take_add)
  then have "crc_bytes l (take 8 p) = crc_bytes (crc_bytes l (take 4 p)) (take 4 (drop 4 p))"
    by (simp only: crc_bytes_simps)
  then show ?thesis using assms by (simp add: DefaultCRC32_def Let_def crc_word_ucast)
qed

lemma crc_16_at_a_time_ucast:
  "\<exists>l' p'. crc_16_at_a_time (ucast l) p = (ucast l', p') \<and> crc_bytes l' p' = crc_bytes l p"
proof (induction "length p" arbitrary: l p rule: less_induct)
  case less
  show ?case
  proof (cases "16 \<le> length p")
    case True
    let ?l = "crc_bytes (crc_bytes l (take 8 p)) (take 8 (drop 8 p))"
    have "crc_16_at_a_time (ucast l) p = crc_16_at_a_time (ucast ?l) (drop 16 p)"
      using True by (subst crc_16_at_a_time.simps) (simp add: DefaultCRC32_ucast)
    moreover have "crc_bytes ?l (drop 16 p) = crc_bytes l p"
    proof -
      have "take 8 p @ take 8 (drop 8 p) @ drop 8 (drop 8 p) = p" by (simp only: append_take_drop_id)
      then have "crc_bytes ?l (drop 8 (drop 8 p)) = crc_bytes l p" by (metis crc_bytes_simps(3))
      then show ?thesis by simp
    qed
    ultimately show ?thesis using less [of "drop 16 p" ?l] True by simp
  next
    case False
    then show ?thesis by (subst crc_16_at_a_time.simps) auto
  qed
qed

lemma crc_8_at_a_time_ucast:
  "\<exists>l' p'. crc_8_at_a_time (ucast l) p = (ucast l', p') \<and> crc_bytes l' p' = crc_bytes l p"
proof (induction "length p" arbitrary: l p rule: less_induct)
  case less
  show ?case
  proof (cases "8 \<le> length p")
    case True
    let ?l = "crc_bytes l (take 8 p)"
    have "crc_8_at_a_time (ucast l) p = crc_8_at_a_time (ucast ?l) (drop 8 p)"
      using True by (subst crc_8_at_a_time.simps) (simp add: DefaultCRC32_ucast)
    moreover have "crc_bytes ?l (drop 8 p) = crc_bytes l p"
      by (metis append_take_drop_id crc_bytes_simps(3))
    ultimately show ?thesis using less [of "drop 8 p" ?l] True by simp
  next
    case False
    then show ?thesis by (subst crc_8_at_a_time.simps) auto
  qed
qed

lemma ExtendImpl_eq: "ExtendImpl pval crc buf = NOT (crc_bytes (NOT crc) buf)"
proof -
  have n: "crc XOR 0xffffffff = NOT crc"
  proof -
    have "(0xffffffff :: u32) = - 1" by simp
    then show ?thesis by (simp only:) (rule bit_eqI, simp add: bit_simps)
  qed
  have u: "ucast ((ucast x :: u64) XOR 0xffffffff) = NOT x" for x :: u32
  proof -
    have "(4294967295 :: int) = mask 32" by (simp add: mask_eq_exp_minus_1)
    then have "bit (4294967295 :: int) n \<longleftrightarrow> n < 32" for n by (simp only: bit_mask_iff) simp
    then show ?thesis by (intro bit_eqI) (auto simp: bit_simps)
  qed
  let ?x = "ALIGN pval 4 - pval" and ?l = "ucast (NOT crc) :: u64"
  let ?s = "if ?x \<le> length buf then (step_bytes ?l (take ?x buf), drop ?x buf) else (?l, buf)"
  obtain l1 p1 where 1: "?s = (ucast l1, p1)" "crc_bytes l1 p1 = crc_bytes (NOT crc) buf"
  proof (cases "?x \<le> length buf")
    case True
    then show ?thesis
      by (intro that [of "crc_bytes (NOT crc) (take ?x buf)" "drop ?x buf"])
        (simp_all add: step_bytes_ucast flip: crc_bytes_simps(3))
  next
    case False
    then show ?thesis by (intro that [of "NOT crc" buf]) simp_all
  qed
  obtain l2 p2 where 2: "crc_16_at_a_time (ucast l1) p1 = (ucast l2, p2)"
      "crc_bytes l2 p2 = crc_bytes l1 p1"
    using crc_16_at_a_time_ucast by blast
  obtain l3 p3 where 3: "crc_8_at_a_time (ucast l2) p2 = (ucast l3, p3)"
      "crc_bytes l3 p3 = crc_bytes l2 p2"
    using crc_8_at_a_time_ucast by blast
  show ?thesis
    unfolding ExtendImpl_def Let_def n
    using 1 2 3 by (simp add: step_bytes_ucast u)
qed

section \<open>Multiplication in the field\<close>

text \<open>In the reflected representation \<open>crc_one\<close> is 1 and \<open>crc_bit\<close> multiplies by the indeterminate.\<close>

definition crc_one :: u32 where
  "crc_one = 0x80000000"

primrec xsum :: "(nat \<Rightarrow> u32) \<Rightarrow> nat \<Rightarrow> u32" where
  "xsum f 0 = 0"
| "xsum f (Suc n) = xsum f n XOR f n"

lemma xsum_shift: "xsum f (Suc n) = f 0 XOR xsum (\<lambda>j. f (Suc j)) n"
  by (induction n) (simp_all add: xor.assoc)

lemma xsum_cong: "(\<And>j. j < n \<Longrightarrow> f j = g j) \<Longrightarrow> xsum f n = xsum g n"
  by (induction n) simp_all

lemma crc_pow_xsum: "(crc_bit ^^ k) (xsum f n) = xsum (\<lambda>j. (crc_bit ^^ k) (f j)) n"
  by (induction n) (simp_all add: crc_pow_xor)

definition gf_mul :: "u32 \<Rightarrow> u32 \<Rightarrow> u32" where
  "gf_mul a b = xsum (\<lambda>j. if bit b (31 - j) then (crc_bit ^^ j) a else 0) 32"

lemma minus_bit_and: "(0 - (w AND 1)) AND (a :: u32) = (if bit w 0 then a else 0)" for w :: u32
  by (simp add: and_one_eq bit_0 odd_iff_mod_2_eq_one)

lemma gf_multiply_sw_1_eq:
  "i \<le> 32 \<Longrightarrow> gf_multiply_sw_1 i p a b crc32c_m =
     p XOR xsum (\<lambda>j. if bit b (31 - j) then (crc_bit ^^ j) a else 0) (32 - i)"
proof (induction "32 - i" arbitrary: i p a b)
  case 0
  then show ?case by (subst gf_multiply_sw_1.simps) simp
next
  case (Suc n)
  let ?a = "crc_bit a" and ?b = "push_bit 1 b"
  have step: "gf_multiply_sw_1 i p a b crc32c_m =
      gf_multiply_sw_1 (i + 1) (p XOR (if bit b 31 then a else 0)) ?a ?b crc32c_m"
  proof -
    have "\<not> 32 \<le> i" using Suc(2) by simp
    then show ?thesis
      by (subst gf_multiply_sw_1.simps) (simp only: if_False minus_bit_and bit_drop_bit_eq crc_bit_def, simp)
  qed
  have e: "(if bit ?b (31 - j) then (crc_bit ^^ j) ?a else 0) =
      (if bit b (31 - Suc j) then (crc_bit ^^ Suc j) a else 0)" if "j < n" for j
  proof -
    have "31 - j = Suc (30 - j)" "31 - Suc j = 30 - j" "30 - j < 31" using that Suc(2) by auto
    then show ?thesis by (simp only: bit_push_bit_iff) (simp add: funpow_swap1)
  qed
  have "n = 32 - (i + 1)" "i + 1 \<le> 32" using Suc(2) by auto
  note IH = Suc.hyps(1) [OF this, folded \<open>n = 32 - (i + 1)\<close>]
  have "gf_multiply_sw_1 i p a b crc32c_m = p XOR ((if bit b 31 then a else 0) XOR
      xsum (\<lambda>j. if bit b (31 - Suc j) then (crc_bit ^^ Suc j) a else 0) n)"
    unfolding step IH xor.assoc by (simp only: xsum_cong [of n, OF e])
  then show ?case using Suc(2) by (simp only: xsum_shift flip: Suc(2)) simp
qed

lemma gf_multiply_sw_eq: "gf_multiply_sw a b crc32c_m = gf_mul a b"
  by (simp add: gf_multiply_sw_def gf_multiply_sw_1_eq gf_mul_def)

text \<open>A register is the sum of the powers of the indeterminate its bits select.\<close>

lemma crc_pow_one: "j < 32 \<Longrightarrow> (crc_bit ^^ j) crc_one = 2 ^ (31 - j)"
proof -
  assume j: "j < 32"
  have e: "crc_one = push_bit j (2 ^ (31 - j))"
    using j by (simp add: crc_one_def push_bit_eq_mult flip: power_add)
  show ?thesis
    unfolding e by (rule crc_pow_push_bit) (use j in \<open>auto simp: bit_exp_iff\<close>)
qed

lemma bit_xsum_powers:
  "n \<le> 32 \<Longrightarrow> k < 32 \<Longrightarrow>
   bit (xsum (\<lambda>j. if bit b (31 - j) then 2 ^ (31 - j) else 0) n) k \<longleftrightarrow> 31 - k < n \<and> bit b k"
proof (induction n)
  case (Suc n)
  have "bit (2 ^ (31 - n) :: u32) k \<longleftrightarrow> k = 31 - n" using Suc.prems by (auto simp: bit_exp_iff)
  moreover have "31 - k < Suc n \<longleftrightarrow> 31 - k < n \<or> k = 31 - n" using Suc.prems by auto
  ultimately show ?case using Suc by (auto simp: bit_xor_iff)
qed simp

lemma xsum_powers: "xsum (\<lambda>j. if bit b (31 - j) then (crc_bit ^^ j) crc_one else 0) 32 = b"
proof -
  have "xsum (\<lambda>j. if bit b (31 - j) then (crc_bit ^^ j) crc_one else 0) 32 =
      xsum (\<lambda>j. if bit b (31 - j) then 2 ^ (31 - j) else 0) 32"
    by (rule xsum_cong) (simp add: crc_pow_one)
  also have "\<dots> = b" by (rule bit_word_eqI) (auto simp: bit_xsum_powers)
  finally show ?thesis .
qed

lemma gf_mul_one: "gf_mul crc_one b = b"
  by (simp add: gf_mul_def xsum_powers)

lemma xsum_xor: "xsum (\<lambda>j. f j XOR g j) n = xsum f n XOR xsum g n"
  by (induction n) (simp_all add: ac_simps)

lemma gf_mul_xor_left: "gf_mul (a XOR b) c = gf_mul a c XOR gf_mul b c"
  unfolding gf_mul_def xsum_xor [symmetric] by (rule xsum_cong) (simp add: crc_pow_xor)

lemma gf_mul_xor_right: "gf_mul a (b XOR c) = gf_mul a b XOR gf_mul a c"
  unfolding gf_mul_def xsum_xor [symmetric] by (rule xsum_cong) (auto simp: bit_xor_iff)

lemma gf_mul_crc_pow_left: "gf_mul ((crc_bit ^^ k) a) b = (crc_bit ^^ k) (gf_mul a b)"
  unfolding gf_mul_def crc_pow_xsum
  by (rule xsum_cong) (simp add: crc_pow_add [symmetric] add.commute)

lemma gf_mul_0_left [simp]: "gf_mul 0 b = 0"
  using gf_mul_xor_left [of 0 0 b] by simp

lemma gf_mul_xsum_left: "gf_mul (xsum f n) b = xsum (\<lambda>j. gf_mul (f j) b) n"
  by (induction n) (simp_all add: gf_mul_xor_left)

text \<open>Multiplying by the image of 1 under \<open>k\<close> shifts is shifting \<open>k\<close> times.\<close>

lemma gf_mul_crc_pow_one: "gf_mul a ((crc_bit ^^ k) crc_one) = (crc_bit ^^ k) a"
proof -
  have one: "gf_mul ((crc_bit ^^ j) crc_one) ((crc_bit ^^ k) crc_one) =
      (crc_bit ^^ k) ((crc_bit ^^ j) crc_one)" for j
    by (simp add: gf_mul_crc_pow_left gf_mul_one crc_pow_add [symmetric] add.commute)
  have "gf_mul a ((crc_bit ^^ k) crc_one) =
      xsum (\<lambda>j. gf_mul (if bit a (31 - j) then (crc_bit ^^ j) crc_one else 0) ((crc_bit ^^ k) crc_one)) 32"
    by (subst (1) xsum_powers [of a, symmetric]) (rule gf_mul_xsum_left)
  also have "\<dots> = xsum (\<lambda>j. (crc_bit ^^ k) (if bit a (31 - j) then (crc_bit ^^ j) crc_one else 0)) 32"
    by (rule xsum_cong) (simp add: one)
  also have "\<dots> = (crc_bit ^^ k) a" by (simp only: crc_pow_xsum [symmetric] xsum_powers)
  finally show ?thesis .
qed

lemma crc32c_m_pow: "crc32c_m = (crc_bit ^^ 32) crc_one"
proof -
  have "(crc_bit ^^ 32) crc_one = crc_bit ((crc_bit ^^ 31) crc_one)"
    by (simp flip: funpow.simps(2) [THEN fun_cong, unfolded comp_apply])
  also have "\<dots> = crc_bit 1" by (simp add: crc_pow_one)
  finally show ?thesis by (simp add: crc_bit_def)
qed

lemma gf_powers_memo_eq: "gf_powers_memo i crc32c_m = (crc_bit ^^ (32 * 2 ^ i)) crc_one"
proof (induction i)
  case 0
  then show ?case by (simp add: crc32c_m_pow)
next
  case (Suc i)
  have "32 * 2 ^ Suc i = 32 * 2 ^ i + (32 * 2 ^ i :: nat)" by simp
  then show ?case
    by (simp only: gf_powers_memo.simps gf_square_sw_def gf_multiply_sw_eq Suc gf_mul_crc_pow_one crc_pow_add)
qed

section \<open>Combining\<close>

lemma CountTrailingZeroBits_odd: "0 < n \<Longrightarrow> odd (drop_bit (CountTrailingZeroBits n) n)"
proof (induction n rule: CountTrailingZeroBits.induct)
  case (1 n)
  then show ?case
    by (cases "odd n") (auto simp: CountTrailingZeroBits.simps [of n] drop_bit_Suc elim!: evenE)
qed

lemma CountTrailingZeroBits_mult: "2 ^ CountTrailingZeroBits n * drop_bit (CountTrailingZeroBits n) n = n"
proof (induction n rule: CountTrailingZeroBits.induct)
  case (1 n)
  then show ?case
    by (cases "n = 0 \<or> odd n") (auto simp: CountTrailingZeroBits.simps [of n] drop_bit_Suc mult.assoc)
qed

text \<open>
  The table has 62 entries, enough for any number of four-byte words in a 64-bit length: the
  pointer never leaves it.
\<close>

lemma append_zeroes_loop_eq:
  "n < 2 ^ (62 - i) \<Longrightarrow> i \<le> 62 \<Longrightarrow>
   append_zeroes_loop i n crc crc32c_m crc32c_powers = Some ((crc_bit ^^ (32 * 2 ^ i * n)) crc)"
proof (induction n arbitrary: i crc rule: less_induct)
  case (less n)
  show ?case
  proof (cases "n = 0")
    case True
    then show ?thesis by (subst append_zeroes_loop.simps) simp
  next
    case False
    let ?r = "CountTrailingZeroBits n"
    let ?m = "drop_bit ?r n"
    let ?c = "gf_multiply_sw crc (crc32c_powers ! (i + ?r)) crc32c_m"
    have n: "n = 2 ^ ?r * ?m" by (rule CountTrailingZeroBits_mult [symmetric])
    have "odd ?m" using False by (simp add: CountTrailingZeroBits_odd)
    moreover have "drop_bit 1 ?m = ?m div 2" by (simp only: drop_bit_eq_div [of 1] power_one_right)
    ultimately have m: "?m = 2 * drop_bit 1 ?m + 1" by simp
    have "2 ^ ?r * 1 \<le> 2 ^ ?r * ?m" by (rule mult_le_mono2) (use m in linarith)
    then have "(2::nat) ^ ?r \<le> n" using n by linarith
    then have "(2::nat) ^ ?r < 2 ^ (62 - i)" using less.prems(1) by linarith
    then have "?r < 62 - i" by (rule power_less_imp_less_exp [rotated]) simp
    then have r: "i + ?r < 62" by simp
    have c: "?c = (crc_bit ^^ (32 * 2 ^ (i + ?r))) crc"
      using r by (simp add: crc32c_powers_def gf_powers_memo_eq gf_multiply_sw_eq gf_mul_crc_pow_one)
    have b: "drop_bit 1 ?m < 2 ^ (62 - (i + ?r + 1))"
    proof -
      have "62 - i = ?r + (62 - (i + ?r + 1)) + 1" using r by simp
      then have "(2::nat) ^ (62 - i) = 2 ^ ?r * (2 * 2 ^ (62 - (i + ?r + 1)))"
        by (simp only: power_add power_one_right)
      with less.prems(1) n have "2 ^ ?r * ?m < 2 ^ ?r * (2 * 2 ^ (62 - (i + ?r + 1)))" by linarith
      then have "?m < 2 * 2 ^ (62 - (i + ?r + 1))" by simp
      with m show ?thesis by linarith
    qed
    have "append_zeroes_loop i n crc crc32c_m crc32c_powers =
        append_zeroes_loop (i + ?r + 1) (drop_bit 1 ?m) ?c crc32c_m crc32c_powers"
      using False r by (subst append_zeroes_loop.simps) (simp add: Let_def crc32c_powers_def)
    also have "\<dots> = Some ((crc_bit ^^ (32 * 2 ^ (i + ?r + 1) * drop_bit 1 ?m)) ?c)"
      by (rule less.IH) (use False r b drop_bit_less_nat [of n ?r] in auto)
    also have "\<dots> = Some ((crc_bit ^^ (32 * 2 ^ i * n)) crc)"
    proof -
      have "32 * 2 ^ (i + ?r + 1) * drop_bit 1 ?m + 32 * 2 ^ (i + ?r) = 32 * 2 ^ i * n"
      proof -
        have "32 * 2 ^ i * n = 32 * 2 ^ (i + ?r) * ?m" by (subst n) (simp add: power_add)
        also have "\<dots> = 32 * 2 ^ (i + ?r) * (2 * drop_bit 1 ?m + 1)" by (rule arg_cong [where f = "\<lambda>x. _ * x", OF m])
        finally show ?thesis by (simp add: algebra_simps)
      qed
      then show ?thesis unfolding c by (simp only: crc_pow_add [symmetric])
    qed
    finally show ?thesis .
  qed
qed

lemma crc_bytes_zeroes: "crc_bytes c (replicate n 0) = (crc_bit ^^ (8 * n)) c"
proof (induction n arbitrary: c)
  case (Suc n)
  then show ?case by (simp add: crc_byte_def crc_pow_add [symmetric] add.commute)
qed simp

lemma crc_bytes_xor: "crc_bytes (a XOR b) bs = (crc_bit ^^ (8 * length bs)) a XOR crc_bytes b bs"
proof (induction bs arbitrary: a b)
  case (Cons x bs)
  have "crc_byte (a XOR b) x = (crc_bit ^^ 8) a XOR crc_byte b x"
    by (simp add: crc_byte_def crc_pow_xor xor.assoc)
  then show ?case by (simp add: Cons crc_pow_add [symmetric] add.commute)
qed simp

lemma Crc32cCombine_eq:
  assumes "length buf < 2 ^ 64"
  shows "Crc32cCombine crc (Value buf) (length buf) = Some (Extend crc buf)"
proof -
  let ?n = "length buf" and ?T = "\<lambda>k. crc_bit ^^ k"
  have x: "NOT crc = crc XOR NOT 0" "NOT crc XOR - 1 = crc"
    by (rule bit_eqI, simp add: bit_simps)+
  have ext: "Extend c bs = NOT (crc_bytes (NOT c) bs)" for c bs
    by (simp add: Extend_def ExtendImpl_eq)
  let ?tmp = "if ?n mod 4 \<noteq> 0 then PureExtend (NOT crc XOR - 1) (replicate (?n mod 4) 0) else NOT crc XOR - 1"
  have tmp: "?tmp = ?T (8 * (?n mod 4)) crc"
    by (simp add: PureExtend_def InvertedToPure_def PureToInverted_def ext crc_bytes_zeroes x(2))
  have "?n div 4 < 2 ^ 62" using assms by (simp add: less_mult_imp_div_less)
  then have "Crc32AppendZeroes ?tmp (?n div 4) crc32c_m crc32c_powers = Some (?T (32 * (?n div 4)) ?tmp)"
    using append_zeroes_loop_eq [of "?n div 4" 0] by (simp add: Crc32AppendZeroes_def)
  also have "?T (32 * (?n div 4)) ?tmp = ?T (8 * ?n) crc"
  proof -
    have "32 * (?n div 4) + 8 * (?n mod 4) = 8 * ?n" using div_mult_mod_eq [of ?n 4] by linarith
    then show ?thesis unfolding tmp by (simp only: crc_pow_add [symmetric])
  qed
  finally have "Crc32cCombine crc (Value buf) ?n = Some (NOT (?T (8 * ?n) crc XOR NOT (Value buf)))"
    by (simp add: Crc32cCombine_def Let_def InvertedToPure_def PureToInverted_def)
  also have "NOT (?T (8 * ?n) crc XOR NOT (Value buf)) = Extend crc buf"
    unfolding ext Value_def x(1) crc_bytes_xor by simp
  finally show ?thesis .
qed

lemma Extend_eq: "Extend crc buf = NOT (crc_bytes (NOT crc) buf)"
  by (simp add: Extend_def ExtendImpl_eq)

lemma Extend_append: "Extend crc (a @ b) = Extend (Extend crc a) b"
  by (simp add: Extend_eq)

lemma Value_append: "Value (a @ b) = Extend (Value a) b"
  by (simp add: Value_def Extend_append)

lemma Unmask_Mask [simp]: "Unmask (Mask crc) = crc"
proof -
  have "drop_bit 17 (drop_bit 15 crc OR push_bit 17 crc) OR
      push_bit 15 (drop_bit 15 crc OR push_bit 17 crc) = crc" (is "?l = crc")
  proof (rule bit_word_eqI)
    fix n assume "n < LENGTH(32)"
    then show "bit ?l n = bit crc n"
      by (cases "n < 15") (auto simp: bit_simps dest: bit_imp_le_length)
  qed
  then show ?thesis by (simp add: Mask_def Unmask_def Let_def)
qed

section \<open>Properties\<close>

text \<open>
  C2: on any buffer at any address, the sliced table-driven CRC of the portable build (bytewise up
  to the 16-byte boundary, then 16 and 8 bytes at a time, then the tail) is the bit-serial CRC-32C
  with all-ones initial register and inverted result; in particular the address is irrelevant and
  extending in two pieces is extending by the concatenation.
\<close>

theorem crc32c_extend_reference:
  "ExtendImpl pval crc buf = NOT (crc_bytes (NOT crc) buf) \<and>
   ExtendImpl pval crc (buf @ buf') = ExtendImpl pval' (ExtendImpl pval'' crc buf) buf'"
  by (simp add: ExtendImpl_eq)

text \<open>
  C3: combining two checksums by field multiplication gives the checksum of the concatenation for
  every length a \<^verbatim>\<open>size_t\<close> can hold, and the walk over the table of powers never leaves its 62
  entries (the result is always \<^const>\<open>Some\<close>).
\<close>

theorem crc32c_combine:
  assumes "length b < 2 ^ 64"
  shows "Crc32cCombine (Value a) (Value b) (length b) = Some (Value (a @ b))"
  using Crc32cCombine_eq [OF assms, of "Value a"] by (simp add: Value_append)

theorem crc32c_combine_witness:
  "Crc32cCombine (Value [1, 2]) (Value [3, 4, 5]) 3 = Some (Value [1, 2, 3, 4, 5])"
  using crc32c_combine [of "[3, 4, 5]" "[1, 2]"] by (simp add: numeral_3_eq_3)

end
