(* ===== verification/Comparator.thy ===== *)
theory Comparator
  imports Coding
begin

text \<open>
  Key comparison: \<^verbatim>\<open>Slice::compare\<close> of \<^verbatim>\<open>include/rocksdb/slice.h\<close> and the three built-in comparators of
  \<^verbatim>\<open>util/comparator.cc\<close> (bytewise, reverse bytewise, bytewise with a 64-bit timestamp suffix). The
  \<open>comparator\<close> interface states what every user of a comparator relies on, a total preorder on the
  keys it accepts; each built-in comparator is proved an instance.
\<close>

section \<open>Slices\<close>

text \<open>Only the sign of \<^verbatim>\<open>memcmp\<close> is specified; the model returns \<open>- 1\<close>, \<open>0\<close> or \<open>1\<close>.\<close>

fun memcmp :: "slice \<Rightarrow> slice \<Rightarrow> nat \<Rightarrow> int" where
  "memcmp (x # a) (y # b) (Suc n) = (if x < y then - 1 else if y < x then 1 else memcmp a b n)"
| "memcmp _ _ _ = 0"

definition Slice_equal :: "slice \<Rightarrow> slice \<Rightarrow> bool" where
  "Slice_equal x y \<longleftrightarrow> length x = length y \<and> memcmp x y (length x) = 0"

definition Slice_compare :: "slice \<Rightarrow> slice \<Rightarrow> int" where
  "Slice_compare a b =
     (let min_len = (if length a < length b then length a else length b);
          r = memcmp a b min_len
      in if r = 0 then
           (if length a < length b then - 1 else if length a > length b then 1 else r)
         else r)"

definition starts_with :: "slice \<Rightarrow> slice \<Rightarrow> bool" where
  "starts_with s x \<longleftrightarrow> length s \<ge> length x \<and> memcmp s x (length x) = 0"

definition ends_with :: "slice \<Rightarrow> slice \<Rightarrow> bool" where
  "ends_with s x \<longleftrightarrow>
     length s \<ge> length x \<and> memcmp (drop (length s - length x) s) x (length x) = 0"

function difference_loop :: "slice \<Rightarrow> slice \<Rightarrow> nat \<Rightarrow> nat \<Rightarrow> nat" where
  "difference_loop a b len off =
     (if off < len \<and> a ! off = b ! off then difference_loop a b len (off + 1) else off)"
  by pat_completeness auto
termination
  by (relation "measure (\<lambda>(a, b, len, off). len - off)") auto

declare difference_loop.simps [simp del]

definition difference_offset :: "slice \<Rightarrow> slice \<Rightarrow> nat" where
  "difference_offset a b =
     difference_loop a b (if length a < length b then length a else length b) 0"

section \<open>The bytewise comparator\<close>

definition Bytewise_Compare :: "slice \<Rightarrow> slice \<Rightarrow> int" where
  "Bytewise_Compare a b = Slice_compare a b"

text \<open>\<^verbatim>\<open>start_byte + 1\<close> is computed in \<^verbatim>\<open>int\<close>, so it does not wrap.\<close>

function increment_after :: "slice \<Rightarrow> nat \<Rightarrow> slice" where
  "increment_after start diff_index =
     (if diff_index < length start then
        (if start ! diff_index < 0xff
         then take (diff_index + 1) (start[diff_index := start ! diff_index + 1])
         else increment_after start (diff_index + 1))
      else start)"
  by pat_completeness auto
termination
  by (relation "measure (\<lambda>(start, i). length start - i)") auto

declare increment_after.simps [simp del]

definition Bytewise_FindShortestSeparator :: "slice \<Rightarrow> slice \<Rightarrow> slice" where
  "Bytewise_FindShortestSeparator start limit =
     (let min_length = min (length start) (length limit);
          diff_index = difference_loop start limit min_length 0
      in if diff_index \<ge> min_length then start
         else
           (let start_byte = start ! diff_index; limit_byte = limit ! diff_index in
            if start_byte \<ge> limit_byte then start
            else if diff_index < length limit - 1 \<or> unat start_byte + 1 < unat limit_byte
            then take (diff_index + 1) (start[diff_index := start_byte + 1])
            else increment_after start (diff_index + 1)))"

fun Bytewise_FindShortSuccessor_loop :: "slice \<Rightarrow> nat \<Rightarrow> nat \<Rightarrow> slice" where
  "Bytewise_FindShortSuccessor_loop key i 0 = key"
| "Bytewise_FindShortSuccessor_loop key i (Suc n) =
     (let b = key ! i in
      if b \<noteq> 0xff then take (i + 1) (key[i := b + 1])
      else Bytewise_FindShortSuccessor_loop key (i + 1) n)"

definition Bytewise_FindShortSuccessor :: "slice \<Rightarrow> slice" where
  "Bytewise_FindShortSuccessor key = Bytewise_FindShortSuccessor_loop key 0 (length key)"

definition Bytewise_IsSameLengthImmediateSuccessor :: "slice \<Rightarrow> slice \<Rightarrow> bool" where
  "Bytewise_IsSameLengthImmediateSuccessor s t \<longleftrightarrow>
     (if length s \<noteq> length t \<or> length s = 0 then False
      else
        (let diff_ind = difference_offset s t in
         if diff_ind \<ge> length s then False
         else
           (let byte_s = s ! diff_ind; byte_t = t ! diff_ind in
            if byte_s \<noteq> 0xff \<and> unat byte_s + 1 = unat byte_t
            then list_all (\<lambda>i. s ! i = 0xff \<and> t ! i = 0) [diff_ind + 1..<length s]
            else False)))"

section \<open>The reverse bytewise comparator\<close>

definition ReverseBytewise_Compare :: "slice \<Rightarrow> slice \<Rightarrow> int" where
  "ReverseBytewise_Compare a b = - Slice_compare a b"

definition ReverseBytewise_FindShortestSeparator :: "slice \<Rightarrow> slice \<Rightarrow> slice" where
  "ReverseBytewise_FindShortestSeparator start limit =
     (let min_length = min (length start) (length limit);
          diff_index = difference_loop start limit min_length 0
      in if diff_index = min_length then start
         else
           (let start_byte = start ! diff_index; limit_byte = limit ! diff_index in
            if start_byte > limit_byte \<and> diff_index < length start - 1
            then take (diff_index + 1) start else start))"

definition ReverseBytewise_FindShortSuccessor :: "slice \<Rightarrow> slice" where
  "ReverseBytewise_FindShortSuccessor key = key"

definition ReverseBytewise_IsSameLengthImmediateSuccessor :: "slice \<Rightarrow> slice \<Rightarrow> bool" where
  "ReverseBytewise_IsSameLengthImmediateSuccessor s t \<longleftrightarrow> False"

section \<open>Timestamped keys\<close>

text \<open>The helpers on user keys of \<^verbatim>\<open>db/dbformat.h\<close>; they assume the key holds the timestamp.\<close>

definition StripTimestampFromUserKey :: "slice \<Rightarrow> nat \<Rightarrow> slice" where
  "StripTimestampFromUserKey user_key ts_sz = take (length user_key - ts_sz) user_key"

definition ExtractTimestampFromUserKey :: "slice \<Rightarrow> nat \<Rightarrow> slice" where
  "ExtractTimestampFromUserKey user_key ts_sz = take ts_sz (drop (length user_key - ts_sz) user_key)"

definition U64Ts_CompareTimestamp :: "slice \<Rightarrow> slice \<Rightarrow> int" where
  "U64Ts_CompareTimestamp ts1 ts2 =
     (let lhs = DecodeFixed64 ts1; rhs = DecodeFixed64 ts2 in
      if lhs < rhs then - 1 else if lhs > rhs then 1 else 0)"

definition U64Ts_CompareWithoutTimestamp :: "slice \<Rightarrow> bool \<Rightarrow> slice \<Rightarrow> bool \<Rightarrow> int" where
  "U64Ts_CompareWithoutTimestamp a a_has_ts b b_has_ts =
     (let ts_sz = 8;
          lhs = (if a_has_ts then StripTimestampFromUserKey a ts_sz else a);
          rhs = (if b_has_ts then StripTimestampFromUserKey b ts_sz else b)
      in Bytewise_Compare lhs rhs)"

definition U64Ts_Compare :: "slice \<Rightarrow> slice \<Rightarrow> int" where
  "U64Ts_Compare a b =
     (let ret = U64Ts_CompareWithoutTimestamp a True b True; ts_sz = 8 in
      if ret \<noteq> 0 then ret
      else - U64Ts_CompareTimestamp (ExtractTimestampFromUserKey a ts_sz)
               (ExtractTimestampFromUserKey b ts_sz))"

section \<open>The comparator interface\<close>

locale comparator =
  fixes Compare :: "slice \<Rightarrow> slice \<Rightarrow> int" and valid :: "slice \<Rightarrow> bool"
  assumes Compare_sym: "valid a \<Longrightarrow> valid b \<Longrightarrow> sgn (Compare a b) = - sgn (Compare b a)"
    and Compare_trans: "valid a \<Longrightarrow> valid b \<Longrightarrow> valid c \<Longrightarrow>
      Compare a b \<le> 0 \<Longrightarrow> Compare b c \<le> 0 \<Longrightarrow> Compare a c \<le> 0"
begin

lemma Compare_swap:
  assumes "valid a" and "valid b"
  shows "Compare a b < 0 \<longleftrightarrow> 0 < Compare b a" and "Compare a b = 0 \<longleftrightarrow> Compare b a = 0"
    and "Compare a b \<le> 0 \<longleftrightarrow> 0 \<le> Compare b a"
  using Compare_sym [OF assms] by (auto simp: sgn_if split: if_splits)

lemma Compare_refl: "valid a \<Longrightarrow> Compare a a = 0"
  using Compare_sym [of a a] by (auto simp: sgn_if split: if_splits)

lemma Compare_less_le_trans:
  assumes "valid a" "valid b" "valid c" "Compare a b < 0" "Compare b c \<le> 0"
  shows "Compare a c < 0"
proof (rule ccontr)
  assume "\<not> Compare a c < 0"
  then have "Compare c a \<le> 0" using Compare_swap(1) [OF assms(1,3)] by simp
  with Compare_trans [OF assms(2,3,1) assms(5)] have "Compare b a \<le> 0" by simp
  with assms(4) Compare_swap(1) [OF assms(1,2)] show False by simp
qed

lemma Compare_le_less_trans:
  assumes "valid a" "valid b" "valid c" "Compare a b \<le> 0" "Compare b c < 0"
  shows "Compare a c < 0"
proof (rule ccontr)
  assume "\<not> Compare a c < 0"
  then have "Compare c a \<le> 0" using Compare_swap(1) [OF assms(1,3)] by simp
  with Compare_trans [OF assms(3,1,2) _ assms(4)] have "Compare c b \<le> 0" by simp
  with assms(5) Compare_swap(1) [OF assms(2,3)] show False by simp
qed

lemma Compare_eq_trans:
  assumes "valid a" "valid b" "valid c" "Compare a b = 0"
  shows "sgn (Compare a c) = sgn (Compare b c)"
proof -
  have ba: "Compare b a = 0" using Compare_swap(2) [OF assms(1,2)] assms(4) by simp
  have "Compare a c < 0 \<longleftrightarrow> Compare b c < 0"
    using Compare_le_less_trans [OF assms(1-3)] Compare_le_less_trans [OF assms(2,1,3)] assms(4) ba
    by auto
  moreover have "Compare a c \<le> 0 \<longleftrightarrow> Compare b c \<le> 0"
    using Compare_trans [OF assms(1-3)] Compare_trans [OF assms(2,1,3)] assms(4) ba by auto
  ultimately show ?thesis by (auto simp: sgn_if)
qed

end

text \<open>What the index block builder relies on: the contract of \<^verbatim>\<open>FindShortestSeparator\<close> and
  \<^verbatim>\<open>FindShortSuccessor\<close> in \<^verbatim>\<open>include/rocksdb/comparator.h\<close>.\<close>

locale key_shortening = comparator +
  fixes FindShortestSeparator :: "slice \<Rightarrow> slice \<Rightarrow> slice" and FindShortSuccessor :: "slice \<Rightarrow> slice"
  assumes separator_valid: "valid a \<Longrightarrow> valid b \<Longrightarrow> Compare a b < 0 \<Longrightarrow> valid (FindShortestSeparator a b)"
    and separator_ge: "valid a \<Longrightarrow> valid b \<Longrightarrow> Compare a b < 0 \<Longrightarrow> Compare a (FindShortestSeparator a b) \<le> 0"
    and separator_less: "valid a \<Longrightarrow> valid b \<Longrightarrow> Compare a b < 0 \<Longrightarrow> Compare (FindShortestSeparator a b) b < 0"
    and successor_valid: "valid a \<Longrightarrow> valid (FindShortSuccessor a)"
    and successor_ge: "valid a \<Longrightarrow> Compare a (FindShortSuccessor a) \<le> 0"
begin

text \<open>A separator of two neighbouring blocks keeps every key of the left block on its left and every
  key of the right block on its right, which is what an index search needs.\<close>

lemma separator_splits:
  assumes ab: "valid a" "valid b" "Compare a b < 0" and k: "valid k"
  shows "Compare k a \<le> 0 \<Longrightarrow> Compare k (FindShortestSeparator a b) \<le> 0"
    and "Compare b k \<le> 0 \<Longrightarrow> Compare (FindShortestSeparator a b) k < 0"
  using Compare_trans [OF k ab(1) separator_valid [OF ab] _ separator_ge [OF ab]]
    Compare_less_le_trans [OF separator_valid [OF ab] ab(2) k separator_less [OF ab]] by simp_all

lemma successor_bounds: "valid a \<Longrightarrow> valid k \<Longrightarrow> Compare k a \<le> 0 \<Longrightarrow> Compare k (FindShortSuccessor a) \<le> 0"
  by (rule Compare_trans [of k a]) (simp_all add: successor_ge successor_valid)

end

section \<open>Lexicographic order\<close>

text \<open>The reference order on byte strings, by recursion on both.\<close>

fun lex_cmp :: "slice \<Rightarrow> slice \<Rightarrow> int" where
  "lex_cmp [] [] = 0"
| "lex_cmp [] (y # b) = - 1"
| "lex_cmp (x # a) [] = 1"
| "lex_cmp (x # a) (y # b) = (if x < y then - 1 else if y < x then 1 else lex_cmp a b)"

lemma memcmp_0 [simp]: "memcmp a b 0 = 0"
  by (cases a; cases b) simp_all

lemma Slice_compare_lex: "Slice_compare a b = lex_cmp a b"
  by (induction a b rule: lex_cmp.induct) (auto simp: Slice_compare_def Let_def)

lemma lex_cmp_eq_0 [simp]: "lex_cmp a b = 0 \<longleftrightarrow> a = b"
  by (induction a b rule: lex_cmp.induct) auto

lemma lex_cmp_refl [simp]: "lex_cmp a a = 0"
  by simp

lemma lex_cmp_sym: "lex_cmp a b = - lex_cmp b a"
  by (induction a b rule: lex_cmp.induct) auto

lemma lex_cmp_trans: "lex_cmp a b \<le> 0 \<Longrightarrow> lex_cmp b c \<le> 0 \<Longrightarrow> lex_cmp a c \<le> 0"
proof (induction a b arbitrary: c rule: lex_cmp.induct)
  case (2 y b)
  then show ?case by (cases c) auto
next
  case (4 x a y b)
  then show ?case by (cases c) (auto split: if_splits)
qed auto

lemma lex_cmp_range: "lex_cmp a b \<in> {- 1, 0, 1}"
  by (induction a b rule: lex_cmp.induct) auto

lemma lex_cmp_append [simp]: "lex_cmp (p @ a) (p @ b) = lex_cmp a b"
  by (induction p) auto

lemma memcmp_eq_0: "memcmp a b n = 0 \<longleftrightarrow> (take n a = take n b)" if "n \<le> length a" "n \<le> length b"
  using that by (induction a b n rule: memcmp.induct) auto

lemma Slice_equal_eq [simp]: "Slice_equal a b \<longleftrightarrow> a = b"
  by (auto simp: Slice_equal_def memcmp_eq_0)

lemma starts_with_prefix: "starts_with s x \<longleftrightarrow> (\<exists>r. s = x @ r)"
proof
  assume "starts_with s x"
  then have "take (length x) s = x" by (auto simp: starts_with_def memcmp_eq_0)
  then show "\<exists>r. s = x @ r" by (metis append_take_drop_id)
qed (auto simp: starts_with_def memcmp_eq_0)

lemma ends_with_suffix: "ends_with s x \<longleftrightarrow> (\<exists>r. s = r @ x)"
proof
  assume "ends_with s x"
  then have "drop (length s - length x) s = x" by (auto simp: ends_with_def memcmp_eq_0)
  then show "\<exists>r. s = r @ x" by (metis append_take_drop_id)
qed (auto simp: ends_with_def memcmp_eq_0)

interpretation bytewise: comparator Bytewise_Compare "\<lambda>_. True"
proof
  fix a b c :: slice
  show "sgn (Bytewise_Compare a b) = - sgn (Bytewise_Compare b a)"
    using lex_cmp_sym [of a b] by (simp add: Bytewise_Compare_def Slice_compare_lex sgn_minus)
  assume "Bytewise_Compare a b \<le> 0" "Bytewise_Compare b c \<le> 0"
  then show "Bytewise_Compare a c \<le> 0"
    using lex_cmp_trans [of a b c] by (simp add: Bytewise_Compare_def Slice_compare_lex)
qed

interpretation rbytewise: comparator ReverseBytewise_Compare "\<lambda>_. True"
proof
  fix a b c :: slice
  show "sgn (ReverseBytewise_Compare a b) = - sgn (ReverseBytewise_Compare b a)"
    using lex_cmp_sym [of a b] by (simp add: ReverseBytewise_Compare_def Slice_compare_lex sgn_minus)
  assume "ReverseBytewise_Compare a b \<le> 0" "ReverseBytewise_Compare b c \<le> 0"
  then show "ReverseBytewise_Compare a c \<le> 0"
    using lex_cmp_trans [of c b a] lex_cmp_sym [of a b] lex_cmp_sym [of b c] lex_cmp_sym [of a c]
    by (simp add: ReverseBytewise_Compare_def Slice_compare_lex)
qed

text \<open>Timestamped keys are ordered by user key, then by descending timestamp.\<close>

lemma U64Ts_Compare_lex:
  "U64Ts_Compare a b =
     (let r = lex_cmp (StripTimestampFromUserKey a 8) (StripTimestampFromUserKey b 8);
          s = DecodeFixed64 (ExtractTimestampFromUserKey a 8);
          t = DecodeFixed64 (ExtractTimestampFromUserKey b 8)
      in if r \<noteq> 0 then r else if t < s then - 1 else if s < t then 1 else 0)"
  by (auto simp: U64Ts_Compare_def U64Ts_CompareWithoutTimestamp_def U64Ts_CompareTimestamp_def
      Bytewise_Compare_def Slice_compare_lex Let_def)

lemma lex_cmp_less_trans: "lex_cmp a b < 0 \<Longrightarrow> lex_cmp b c < 0 \<Longrightarrow> lex_cmp a c < 0"
  using bytewise.Compare_less_le_trans [of a b c] by (simp add: Bytewise_Compare_def Slice_compare_lex)

lemma U64Ts_Compare_le:
  "U64Ts_Compare a b \<le> 0 \<longleftrightarrow>
     lex_cmp (StripTimestampFromUserKey a 8) (StripTimestampFromUserKey b 8) < 0 \<or>
     StripTimestampFromUserKey a 8 = StripTimestampFromUserKey b 8 \<and>
     DecodeFixed64 (ExtractTimestampFromUserKey b 8) \<le> DecodeFixed64 (ExtractTimestampFromUserKey a 8)"
proof (cases "StripTimestampFromUserKey a 8 = StripTimestampFromUserKey b 8")
  case True
  then show ?thesis by (auto simp: U64Ts_Compare_lex Let_def not_less)
next
  case False
  then show ?thesis by (simp add: U64Ts_Compare_lex Let_def order_less_le)
qed

interpretation u64ts: comparator U64Ts_Compare "\<lambda>k. 8 \<le> length k"
proof
  fix a b c :: slice
  have "U64Ts_Compare a b = - U64Ts_Compare b a"
    using lex_cmp_sym [of "StripTimestampFromUserKey a 8" "StripTimestampFromUserKey b 8"]
    unfolding U64Ts_Compare_lex Let_def by auto
  then show "sgn (U64Ts_Compare a b) = - sgn (U64Ts_Compare b a)" by (simp add: sgn_minus)
  assume "U64Ts_Compare a b \<le> 0" "U64Ts_Compare b c \<le> 0"
  then show "U64Ts_Compare a c \<le> 0"
    unfolding U64Ts_Compare_le by (elim disjE conjE) (auto intro: lex_cmp_less_trans)
qed

section \<open>Shortening keys\<close>

lemma difference_loop_spec:
  assumes "off \<le> len" "take off a = take off b" "len \<le> length a" "len \<le> length b"
  shows "off \<le> difference_loop a b len off \<and> difference_loop a b len off \<le> len \<and>
    take (difference_loop a b len off) a = take (difference_loop a b len off) b \<and>
    (difference_loop a b len off < len \<longrightarrow>
      a ! difference_loop a b len off \<noteq> b ! difference_loop a b len off)"
  using assms
proof (induction a b len off rule: difference_loop.induct)
  case (1 a b len off)
  show ?case
  proof (cases "off < len \<and> a ! off = b ! off")
    case True
    then have "take (off + 1) a = take (off + 1) b"
      using "1.prems" by (simp add: take_Suc_conv_app_nth)
    with 1 True show ?thesis by (simp add: difference_loop.simps [of a b len off])
  next
    case False
    with 1 show ?thesis by (auto simp: difference_loop.simps [of a b len off])
  qed
qed

lemma lex_cmp_take_less:
  assumes "take i a = take i b" "i < length a" "i < length b" "a ! i < b ! i"
  shows "lex_cmp a b = - 1"
proof -
  have "a = take i b @ a ! i # drop (Suc i) a" using assms(1,2) id_take_nth_drop by metis
  moreover have "b = take i b @ b ! i # drop (Suc i) b" using assms(3) id_take_nth_drop by metis
  ultimately show ?thesis using assms(4) by (metis lex_cmp.simps(4) lex_cmp_append)
qed

lemma byte_inc: "(x :: byte) < 0xff \<Longrightarrow> unat (x + 1) = unat x + 1"
  by (simp add: unat_plus_if' word_less_nat_alt)

lemma byte_inc_less: "(x :: byte) < 0xff \<Longrightarrow> x < x + 1"
  by (simp add: word_less_nat_alt byte_inc)

text \<open>Incrementing byte \<open>i\<close> and dropping the rest gives a larger string.\<close>

definition bump :: "slice \<Rightarrow> nat \<Rightarrow> slice" where
  "bump s i = take (i + 1) (s[i := s ! i + 1])"

lemma bump_eq: "i < length s \<Longrightarrow> bump s i = take i s @ [s ! i + 1]"
  by (simp add: bump_def take_Suc_conv_app_nth)

lemma length_bump: "i < length s \<Longrightarrow> length (bump s i) \<le> length s"
  by (simp add: bump_eq)

lemma lex_cmp_bump: "i < length s \<Longrightarrow> s ! i < 0xff \<Longrightarrow> lex_cmp s (bump s i) = - 1"
  by (rule lex_cmp_take_less [of i]) (simp_all add: bump_eq nth_append byte_inc_less)

lemma increment_after_cases:
  "increment_after s i = s \<or> (\<exists>j. i \<le> j \<and> j < length s \<and> s ! j < 0xff \<and> increment_after s i = bump s j)"
proof (induction s i rule: increment_after.induct)
  case (1 s i)
  then show ?case
    by (subst (1 2) increment_after.simps) (auto simp: bump_def dest: Suc_leD)
qed

lemma FindShortSuccessor_cases:
  "i + n = length key \<Longrightarrow> Bytewise_FindShortSuccessor_loop key i n = key \<or>
     (\<exists>j < length key. key ! j < 0xff \<and> Bytewise_FindShortSuccessor_loop key i n = bump key j)"
proof (induction key i n rule: Bytewise_FindShortSuccessor_loop.induct)
  case (2 key i n)
  show ?case
  proof (cases "key ! i = 0xff")
    case True
    then show ?thesis using 2 by (simp add: Let_def)
  next
    case False
    then have "key ! i < 0xff"
      using unat_less_exp [of "key ! i"] by (simp add: word_less_nat_alt word_unat_eq_iff)
    moreover have "Bytewise_FindShortSuccessor_loop key i (Suc n) = bump key i"
      using False by (simp add: Let_def bump_def)
    moreover have "i < length key" using 2(2) by simp
    ultimately show ?thesis by blast
  qed
qed simp

lemma Bytewise_separator_cases:
  assumes "lex_cmp start limit < 0" and r: "r = Bytewise_FindShortestSeparator start limit"
  shows "lex_cmp start r \<le> 0 \<and> lex_cmp r limit < 0 \<and> length r \<le> length start"
proof -
  let ?m = "min (length start) (length limit)"
  define d where "d = difference_loop start limit ?m 0"
  have d: "d \<le> ?m" "take d start = take d limit" "d < ?m \<Longrightarrow> start ! d \<noteq> limit ! d"
    using difference_loop_spec [of 0 ?m start limit] by (simp_all add: d_def)
  show ?thesis
  proof (cases "d < ?m \<and> start ! d < limit ! d")
    case False
    then have "r = start" by (auto simp: r Bytewise_FindShortestSeparator_def d_def [symmetric] Let_def)
    with assms show ?thesis by simp
  next
    case True
    then have len: "d < length start" "d < length limit" by auto
    have ff: "start ! d < 0xff"
      using True unat_less_exp [of "limit ! d"] by (simp add: word_less_nat_alt)
    show ?thesis
    proof (cases "d < length limit - 1 \<or> unat (start ! d) + 1 < unat (limit ! d)")
      case b: True
      then have rb: "r = bump start d"
        using True by (auto simp: r Bytewise_FindShortestSeparator_def d_def [symmetric] Let_def bump_def)
      have "lex_cmp r limit = lex_cmp [start ! d + 1] (drop d limit)"
        using rb d(2) len lex_cmp_append [of "take d limit" "[start ! d + 1]" "drop d limit"]
        by (simp add: bump_eq)
      moreover have "drop d limit = limit ! d # drop (Suc d) limit" using len by (simp add: Cons_nth_drop_Suc)
      moreover have "start ! d + 1 < limit ! d \<or> start ! d + 1 = limit ! d"
        using True ff by (simp add: word_less_nat_alt word_unat_eq_iff byte_inc) linarith
      moreover have "drop (Suc d) limit \<noteq> [] \<or> start ! d + 1 < limit ! d"
        using b ff by (auto simp: word_less_nat_alt byte_inc)
      ultimately have "lex_cmp r limit < 0" by (cases "drop (Suc d) limit") auto
      with rb len ff show ?thesis by (simp add: lex_cmp_bump length_bump)
    next
      case b: False
      then have ri: "r = increment_after start (d + 1)"
        using True by (auto simp: r Bytewise_FindShortestSeparator_def d_def [symmetric] Let_def)
      consider "r = start" | j where "d < j" "j < length start" "start ! j < 0xff" "r = bump start j"
        using increment_after_cases [of start "d + 1"] unfolding ri [symmetric]
        by (elim disjE exE) (auto simp: Suc_le_eq)
      then show ?thesis
      proof cases
        case 2
        have "lex_cmp r limit = - 1"
          by (rule lex_cmp_take_less [of d]) (use 2 len True d(2) in \<open>simp_all add: bump_eq nth_append\<close>)
        with 2 show ?thesis by (simp add: lex_cmp_bump length_bump)
      qed (use assms in simp)
    qed
  qed
qed

lemma Reverse_separator_cases:
  assumes "0 < lex_cmp start limit" and r: "r = ReverseBytewise_FindShortestSeparator start limit"
  shows "0 \<le> lex_cmp start r \<and> 0 < lex_cmp r limit \<and> length r \<le> length start"
proof -
  let ?m = "min (length start) (length limit)"
  define d where "d = difference_loop start limit ?m 0"
  have d: "d \<le> ?m" "take d start = take d limit"
    using difference_loop_spec [of 0 ?m start limit] by (simp_all add: d_def)
  show ?thesis
  proof (cases "d < ?m \<and> limit ! d < start ! d \<and> d < length start - 1")
    case False
    then have "r = start"
      using d(1) by (auto simp: r ReverseBytewise_FindShortestSeparator_def d_def [symmetric] Let_def)
    with assms show ?thesis by simp
  next
    case True
    then have rt: "r = take (d + 1) start"
      by (auto simp: r ReverseBytewise_FindShortestSeparator_def d_def [symmetric] Let_def)
    have "lex_cmp limit r = - 1"
      by (rule lex_cmp_take_less [of d]) (use rt True d(2) in simp_all)
    moreover have "0 \<le> lex_cmp start r"
    proof -
      have "lex_cmp (r @ drop (d + 1) start) (r @ []) \<ge> 0"
        unfolding lex_cmp_append by (cases "drop (d + 1) start") auto
      then show ?thesis by (simp add: rt)
    qed
    ultimately show ?thesis using lex_cmp_sym [of limit r] rt by simp
  qed
qed

lemma FindShortSuccessor_ge: "lex_cmp key (Bytewise_FindShortSuccessor key) \<le> 0"
  using FindShortSuccessor_cases [of 0 "length key" key]
  by (auto simp: Bytewise_FindShortSuccessor_def lex_cmp_bump)

lemmas compare_defs = Bytewise_Compare_def ReverseBytewise_Compare_def Slice_compare_lex

interpretation bytewise: key_shortening Bytewise_Compare "\<lambda>_. True"
  Bytewise_FindShortestSeparator Bytewise_FindShortSuccessor
  by unfold_locales (simp_all add: compare_defs Bytewise_separator_cases [OF _ refl] FindShortSuccessor_ge)

interpretation rbytewise: key_shortening ReverseBytewise_Compare "\<lambda>_. True"
  ReverseBytewise_FindShortestSeparator ReverseBytewise_FindShortSuccessor
  by unfold_locales (simp_all add: compare_defs Reverse_separator_cases [OF _ refl]
      ReverseBytewise_FindShortSuccessor_def)

text \<open>Timestamped keys are left as they are.\<close>

interpretation u64ts: key_shortening U64Ts_Compare "\<lambda>k. 8 \<le> length k" "\<lambda>start limit. start" "\<lambda>key. key"
  by unfold_locales (simp_all add: u64ts.Compare_refl)



subsection \<open>Immediate successors\<close>

text \<open>The value of a byte string as a big-endian number.\<close>

primrec be_nat :: "slice \<Rightarrow> nat" where
  "be_nat [] = 0"
| "be_nat (b # bs) = unat b * 256 ^ length bs + be_nat bs"

lemma be_nat_append [simp]: "be_nat (a @ b) = be_nat a * 256 ^ length b + be_nat b"
  by (induction a) (simp_all add: power_add algebra_simps)

lemma mult_less_step: "x < y \<Longrightarrow> x * k + k \<le> y * (k :: nat)"
  by (auto simp: less_iff_Suc_add algebra_simps)

lemma be_nat_less: "be_nat bs < 256 ^ length bs"
proof (induction bs)
  case (Cons b bs)
  have "unat b * 256 ^ length bs + 256 ^ length bs \<le> 256 * 256 ^ length bs"
    using unat_less_exp [of b] by (intro mult_less_step) simp
  with Cons have "unat b * 256 ^ length bs + be_nat bs < 256 * 256 ^ length bs" by linarith
  then show ?case by simp
qed simp

lemma be_nat_0: "be_nat bs = 0 \<longleftrightarrow> (\<forall>i < length bs. bs ! i = 0)"
  by (induction bs) (auto simp: nth_Cons' unat_eq_zero less_Suc_eq_0_disj)

lemma be_nat_max: "Suc (be_nat bs) = 256 ^ length bs \<longleftrightarrow> (\<forall>i < length bs. bs ! i = 0xff)"
proof (induction bs)
  case (Cons b bs)
  let ?k = "256 ^ length bs :: nat"
  have b: "unat b < 256" using unat_less_exp [of b] by simp
  have "Suc (be_nat (b # bs)) = 256 * ?k \<longleftrightarrow> unat b = 255 \<and> Suc (be_nat bs) = ?k"
  proof
    assume eq: "Suc (be_nat (b # bs)) = 256 * ?k"
    have "unat b = 255"
    proof (rule ccontr)
      assume "unat b \<noteq> 255"
      with b have "unat b * ?k + ?k \<le> 255 * ?k" by (intro mult_less_step) simp
      with eq be_nat_less [of bs] show False by simp
    qed
    with eq show "unat b = 255 \<and> Suc (be_nat bs) = ?k" by simp
  qed simp
  also have "unat b = 255 \<longleftrightarrow> b = 0xff" by (simp add: word_unat_eq_iff)
  finally show ?case using Cons.IH by (auto simp: nth_Cons' less_Suc_eq_0_disj)
qed simp

lemma be_nat_step:
  assumes "length u = length v" and "x \<noteq> y"
  shows "be_nat (y # v) = Suc (be_nat (x # u)) \<longleftrightarrow>
    unat y = Suc (unat x) \<and> Suc (be_nat u) = 256 ^ length u \<and> be_nat v = 0"
proof
  let ?k = "256 ^ length u :: nat"
  have bounds: "be_nat u < ?k" "be_nat v < ?k" using be_nat_less [of u] be_nat_less [of v] assms by simp_all
  assume "be_nat (y # v) = Suc (be_nat (x # u))"
  then have eq: "unat y * ?k + be_nat v = Suc (unat x * ?k + be_nat u)" using assms by simp
  have "unat y = Suc (unat x)"
  proof (rule ccontr)
    assume ne: "unat y \<noteq> Suc (unat x)"
    consider "Suc (unat y) \<le> unat x" | "Suc (Suc (unat x)) \<le> unat y"
      using ne assms(2) by (auto simp: word_unat_eq_iff) linarith
    then show False
    proof cases
      case 1
      then have "unat y * ?k + ?k \<le> unat x * ?k" by (intro mult_less_step) simp
      with eq bounds show False by simp
    next
      case 2
      then have "(unat x + 1) * ?k + ?k \<le> unat y * ?k" by (intro mult_less_step) simp
      with eq bounds show False by simp
    qed
  qed
  with eq bounds show "unat y = Suc (unat x) \<and> Suc (be_nat u) = ?k \<and> be_nat v = 0" by simp
qed (use assms in simp)

text \<open>
  C6. \<^verbatim>\<open>IsSameLengthImmediateSuccessor(s, t)\<close> of the bytewise comparator holds exactly when the two
  keys have the same length and \<open>t\<close> is the number after \<open>s\<close>, both read as big-endian numbers, so that
  no key of that length lies between them.
\<close>

theorem immediate_successor_exact:
  "Bytewise_IsSameLengthImmediateSuccessor s t \<longleftrightarrow> length s = length t \<and> be_nat t = be_nat s + 1"
proof (cases "length s = length t \<and> s \<noteq> t")
  case False
  moreover have "difference_offset s s = length s"
    using difference_loop_spec [of 0 "length s" s s] by (auto simp: difference_offset_def)
  ultimately show ?thesis
    by (auto simp: Bytewise_IsSameLengthImmediateSuccessor_def)
next
  case True
  define d where "d = difference_offset s t"
  have d: "d \<le> length s" "take d s = take d t" "d < length s \<Longrightarrow> s ! d \<noteq> t ! d"
    using difference_loop_spec [of 0 "length s" s t] True by (auto simp: d_def difference_offset_def)
  with True have dl: "d < length s" by (metis le_neq_implies_less take_all_iff order_refl)
  define u where "u = drop (Suc d) s"
  define v where "v = drop (Suc d) t"
  have s: "s = take d t @ s ! d # u" and t: "t = take d t @ t ! d # v"
    using d(2) dl True id_take_nth_drop [of d s] id_take_nth_drop [of d t] by (simp_all add: u_def v_def)
  have uv: "length u = length v" using True by (simp add: u_def v_def)
  have "be_nat t = be_nat s + 1 \<longleftrightarrow> be_nat (t ! d # v) = Suc (be_nat (s ! d # u))"
    by (subst t, subst s) (use uv in simp)
  also have "\<dots> \<longleftrightarrow> unat (t ! d) = Suc (unat (s ! d)) \<and> (\<forall>i < length u. u ! i = 0xff) \<and>
      (\<forall>i < length v. v ! i = 0)"
    using be_nat_step [OF uv d(3) [OF dl]] by (simp add: be_nat_max be_nat_0)
  also have "\<dots> \<longleftrightarrow> unat (s ! d) + 1 = unat (t ! d) \<and>
      (\<forall>i \<in> {d + 1..<length s}. s ! i = 0xff \<and> t ! i = 0)"
  proof -
    have "(\<forall>i < length u. u ! i = 0xff \<and> v ! i = 0) \<longleftrightarrow>
        (\<forall>i \<in> {d + 1..<length s}. s ! i = 0xff \<and> t ! i = 0)" (is "?l \<longleftrightarrow> ?r")
    proof
      assume l: ?l
      show ?r
      proof
        fix i assume i: "i \<in> {d + 1..<length s}"
        then have "i - Suc d < length u" by (auto simp: u_def)
        with i l [rule_format, of "i - Suc d"] show "s ! i = 0xff \<and> t ! i = 0"
          using True by (simp add: u_def v_def)
      qed
    qed (use True in \<open>simp add: u_def v_def\<close>)
    with uv show ?thesis by auto
  qed
  also have "\<dots> \<longleftrightarrow> Bytewise_IsSameLengthImmediateSuccessor s t"
  proof -
    have "unat (s ! d) + 1 = unat (t ! d) \<Longrightarrow> s ! d \<noteq> 0xff"
      using unat_less_exp [of "t ! d"] by auto
    with dl True show ?thesis
      by (auto simp: Bytewise_IsSameLengthImmediateSuccessor_def d_def [symmetric] Let_def list_all_iff)
  qed
  finally show ?thesis using True by simp
qed

end
