(* ===== verification/Dbformat.thy ===== *)
theory Dbformat
  imports Comparator
begin

text \<open>
  Internal keys: \<^verbatim>\<open>db/dbformat.h\<close>, \<^verbatim>\<open>db/dbformat.cc\<close> and \<^verbatim>\<open>db/lookup_key.h\<close>. An internal key is a user key
  followed by eight bytes that pack a 56-bit sequence number and a value type. A user comparator is an
  argument \<open>ucmp\<close> of the definitions (the code holds a pointer to one); the order theorems are proved
  in the \<open>comparator\<close> locale and hold for every user comparator that is a total preorder.
  \<^verbatim>\<open>assert\<close>s are preconditions of the lemmas, as the release build has none.
\<close>

unbundle bit_operations_syntax

section \<open>Value types\<close>

text \<open>The enum has \<^verbatim>\<open>unsigned char\<close> as its underlying type and parsing casts any byte to it.\<close>

type_synonym ValueType = byte

abbreviation (input) kTypeDeletion :: ValueType where "kTypeDeletion \<equiv> 0x0"
abbreviation (input) kTypeValue :: ValueType where "kTypeValue \<equiv> 0x1"
abbreviation (input) kTypeMerge :: ValueType where "kTypeMerge \<equiv> 0x2"
abbreviation (input) kTypeLogData :: ValueType where "kTypeLogData \<equiv> 0x3"
abbreviation (input) kTypeColumnFamilyDeletion :: ValueType where "kTypeColumnFamilyDeletion \<equiv> 0x4"
abbreviation (input) kTypeColumnFamilyValue :: ValueType where "kTypeColumnFamilyValue \<equiv> 0x5"
abbreviation (input) kTypeColumnFamilyMerge :: ValueType where "kTypeColumnFamilyMerge \<equiv> 0x6"
abbreviation (input) kTypeSingleDeletion :: ValueType where "kTypeSingleDeletion \<equiv> 0x7"
abbreviation (input) kTypeColumnFamilySingleDeletion :: ValueType where "kTypeColumnFamilySingleDeletion \<equiv> 0x8"
abbreviation (input) kTypeBeginPrepareXID :: ValueType where "kTypeBeginPrepareXID \<equiv> 0x9"
abbreviation (input) kTypeEndPrepareXID :: ValueType where "kTypeEndPrepareXID \<equiv> 0xA"
abbreviation (input) kTypeCommitXID :: ValueType where "kTypeCommitXID \<equiv> 0xB"
abbreviation (input) kTypeRollbackXID :: ValueType where "kTypeRollbackXID \<equiv> 0xC"
abbreviation (input) kTypeNoop :: ValueType where "kTypeNoop \<equiv> 0xD"
abbreviation (input) kTypeColumnFamilyRangeDeletion :: ValueType where "kTypeColumnFamilyRangeDeletion \<equiv> 0xE"
abbreviation (input) kTypeRangeDeletion :: ValueType where "kTypeRangeDeletion \<equiv> 0xF"
abbreviation (input) kTypeColumnFamilyBlobIndex :: ValueType where "kTypeColumnFamilyBlobIndex \<equiv> 0x10"
abbreviation (input) kTypeBlobIndex :: ValueType where "kTypeBlobIndex \<equiv> 0x11"
abbreviation (input) kTypeBeginPersistedPrepareXID :: ValueType where "kTypeBeginPersistedPrepareXID \<equiv> 0x12"
abbreviation (input) kTypeBeginUnprepareXID :: ValueType where "kTypeBeginUnprepareXID \<equiv> 0x13"
abbreviation (input) kTypeDeletionWithTimestamp :: ValueType where "kTypeDeletionWithTimestamp \<equiv> 0x14"
abbreviation (input) kTypeCommitXIDAndTimestamp :: ValueType where "kTypeCommitXIDAndTimestamp \<equiv> 0x15"
abbreviation (input) kTypeWideColumnEntity :: ValueType where "kTypeWideColumnEntity \<equiv> 0x16"
abbreviation (input) kTypeColumnFamilyWideColumnEntity :: ValueType where "kTypeColumnFamilyWideColumnEntity \<equiv> 0x17"
abbreviation (input) kTypeMaxValid :: ValueType where "kTypeMaxValid \<equiv> 0x18"

abbreviation (input) kValueTypeForSeek :: ValueType where "kValueTypeForSeek \<equiv> kTypeWideColumnEntity"
abbreviation (input) kValueTypeForSeekForPrev :: ValueType where "kValueTypeForSeekForPrev \<equiv> kTypeDeletion"

definition IsValueType :: "ValueType \<Rightarrow> bool" where
  "IsValueType t \<longleftrightarrow> t \<le> kTypeMerge \<or> kTypeSingleDeletion = t \<or> kTypeBlobIndex = t \<or>
     kTypeDeletionWithTimestamp = t \<or> kTypeWideColumnEntity = t"

definition IsExtendedValueType :: "ValueType \<Rightarrow> bool" where
  "IsExtendedValueType t \<longleftrightarrow> IsValueType t \<or> t = kTypeRangeDeletion \<or> t = kTypeMaxValid"

datatype EntryType = kEntryPut | kEntryDelete | kEntrySingleDelete | kEntryMerge | kEntryRangeDeletion
  | kEntryBlobIndex | kEntryDeleteWithTimestamp | kEntryWideColumnEntity | kEntryOther

definition GetEntryType :: "ValueType \<Rightarrow> EntryType" where
  "GetEntryType value_type =
     (if value_type = kTypeValue then kEntryPut
      else if value_type = kTypeDeletion then kEntryDelete
      else if value_type = kTypeDeletionWithTimestamp then kEntryDeleteWithTimestamp
      else if value_type = kTypeSingleDeletion then kEntrySingleDelete
      else if value_type = kTypeMerge then kEntryMerge
      else if value_type = kTypeRangeDeletion then kEntryRangeDeletion
      else if value_type = kTypeBlobIndex then kEntryBlobIndex
      else if value_type = kTypeWideColumnEntity then kEntryWideColumnEntity
      else kEntryOther)"

type_synonym SequenceNumber = u64

definition kMaxSequenceNumber :: SequenceNumber where
  "kMaxSequenceNumber = push_bit 56 0x1 - 1"

definition kDisableGlobalSequenceNumber :: SequenceNumber where
  "kDisableGlobalSequenceNumber = 0xffffffffffffffff"

abbreviation (input) kNumInternalBytes :: nat where "kNumInternalBytes \<equiv> 8"

section \<open>Parsed and encoded internal keys\<close>

record ParsedInternalKey =
  pik_user_key :: slice
  pik_sequence :: SequenceNumber
  pik_type :: ValueType

definition parsed_key :: "slice \<Rightarrow> SequenceNumber \<Rightarrow> ValueType \<Rightarrow> ParsedInternalKey" where
  "parsed_key u seq t = \<lparr>pik_user_key = u, pik_sequence = seq, pik_type = t\<rparr>"

definition SetTimestamp :: "slice \<Rightarrow> ParsedInternalKey \<Rightarrow> ParsedInternalKey" where
  "SetTimestamp ts k =
     k\<lparr>pik_user_key := take (length (pik_user_key k) - length ts) (pik_user_key k) @ ts\<rparr>"

definition GetTimestamp :: "nat \<Rightarrow> ParsedInternalKey \<Rightarrow> slice" where
  "GetTimestamp ts_sz k = take ts_sz (drop (length (pik_user_key k) - ts_sz) (pik_user_key k))"

definition InternalKeyEncodingLength :: "ParsedInternalKey \<Rightarrow> nat" where
  "InternalKeyEncodingLength key = length (pik_user_key key) + kNumInternalBytes"

definition PackSequenceAndType :: "u64 \<Rightarrow> ValueType \<Rightarrow> u64" where
  "PackSequenceAndType seq t = push_bit 8 seq OR ucast t"

definition UnPackSequenceAndType :: "u64 \<Rightarrow> u64 \<times> ValueType" where
  "UnPackSequenceAndType packed = (drop_bit 8 packed, ucast (packed AND 0xff))"

definition AppendInternalKey :: "slice \<Rightarrow> ParsedInternalKey \<Rightarrow> slice" where
  "AppendInternalKey result key =
     PutFixed64 (result @ pik_user_key key) (PackSequenceAndType (pik_sequence key) (pik_type key))"

definition AppendInternalKeyWithDifferentTimestamp :: "slice \<Rightarrow> ParsedInternalKey \<Rightarrow> slice \<Rightarrow> slice" where
  "AppendInternalKeyWithDifferentTimestamp result key ts =
     PutFixed64 (result @ take (length (pik_user_key key) - length ts) (pik_user_key key) @ ts)
       (PackSequenceAndType (pik_sequence key) (pik_type key))"

definition AppendInternalKeyFooter :: "slice \<Rightarrow> SequenceNumber \<Rightarrow> ValueType \<Rightarrow> slice" where
  "AppendInternalKeyFooter result s t = PutFixed64 result (PackSequenceAndType s t)"

definition AppendKeyWithMinTimestamp :: "slice \<Rightarrow> slice \<Rightarrow> nat \<Rightarrow> slice" where
  "AppendKeyWithMinTimestamp result key ts_sz = result @ key @ replicate ts_sz 0"

definition AppendKeyWithMaxTimestamp :: "slice \<Rightarrow> slice \<Rightarrow> nat \<Rightarrow> slice" where
  "AppendKeyWithMaxTimestamp result key ts_sz = result @ key @ replicate ts_sz 0xff"

definition AppendUserKeyWithMaxTimestamp :: "slice \<Rightarrow> slice \<Rightarrow> nat \<Rightarrow> slice" where
  "AppendUserKeyWithMaxTimestamp result key ts_sz =
     (let result = result @ take (length key - ts_sz) key; kTsMax = replicate 9 0xff in
      if ts_sz < length kTsMax then result @ take ts_sz kTsMax
      else result @ replicate ts_sz 0xff)"

definition PadInternalKeyWithMinTimestamp :: "slice \<Rightarrow> slice \<Rightarrow> nat \<Rightarrow> slice" where
  "PadInternalKeyWithMinTimestamp result key ts_sz =
     (let user_key_size = length key - kNumInternalBytes in
      result @ take user_key_size key @ replicate ts_sz 0 @
        take kNumInternalBytes (drop user_key_size key))"

definition StripTimestampFromInternalKey :: "slice \<Rightarrow> slice \<Rightarrow> nat \<Rightarrow> slice" where
  "StripTimestampFromInternalKey result key ts_sz =
     result @ take (length key - kNumInternalBytes - ts_sz) key @
       take kNumInternalBytes (drop (length key - kNumInternalBytes) key)"

definition ReplaceInternalKeyWithMinTimestamp :: "slice \<Rightarrow> slice \<Rightarrow> nat \<Rightarrow> slice" where
  "ReplaceInternalKeyWithMinTimestamp result key ts_sz =
     result @ take (length key - kNumInternalBytes - ts_sz) key @ replicate ts_sz 0 @
       take kNumInternalBytes (drop (length key - kNumInternalBytes) key)"

definition ExtractUserKey :: "slice \<Rightarrow> slice" where
  "ExtractUserKey internal_key = take (length internal_key - kNumInternalBytes) internal_key"

definition ExtractUserKeyAndStripTimestamp :: "slice \<Rightarrow> nat \<Rightarrow> slice" where
  "ExtractUserKeyAndStripTimestamp internal_key ts_sz =
     take (length internal_key - (kNumInternalBytes + ts_sz)) internal_key"

definition ExtractTimestampFromKey :: "slice \<Rightarrow> nat \<Rightarrow> slice" where
  "ExtractTimestampFromKey internal_key ts_sz =
     take ts_sz (drop (length internal_key - ts_sz - kNumInternalBytes) internal_key)"

definition ExtractInternalKeyFooter :: "slice \<Rightarrow> u64" where
  "ExtractInternalKeyFooter internal_key =
     DecodeFixed64 (drop (length internal_key - kNumInternalBytes) internal_key)"

definition ExtractValueType :: "slice \<Rightarrow> ValueType" where
  "ExtractValueType internal_key = ucast (ExtractInternalKeyFooter internal_key AND 0xff)"

text \<open>The error messages carry their fixed part only.\<close>

definition ParseInternalKey :: "slice \<Rightarrow> status + ParsedInternalKey" where
  "ParseInternalKey internal_key =
     (let n = length internal_key in
      if n < kNumInternalBytes then Inl (Status_Corruption ''Corrupted Key: Internal Key too small'')
      else
        (let num = DecodeFixed64 (drop (n - kNumInternalBytes) internal_key);
             result = parsed_key (take (n - kNumInternalBytes) internal_key) (drop_bit 8 num)
               (ucast (num AND 0xff))
         in if IsExtendedValueType (pik_type result) then Inr result
            else Inl (Status_Corruption ''Corrupted Key'')))"

definition UpdateInternalKey :: "slice \<Rightarrow> u64 \<Rightarrow> ValueType \<Rightarrow> slice" where
  "UpdateInternalKey key seq t =
     take (length key - kNumInternalBytes) key @ EncodeFixed64 (push_bit 8 seq OR ucast t)"

definition GetInternalKeySeqno :: "slice \<Rightarrow> u64" where
  "GetInternalKeySeqno internal_key =
     drop_bit 8 (DecodeFixed64 (drop (length internal_key - kNumInternalBytes) internal_key))"

section \<open>The internal key comparator\<close>

text \<open>\<^verbatim>\<open>UserComparatorWrapper\<close> forwards to the user comparator after counting the call.\<close>

definition tie_break :: "u64 \<Rightarrow> u64 \<Rightarrow> int" where
  "tie_break anum bnum = (if anum > bnum then - 1 else if anum < bnum then 1 else 0)"

definition InternalKey_Compare :: "(slice \<Rightarrow> slice \<Rightarrow> int) \<Rightarrow> slice \<Rightarrow> slice \<Rightarrow> int" where
  "InternalKey_Compare ucmp akey bkey =
     (let r = ucmp (ExtractUserKey akey) (ExtractUserKey bkey) in
      if r = 0 then
        tie_break (DecodeFixed64 (drop (length akey - kNumInternalBytes) akey))
          (DecodeFixed64 (drop (length bkey - kNumInternalBytes) bkey))
      else r)"

definition InternalKey_CompareKeySeq :: "(slice \<Rightarrow> slice \<Rightarrow> int) \<Rightarrow> slice \<Rightarrow> slice \<Rightarrow> int" where
  "InternalKey_CompareKeySeq ucmp akey bkey =
     (let r = ucmp (ExtractUserKey akey) (ExtractUserKey bkey) in
      if r = 0 then
        tie_break (drop_bit 8 (DecodeFixed64 (drop (length akey - kNumInternalBytes) akey)))
          (drop_bit 8 (DecodeFixed64 (drop (length bkey - kNumInternalBytes) bkey)))
      else r)"

definition InternalKey_Compare_global ::
  "(slice \<Rightarrow> slice \<Rightarrow> int) \<Rightarrow> slice \<Rightarrow> SequenceNumber \<Rightarrow> slice \<Rightarrow> SequenceNumber \<Rightarrow> int" where
  "InternalKey_Compare_global ucmp a a_global_seqno b b_global_seqno =
     (let r = ucmp (ExtractUserKey a) (ExtractUserKey b) in
      if r = 0 then
        (let a_footer = (if a_global_seqno = kDisableGlobalSequenceNumber then ExtractInternalKeyFooter a
                         else PackSequenceAndType a_global_seqno (ExtractValueType a));
             b_footer = (if b_global_seqno = kDisableGlobalSequenceNumber then ExtractInternalKeyFooter b
                         else PackSequenceAndType b_global_seqno (ExtractValueType b))
         in tie_break a_footer b_footer)
      else r)"

definition InternalKey_Compare_parsed ::
  "(slice \<Rightarrow> slice \<Rightarrow> int) \<Rightarrow> ParsedInternalKey \<Rightarrow> ParsedInternalKey \<Rightarrow> int" where
  "InternalKey_Compare_parsed ucmp a b =
     (let r = ucmp (pik_user_key a) (pik_user_key b) in
      if r = 0 then
        (if pik_sequence a > pik_sequence b then - 1
         else if pik_sequence a < pik_sequence b then 1
         else if pik_type a > pik_type b then - 1
         else if pik_type a < pik_type b then 1
         else r)
      else r)"

definition InternalKey_Compare_slice_parsed ::
  "(slice \<Rightarrow> slice \<Rightarrow> int) \<Rightarrow> slice \<Rightarrow> ParsedInternalKey \<Rightarrow> int" where
  "InternalKey_Compare_slice_parsed ucmp a b =
     (let r = ucmp (ExtractUserKey a) (pik_user_key b) in
      if r = 0 then
        tie_break (DecodeFixed64 (drop (length a - kNumInternalBytes) a))
          (push_bit 8 (pik_sequence b) OR ucast (pik_type b))
      else r)"

definition InternalKey_Compare_parsed_slice ::
  "(slice \<Rightarrow> slice \<Rightarrow> int) \<Rightarrow> ParsedInternalKey \<Rightarrow> slice \<Rightarrow> int" where
  "InternalKey_Compare_parsed_slice ucmp a b = - InternalKey_Compare_slice_parsed ucmp b a"

definition InternalKey_Equal :: "(slice \<Rightarrow> slice \<Rightarrow> int) \<Rightarrow> slice \<Rightarrow> slice \<Rightarrow> bool" where
  "InternalKey_Equal ucmp a b \<longleftrightarrow> InternalKey_Compare ucmp a b = 0"

section \<open>The class InternalKey\<close>

text \<open>Its only member is the string \<^verbatim>\<open>rep_\<close>, so an \<^verbatim>\<open>InternalKey\<close> is that string.\<close>

definition InternalKey :: "slice \<Rightarrow> SequenceNumber \<Rightarrow> ValueType \<Rightarrow> slice" where
  "InternalKey user_key s t = AppendInternalKey [] (parsed_key user_key s t)"

definition InternalKey_ts :: "slice \<Rightarrow> SequenceNumber \<Rightarrow> ValueType \<Rightarrow> slice \<Rightarrow> slice" where
  "InternalKey_ts user_key s t ts =
     AppendInternalKeyWithDifferentTimestamp [] (parsed_key user_key s t) ts"

definition SetMaxPossibleForUserKey :: "slice \<Rightarrow> slice \<Rightarrow> slice" where
  "SetMaxPossibleForUserKey rep user_key = AppendInternalKey rep (parsed_key user_key 0 0)"

definition SetMinPossibleForUserKey :: "slice \<Rightarrow> slice \<Rightarrow> slice" where
  "SetMinPossibleForUserKey rep user_key =
     AppendInternalKey rep (parsed_key user_key kMaxSequenceNumber kValueTypeForSeek)"

definition InternalKey_Valid :: "slice \<Rightarrow> bool" where
  "InternalKey_Valid rep = (case ParseInternalKey rep of Inr _ \<Rightarrow> True | Inl s \<Rightarrow> ok s)"

definition InternalKey_SetFrom :: "slice \<Rightarrow> ParsedInternalKey \<Rightarrow> slice" where
  "InternalKey_SetFrom rep p = AppendInternalKey [] p"

definition InternalKey_SetFrom_ts :: "slice \<Rightarrow> ParsedInternalKey \<Rightarrow> slice \<Rightarrow> slice" where
  "InternalKey_SetFrom_ts rep p ts = AppendInternalKeyWithDifferentTimestamp [] p ts"

definition InternalKey_Set :: "slice \<Rightarrow> slice \<Rightarrow> SequenceNumber \<Rightarrow> ValueType \<Rightarrow> slice" where
  "InternalKey_Set rep user_key s t = InternalKey_SetFrom rep (parsed_key user_key s t)"

definition InternalKey_Set_ts :: "slice \<Rightarrow> slice \<Rightarrow> SequenceNumber \<Rightarrow> ValueType \<Rightarrow> slice \<Rightarrow> slice" where
  "InternalKey_Set_ts rep user_key_with_ts s t ts =
     (let pik = parsed_key user_key_with_ts s t in InternalKey_SetFrom_ts rep pik ts)"

definition ConvertFromUserKey :: "slice \<Rightarrow> SequenceNumber \<Rightarrow> ValueType \<Rightarrow> slice" where
  "ConvertFromUserKey rep s t = AppendInternalKeyFooter rep s t"

section \<open>Range tombstones\<close>

record RangeTombstone =
  rt_start_key :: slice
  rt_end_key :: slice
  rt_seq :: SequenceNumber
  rt_ts :: slice

definition RangeTombstone_init :: "slice \<Rightarrow> slice \<Rightarrow> SequenceNumber \<Rightarrow> RangeTombstone" where
  "RangeTombstone_init sk ek sn = \<lparr>rt_start_key = sk, rt_end_key = ek, rt_seq = sn, rt_ts = []\<rparr>"

definition RangeTombstone_ts :: "slice \<Rightarrow> slice \<Rightarrow> SequenceNumber \<Rightarrow> slice \<Rightarrow> RangeTombstone" where
  "RangeTombstone_ts sk ek sn ts =
     (let pinned_start_key = take (length sk - length ts) sk @ ts;
          pinned_end_key = take (length ek - length ts) ek @ ts
      in \<lparr>rt_start_key = pinned_start_key, rt_end_key = pinned_end_key, rt_seq = sn, rt_ts = ts\<rparr>)"

definition RangeTombstone_parsed :: "ParsedInternalKey \<Rightarrow> slice \<Rightarrow> RangeTombstone" where
  "RangeTombstone_parsed k value =
     \<lparr>rt_start_key = pik_user_key k, rt_end_key = value, rt_seq = pik_sequence k, rt_ts = []\<rparr>"

definition RangeTombstone_Serialize :: "RangeTombstone \<Rightarrow> slice \<times> slice" where
  "RangeTombstone_Serialize t =
     (InternalKey (rt_start_key t) (rt_seq t) kTypeRangeDeletion, rt_end_key t)"

definition RangeTombstone_SerializeKey :: "RangeTombstone \<Rightarrow> slice" where
  "RangeTombstone_SerializeKey t = InternalKey (rt_start_key t) (rt_seq t) kTypeRangeDeletion"

definition RangeTombstone_SerializeEndKey :: "RangeTombstone \<Rightarrow> slice" where
  "RangeTombstone_SerializeEndKey t =
     (if rt_ts t \<noteq> [] then
        (let kTsMax = replicate 9 0xff in
         if length (rt_ts t) \<le> length kTsMax
         then InternalKey_ts (rt_end_key t) kMaxSequenceNumber kTypeRangeDeletion
                (take (length (rt_ts t)) kTsMax)
         else InternalKey_ts (rt_end_key t) kMaxSequenceNumber kTypeRangeDeletion
                (replicate (length (rt_ts t)) 0xff))
      else InternalKey (rt_end_key t) kMaxSequenceNumber kTypeRangeDeletion)"

section \<open>LookupKey\<close>

text \<open>
  The buffer is the inline array of 200 bytes or \<^verbatim>\<open>needed\<close> bytes from the heap; \<open>lk_buf\<close> holds the bytes
  written, \<open>lk_kstart\<close> the offset of \<^verbatim>\<open>kstart_\<close> in it, and \<^verbatim>\<open>end_\<close> is its end.
\<close>

record LookupKey =
  lk_capacity :: nat
  lk_buf :: slice
  lk_kstart :: nat

definition LookupKey_init :: "slice \<Rightarrow> SequenceNumber \<Rightarrow> slice option \<Rightarrow> LookupKey" where
  "LookupKey_init user_key s ts =
     (let usize = length user_key;
          ts_sz = (case ts of None \<Rightarrow> 0 | Some t \<Rightarrow> length t);
          needed = usize + ts_sz + 13;
          capacity = (if needed \<le> 200 then 200 else needed);
          dst = EncodeVarint32 (word_of_nat (usize + ts_sz + 8));
          kstart = length dst;
          dst = dst @ user_key;
          dst = (case ts of None \<Rightarrow> dst | Some t \<Rightarrow> dst @ t);
          dst = dst @ EncodeFixed64 (PackSequenceAndType s kValueTypeForSeek)
      in \<lparr>lk_capacity = capacity, lk_buf = dst, lk_kstart = kstart\<rparr>)"

definition LookupKey_memtable_key :: "LookupKey \<Rightarrow> slice" where
  "LookupKey_memtable_key k = lk_buf k"

definition LookupKey_internal_key :: "LookupKey \<Rightarrow> slice" where
  "LookupKey_internal_key k = drop (lk_kstart k) (lk_buf k)"

definition LookupKey_user_key :: "LookupKey \<Rightarrow> slice" where
  "LookupKey_user_key k = take (length (lk_buf k) - lk_kstart k - 8) (drop (lk_kstart k) (lk_buf k))"

section \<open>Packing\<close>

lemma kMax_unat: "unat kMaxSequenceNumber = 2 ^ 56 - 1"
  by (simp add: kMaxSequenceNumber_def)

lemma le_kMax: "s \<le> kMaxSequenceNumber \<longleftrightarrow> unat s < 2 ^ 56"
  by (auto simp: word_le_nat_alt kMax_unat)

lemma PackSequenceAndType_bits:
  "bit (PackSequenceAndType s t) n \<longleftrightarrow> (if n < 8 then bit t n else n < 64 \<and> bit s (n - 8))"
  by (auto simp: PackSequenceAndType_def bit_or_iff bit_push_bit_iff bit_ucast_iff
      dest: bit_imp_le_length)

lemma Pack_type: "ucast (PackSequenceAndType s t AND 0xff) = t"
  by (rule bit_eqI) (auto simp: bit_ucast_iff bit_and_iff PackSequenceAndType_bits bit_masks
      dest: bit_imp_le_length)

lemma bit_imp_le_unat: "bit (w :: 'a::len word) n \<Longrightarrow> 2 ^ n \<le> unat w"
proof (rule ccontr)
  assume w: "bit w n" and "\<not> 2 ^ n \<le> unat w"
  then have "unat w div 2 ^ n = 0" by simp
  moreover have "odd (unat w div 2 ^ n)" using w by (simp only: bit_iff_odd [symmetric] bit_unsigned_iff) simp
  ultimately show False by simp
qed

lemma Pack_seq: "drop_bit 8 (PackSequenceAndType s t) = s" if "s \<le> kMaxSequenceNumber"
proof (rule bit_eqI)
  fix n
  have "n < 56" if "bit s n"
  proof -
    have "2 ^ n < (2 :: nat) ^ 56" using bit_imp_le_unat [OF that] \<open>s \<le> kMaxSequenceNumber\<close> le_kMax by simp
    then show ?thesis by (rule power_less_imp_less_exp [rotated]) simp
  qed
  then show "bit (drop_bit 8 (PackSequenceAndType s t)) n = bit s n"
    unfolding bit_drop_bit_eq comp_apply PackSequenceAndType_bits by auto
qed

lemma UnPack_Pack: "s \<le> kMaxSequenceNumber \<Longrightarrow> UnPackSequenceAndType (PackSequenceAndType s t) = (s, t)"
  by (simp add: UnPackSequenceAndType_def Pack_type Pack_seq)

lemma Pack_UnPack: "PackSequenceAndType (drop_bit 8 p) (ucast (p AND 0xff)) = p"
  by (rule bit_eqI) (auto simp: PackSequenceAndType_bits bit_drop_bit_eq bit_ucast_iff bit_and_iff bit_masks
      dest: bit_imp_le_length)

lemma drop_bit_8_bounded: "drop_bit 8 (p :: u64) \<le> kMaxSequenceNumber"
  using unat_less_exp [of p] unfolding le_kMax unat_drop_bit_div by simp

lemma Pack_unat:
  assumes "s \<le> kMaxSequenceNumber"
  shows "unat (PackSequenceAndType s t) = unat s * 256 + unat t"
proof -
  let ?p = "PackSequenceAndType s t"
  have "unat ?p div 2 ^ 8 = unat s"
    using Pack_seq [OF assms, of t] unat_drop_bit_div [of 8 ?p] by simp
  moreover have "unat ?p mod 2 ^ 8 = unat t"
  proof -
    have "take_bit 8 (unat ?p) = unat t"
      by (rule bit_eqI) (auto simp: bit_take_bit_iff bit_unsigned_iff PackSequenceAndType_bits
          dest: bit_imp_le_length)
    then show ?thesis by (simp only: take_bit_eq_mod)
  qed
  ultimately show ?thesis using div_mult_mod_eq [of "unat ?p" "2 ^ 8"] by simp
qed

lemma Pack_less:
  assumes "s \<le> kMaxSequenceNumber" "s' \<le> kMaxSequenceNumber"
  shows "PackSequenceAndType s t < PackSequenceAndType s' t' \<longleftrightarrow> s < s' \<or> s = s' \<and> t < t'"
proof -
  have "a * 256 + b < a' * 256 + b' \<longleftrightarrow> a < a' \<or> a = a' \<and> b < b'" if "b < 256" "b' < 256" for a b a' b' :: nat
    using that by auto
  from this [of "unat t" "unat t'"] show ?thesis
    using unat_less_exp [of t] unat_less_exp [of t']
    by (simp add: word_less_nat_alt Pack_unat assms word_unat_eq_iff)
qed

lemma Pack_eq:
  assumes "s \<le> kMaxSequenceNumber" "s' \<le> kMaxSequenceNumber"
  shows "PackSequenceAndType s t = PackSequenceAndType s' t' \<longleftrightarrow> s = s' \<and> t = t'"
  using UnPack_Pack [OF assms(1), of t] UnPack_Pack [OF assms(2), of t'] by (metis prod.inject)

section \<open>Encoded keys\<close>

lemma length_EncodeFixed32 [simp]: "length (EncodeFixed32 w) = 4"
  by (simp add: EncodeFixed32_def)

lemma Decode_EncodeFixed32 [simp]: "DecodeFixed32 (EncodeFixed32 w @ r) = w"
  using GetFixed_Put(2) [of w r] by (auto simp: GetFixed32_def)

lemma length_EncodeFixed64 [simp]: "length (EncodeFixed64 w) = 8"
  by (simp add: EncodeFixed64_def)

lemma Decode_EncodeFixed64 [simp]: "DecodeFixed64 (EncodeFixed64 w) = w"
  using GetFixed_Put(3) [of w "[]"] by (auto simp: GetFixed64_def)

lemma Encode_DecodeFixed64: "length s = 8 \<Longrightarrow> EncodeFixed64 (DecodeFixed64 s) = s"
  using le_bytes_le_word [where 'a = 64, of s] by (simp add: EncodeFixed64_def DecodeFixed64_def)

definition enc_ikey :: "slice \<Rightarrow> SequenceNumber \<Rightarrow> ValueType \<Rightarrow> slice" where
  "enc_ikey u s t = u @ EncodeFixed64 (PackSequenceAndType s t)"

lemma parsed_key_eta [simp]: "parsed_key (pik_user_key k) (pik_sequence k) (pik_type k) = k"
  by (simp add: parsed_key_def)

lemma AppendInternalKey_ikey: "AppendInternalKey r k = r @ enc_ikey (pik_user_key k) (pik_sequence k) (pik_type k)"
  by (simp add: AppendInternalKey_def PutFixed64_def enc_ikey_def)

lemma InternalKey_ikey [simp]: "InternalKey u s t = enc_ikey u s t"
  by (simp add: InternalKey_def AppendInternalKey_ikey parsed_key_def)

lemma InternalKey_ts_ikey: "InternalKey_ts u s t ts = enc_ikey (take (length u - length ts) u @ ts) s t"
  by (simp add: InternalKey_ts_def AppendInternalKeyWithDifferentTimestamp_def PutFixed64_def enc_ikey_def parsed_key_def)

lemma ikey_parts [simp]:
  "length (enc_ikey u s t) = length u + 8"
  "ExtractUserKey (enc_ikey u s t) = u"
  "drop (length u) (enc_ikey u s t) = EncodeFixed64 (PackSequenceAndType s t)"
  "ExtractInternalKeyFooter (enc_ikey u s t) = PackSequenceAndType s t"
  "ExtractValueType (enc_ikey u s t) = t"
  by (simp_all add: enc_ikey_def ExtractUserKey_def ExtractInternalKeyFooter_def ExtractValueType_def Pack_type)

lemma ikey_footer: "DecodeFixed64 (drop (length (enc_ikey u s t) - 8) (enc_ikey u s t)) = PackSequenceAndType s t"
  by simp

lemma Parse_ikey:
  "s \<le> kMaxSequenceNumber \<Longrightarrow> IsExtendedValueType t \<Longrightarrow>
     ParseInternalKey (enc_ikey u s t) = Inr (parsed_key u s t)"
  by (simp add: ParseInternalKey_def Let_def parsed_key_def Pack_type Pack_seq) (simp add: enc_ikey_def)

lemma ikey_of_bytes:
  assumes "8 \<le> length k"
  shows "enc_ikey (ExtractUserKey k) (GetInternalKeySeqno k) (ExtractValueType k) = k"
proof -
  have "EncodeFixed64 (DecodeFixed64 (drop (length k - 8) k)) = drop (length k - 8) k"
    using assms by (intro Encode_DecodeFixed64) simp
  then show ?thesis
    by (simp add: enc_ikey_def ExtractUserKey_def GetInternalKeySeqno_def ExtractValueType_def
        ExtractInternalKeyFooter_def Pack_UnPack)
qed

lemma ikey_cases:
  assumes "8 \<le> length k"
  obtains u s t where "k = enc_ikey u s t" "s \<le> kMaxSequenceNumber"
  using ikey_of_bytes [OF assms] drop_bit_8_bounded [of "DecodeFixed64 (drop (length k - 8) k)"]
  by (metis GetInternalKeySeqno_def)

text \<open>
  C7. Internal keys are parsed back: with a sequence number of at most 56 bits and a storable type,
  \<^verbatim>\<open>ParseInternalKey\<close> of what \<^verbatim>\<open>AppendInternalKey\<close> wrote returns the same key; whatever parses is written
  back byte for byte; a string shorter than eight bytes or with another type is rejected as corrupt.
\<close>

theorem internal_key_roundtrip:
  assumes "pik_sequence k \<le> kMaxSequenceNumber" and "IsExtendedValueType (pik_type k)"
  shows "ParseInternalKey (AppendInternalKey [] k) = Inr k \<and>
    length (AppendInternalKey [] k) = InternalKeyEncodingLength k \<and>
    (\<forall>bytes p. ParseInternalKey bytes = Inr p \<longrightarrow>
       AppendInternalKey [] p = bytes \<and> pik_sequence p \<le> kMaxSequenceNumber) \<and>
    (\<forall>bytes. (\<exists>e. ParseInternalKey bytes = Inl e \<and> st_code e = kCorruption) \<longleftrightarrow>
       length bytes < 8 \<or> \<not> IsExtendedValueType (ExtractValueType bytes))"
proof (intro conjI allI impI)
  show "ParseInternalKey (AppendInternalKey [] k) = Inr k"
    using Parse_ikey [OF assms] by (simp add: AppendInternalKey_ikey)
  show "length (AppendInternalKey [] k) = InternalKeyEncodingLength k"
    by (simp add: AppendInternalKey_ikey InternalKeyEncodingLength_def)
next
  fix bytes p assume p: "ParseInternalKey bytes = Inr p"
  then have "8 \<le> length bytes" by (auto simp: ParseInternalKey_def Let_def split: if_splits)
  moreover have "p = parsed_key (ExtractUserKey bytes) (GetInternalKeySeqno bytes) (ExtractValueType bytes)"
    using p by (auto simp: ParseInternalKey_def Let_def ExtractUserKey_def GetInternalKeySeqno_def
        ExtractValueType_def ExtractInternalKeyFooter_def split: if_splits)
  ultimately show "AppendInternalKey [] p = bytes" "pik_sequence p \<le> kMaxSequenceNumber"
    by (simp_all add: AppendInternalKey_ikey ikey_of_bytes parsed_key_def)
      (simp add: GetInternalKeySeqno_def drop_bit_8_bounded)
next
  fix bytes
  show "(\<exists>e. ParseInternalKey bytes = Inl e \<and> st_code e = kCorruption) \<longleftrightarrow>
      length bytes < 8 \<or> \<not> IsExtendedValueType (ExtractValueType bytes)"
    by (auto simp: ParseInternalKey_def Let_def parsed_key_def Status_Corruption_def ExtractValueType_def
        ExtractInternalKeyFooter_def)
qed

theorem internal_key_roundtrip_witness:
  "ParseInternalKey (AppendInternalKey [] (parsed_key [1, 2] 7 kTypeValue)) = Inr (parsed_key [1, 2] 7 kTypeValue)"
proof -
  have "pik_sequence (parsed_key [1, 2] 7 kTypeValue) \<le> kMaxSequenceNumber"
    by (simp add: parsed_key_def kMaxSequenceNumber_def)
  moreover have "IsExtendedValueType (pik_type (parsed_key [1, 2] 7 kTypeValue))"
    by (simp add: parsed_key_def IsExtendedValueType_def IsValueType_def)
  ultimately show ?thesis using internal_key_roundtrip by blast
qed

section \<open>The order of internal keys\<close>

lemma tie_break_sym: "tie_break a b = - tie_break b a"
  by (auto simp: tie_break_def)

lemma tie_break_le: "tie_break a b \<le> 0 \<longleftrightarrow> b \<le> a"
  by (auto simp: tie_break_def)

lemma tie_break_less: "tie_break a b < 0 \<longleftrightarrow> b < a"
  by (auto simp: tie_break_def)

lemma InternalKey_Compare_footer:
  "InternalKey_Compare ucmp a b =
     (if ucmp (ExtractUserKey a) (ExtractUserKey b) = 0
      then tie_break (ExtractInternalKeyFooter a) (ExtractInternalKeyFooter b)
      else ucmp (ExtractUserKey a) (ExtractUserKey b))"
  by (simp add: InternalKey_Compare_def ExtractInternalKeyFooter_def Let_def)

lemma InternalKey_Compare_le:
  "InternalKey_Compare ucmp a b \<le> 0 \<longleftrightarrow>
     ucmp (ExtractUserKey a) (ExtractUserKey b) < 0 \<or>
     ucmp (ExtractUserKey a) (ExtractUserKey b) = 0 \<and> ExtractInternalKeyFooter b \<le> ExtractInternalKeyFooter a"
  by (auto simp: InternalKey_Compare_footer tie_break_le)

context comparator
begin

lemma internal_comparator:
  "comparator (InternalKey_Compare Compare) (\<lambda>k. 8 \<le> length k \<and> valid (ExtractUserKey k))"
proof
  fix a b c
  assume a: "8 \<le> length a \<and> valid (ExtractUserKey a)" and b: "8 \<le> length b \<and> valid (ExtractUserKey b)"
  then show "sgn (InternalKey_Compare Compare a b) = - sgn (InternalKey_Compare Compare b a)"
    using Compare_swap(2) [of "ExtractUserKey a" "ExtractUserKey b"]
      Compare_sym [of "ExtractUserKey a" "ExtractUserKey b"]
      tie_break_sym [of "ExtractInternalKeyFooter a" "ExtractInternalKeyFooter b"]
    by (simp add: InternalKey_Compare_footer sgn_minus)
  assume c: "8 \<le> length c \<and> valid (ExtractUserKey c)"
    and le: "InternalKey_Compare Compare a b \<le> 0" "InternalKey_Compare Compare b c \<le> 0"
  let ?a = "ExtractUserKey a" and ?b = "ExtractUserKey b" and ?c = "ExtractUserKey c"
  have v: "valid ?a" "valid ?b" "valid ?c" using a b c by simp_all
  consider "Compare ?a ?b < 0" | "Compare ?b ?c < 0" | "Compare ?a ?b = 0" "Compare ?b ?c = 0"
    using le by (auto simp: InternalKey_Compare_le)
  then show "InternalKey_Compare Compare a c \<le> 0"
  proof cases
    case 1
    with le(2) show ?thesis
      using Compare_less_le_trans [OF v] by (auto simp: InternalKey_Compare_le)
  next
    case 2
    with le(1) show ?thesis
      using Compare_le_less_trans [OF v] by (auto simp: InternalKey_Compare_le)
  next
    case 3
    then have "Compare ?a ?c = 0"
      using Compare_eq_trans [OF v 3(1)] by (simp add: sgn_0_0)
    with 3 le show ?thesis by (auto simp: InternalKey_Compare_le)
  qed
qed

end

lemma Compare_enc_ikey:
  assumes "s \<le> kMaxSequenceNumber" "s' \<le> kMaxSequenceNumber"
  shows "InternalKey_Compare ucmp (enc_ikey u s t) (enc_ikey u' s' t') =
    InternalKey_Compare_parsed ucmp (parsed_key u s t) (parsed_key u' s' t')"
  using Pack_less [OF assms, of t t'] Pack_less [OF assms(2,1), of t' t]
  by (auto simp: InternalKey_Compare_footer InternalKey_Compare_parsed_def parsed_key_def tie_break_def Let_def)

lemma Compare_enc_less:
  assumes "s \<le> kMaxSequenceNumber" "s' \<le> kMaxSequenceNumber"
  shows "InternalKey_Compare ucmp (enc_ikey u s t) (enc_ikey u' s' t') < 0 \<longleftrightarrow>
    ucmp u u' < 0 \<or> ucmp u u' = 0 \<and> (s' < s \<or> s' = s \<and> t' < t)"
  by (auto simp: InternalKey_Compare_footer tie_break_less Pack_less assms)

interpretation bytewise_internal: comparator "InternalKey_Compare Bytewise_Compare"
    "\<lambda>k. 8 \<le> length k \<and> True"
  by (rule bytewise.internal_comparator)

interpretation u64ts_internal: comparator "InternalKey_Compare U64Ts_Compare"
    "\<lambda>k. 8 \<le> length k \<and> 8 \<le> length (ExtractUserKey k)"
  by (rule u64ts.internal_comparator)



section \<open>Lookups\<close>

lemma IsValueType_le_seek: "IsValueType t \<Longrightarrow> t \<le> kValueTypeForSeek"
  by (auto simp: IsValueType_def word_le_nat_alt)

lemma LookupKey_internal: "LookupKey_internal_key (LookupKey_init u s ts) =
    enc_ikey (u @ (case ts of None \<Rightarrow> [] | Some t \<Rightarrow> t)) s kValueTypeForSeek"
  by (auto simp: LookupKey_internal_key_def LookupKey_init_def Let_def enc_ikey_def split: option.split)

text \<open>
  C9. A \<^verbatim>\<open>LookupKey\<close> seeks to the newest visible version: its internal key is at most an entry for the
  same user key exactly when the entry's sequence number is not larger than the snapshot's, so the
  first entry at or after it is the newest one the snapshot sees. The bytes written fit the buffer that
  the constructor chose, and the memtable key is the length-prefixed internal key.
\<close>

theorem lookup_key_seek:
  assumes "s \<le> kMaxSequenceNumber" "s' \<le> kMaxSequenceNumber" "IsValueType t"
    and "ucmp (u @ (case ts of None \<Rightarrow> [] | Some t \<Rightarrow> t)) v = 0"
    and "length u + length (case ts of None \<Rightarrow> [] | Some t \<Rightarrow> t) + 8 < 2 ^ 32"
  shows "(InternalKey_Compare ucmp (LookupKey_internal_key (LookupKey_init u s ts)) (InternalKey v s' t) \<le> 0
      \<longleftrightarrow> s' \<le> s) \<and>
    length (lk_buf (LookupKey_init u s ts)) \<le> lk_capacity (LookupKey_init u s ts) \<and>
    GetLengthPrefixedSlice (LookupKey_memtable_key (LookupKey_init u s ts)) =
      Some (LookupKey_internal_key (LookupKey_init u s ts), []) \<and>
    LookupKey_user_key (LookupKey_init u s ts) = u @ (case ts of None \<Rightarrow> [] | Some t \<Rightarrow> t)"
proof (intro conjI)
  let ?u = "u @ (case ts of None \<Rightarrow> [] | Some t \<Rightarrow> t)"
  let ?k = "LookupKey_init u s ts"
  have "PackSequenceAndType s' t \<le> PackSequenceAndType s kValueTypeForSeek \<longleftrightarrow> s' \<le> s"
    using Pack_less [OF assms(1,2), of kValueTypeForSeek t] IsValueType_le_seek [OF assms(3)]
    by (auto simp: not_less [symmetric])
  then show "InternalKey_Compare ucmp (LookupKey_internal_key ?k) (InternalKey v s' t) \<le> 0 \<longleftrightarrow> s' \<le> s"
    by (simp add: InternalKey_Compare_le LookupKey_internal assms(4))
  show "length (lk_buf ?k) \<le> lk_capacity ?k"
    using length_EncodeVarint32 [of "word_of_nat (length ?u + 8)"]
    by (auto simp: LookupKey_init_def Let_def split: option.splits)
  have "lk_buf ?k = EncodeVarint32 (word_of_nat (length ?u + 8)) @ enc_ikey ?u s kValueTypeForSeek"
    by (auto simp: LookupKey_init_def Let_def enc_ikey_def split: option.split)
  then have "lk_buf ?k = EncodeLengthPrefixed (LookupKey_internal_key ?k)"
    unfolding LookupKey_internal EncodeLengthPrefixed_def PutLengthPrefixedSlice_def PutVarint32_def by simp
  then show "GetLengthPrefixedSlice (LookupKey_memtable_key ?k) = Some (LookupKey_internal_key ?k, [])"
    using lprefixed.dec_enc_Nil [of "LookupKey_internal_key ?k"] assms(5)
    by (simp add: LookupKey_memtable_key_def LookupKey_internal)
  show "LookupKey_user_key ?k = ?u"
    by (auto simp: LookupKey_user_key_def LookupKey_init_def Let_def split: option.split)
qed

theorem lookup_key_seek_witness:
  "InternalKey_Compare Bytewise_Compare (LookupKey_internal_key (LookupKey_init [1] 5 None)) (InternalKey [1] 3 kTypeValue) \<le> 0 \<and>
   \<not> InternalKey_Compare Bytewise_Compare (LookupKey_internal_key (LookupKey_init [1] 5 None)) (InternalKey [1] 6 kTypeValue) \<le> 0"
proof -
  have "(5 :: u64) \<le> kMaxSequenceNumber" "(3 :: u64) \<le> kMaxSequenceNumber" "(6 :: u64) \<le> kMaxSequenceNumber"
    "IsValueType kTypeValue" "Bytewise_Compare [1] [1] = 0"
    by (simp_all add: kMaxSequenceNumber_def IsValueType_def compare_defs)
  then show ?thesis
    using lookup_key_seek [of 5 3 kTypeValue Bytewise_Compare "[1]" None "[1]"]
      lookup_key_seek [of 5 6 kTypeValue Bytewise_Compare "[1]" None "[1]"] by simp
qed

section \<open>Range tombstones and their bounds\<close>

lemma kMax_less: "s < kMaxSequenceNumber \<Longrightarrow> s \<le> kMaxSequenceNumber"
  by simp

lemma SerializeEndKey_plain: "rt_ts t = [] \<Longrightarrow>
    RangeTombstone_SerializeEndKey t = enc_ikey (rt_end_key t) kMaxSequenceNumber kTypeRangeDeletion"
  by (simp add: RangeTombstone_SerializeEndKey_def)

lemma SerializeEndKey_ts: "length (rt_ts t) = 8 \<Longrightarrow> RangeTombstone_SerializeEndKey t =
    enc_ikey (take (length (rt_end_key t) - 8) (rt_end_key t) @ replicate 8 0xff) kMaxSequenceNumber kTypeRangeDeletion"
  by (auto simp: RangeTombstone_SerializeEndKey_def Let_def InternalKey_ts_ikey)

lemma ts_max: "DecodeFixed64 (replicate 8 0xff) = - 1"
proof -
  have "EncodeFixed64 (- 1) = replicate 8 0xff"
    by (rule nth_equalityI) (auto simp: EncodeFixed64_def le_bytes_nth intro!: bit_eqI
        simp: bit_ucast_iff bit_drop_bit_eq bit_masks bit_mask_iff)
  then show ?thesis by (metis Decode_EncodeFixed64)
qed

lemma U64Ts_max_less:
  assumes "8 \<le> length v"
  shows "U64Ts_Compare v (e @ replicate 8 0xff) < 0 \<longleftrightarrow>
    lex_cmp (StripTimestampFromUserKey v 8) e < 0"
proof -
  have "StripTimestampFromUserKey (e @ replicate 8 0xff) 8 = e"
    "ExtractTimestampFromUserKey (e @ replicate 8 0xff) 8 = replicate 8 0xff"
    by (simp_all add: StripTimestampFromUserKey_def ExtractTimestampFromUserKey_def)
  then show ?thesis by (auto simp: U64Ts_Compare_lex Let_def ts_max)
qed

text \<open>
  C10. A range tombstone ends before its end key: for every internal key with a sequence number below the
  maximum, comparing less than the serialized end key is the same as having a user key less than the
  tombstone's end key; with 64-bit timestamps, a user key whose part without timestamp is less. A
  tombstone without timestamp is recovered from what \<^verbatim>\<open>Serialize\<close> returns.
\<close>

theorem tombstone_end_exclusive:
  assumes "s < kMaxSequenceNumber"
  shows "(rt_ts t = [] \<longrightarrow>
      (InternalKey_Compare ucmp (InternalKey v s ty) (RangeTombstone_SerializeEndKey t) < 0 \<longleftrightarrow>
        ucmp v (rt_end_key t) < 0)) \<and>
    (length (rt_ts t) = 8 \<longrightarrow> 8 \<le> length v \<longrightarrow> 8 \<le> length (rt_end_key t) \<longrightarrow>
      (InternalKey_Compare U64Ts_Compare (InternalKey v s ty) (RangeTombstone_SerializeEndKey t) < 0 \<longleftrightarrow>
        U64Ts_CompareWithoutTimestamp v True (rt_end_key t) True < 0)) \<and>
    (rt_ts t = [] \<longrightarrow> rt_seq t \<le> kMaxSequenceNumber \<longrightarrow>
      (\<exists>p. ParseInternalKey (fst (RangeTombstone_Serialize t)) = Inr p \<and>
        RangeTombstone_parsed p (snd (RangeTombstone_Serialize t)) = t))"
proof (intro conjI impI)
  assume "rt_ts t = []"
  then show "InternalKey_Compare ucmp (InternalKey v s ty) (RangeTombstone_SerializeEndKey t) < 0 \<longleftrightarrow>
        ucmp v (rt_end_key t) < 0"
    using assms by (auto simp: SerializeEndKey_plain Compare_enc_less)
next
  assume "length (rt_ts t) = 8" "8 \<le> length v" "8 \<le> length (rt_end_key t)"
  then show "InternalKey_Compare U64Ts_Compare (InternalKey v s ty) (RangeTombstone_SerializeEndKey t) < 0 \<longleftrightarrow>
        U64Ts_CompareWithoutTimestamp v True (rt_end_key t) True < 0"
    using assms
    by (auto simp: SerializeEndKey_ts Compare_enc_less U64Ts_max_less U64Ts_CompareWithoutTimestamp_def
        compare_defs StripTimestampFromUserKey_def)
next
  assume "rt_ts t = []" "rt_seq t \<le> kMaxSequenceNumber"
  then show "\<exists>p. ParseInternalKey (fst (RangeTombstone_Serialize t)) = Inr p \<and>
        RangeTombstone_parsed p (snd (RangeTombstone_Serialize t)) = t"
    by (simp add: RangeTombstone_Serialize_def Parse_ikey IsExtendedValueType_def RangeTombstone_parsed_def
        parsed_key_def)
qed

theorem tombstone_end_exclusive_witness:
  "InternalKey_Compare Bytewise_Compare (InternalKey [1] 5 kTypeValue)
     (RangeTombstone_SerializeEndKey (RangeTombstone_init [0] [2] 9)) < 0 \<and>
   \<not> InternalKey_Compare Bytewise_Compare (InternalKey [2] 5 kTypeValue)
     (RangeTombstone_SerializeEndKey (RangeTombstone_init [0] [2] 9)) < 0"
proof -
  have "(5 :: u64) < kMaxSequenceNumber" by (simp add: kMaxSequenceNumber_def)
  from tombstone_end_exclusive [OF this, of "RangeTombstone_init [0] [2] 9" Bytewise_Compare]
  show ?thesis by (simp add: RangeTombstone_init_def compare_defs)
qed

text \<open>A key with the maximal sequence number and a larger type still precedes the serialized end key.\<close>

lemma end_key_not_minimal:
  "InternalKey_Compare Bytewise_Compare (SetMinPossibleForUserKey [] u)
     (RangeTombstone_SerializeEndKey (RangeTombstone_init sk u seq)) < 0"
  by (simp add: SetMinPossibleForUserKey_def AppendInternalKey_ikey parsed_key_def SerializeEndKey_plain
      RangeTombstone_init_def Compare_enc_less compare_defs)

lemma min_possible_not_minimal:
  "InternalKey_Compare Bytewise_Compare (InternalKey u kMaxSequenceNumber kTypeMaxValid)
     (SetMinPossibleForUserKey [] u) < 0 \<and> InternalKey_Valid (InternalKey u kMaxSequenceNumber kTypeMaxValid)"
  by (simp add: SetMinPossibleForUserKey_def AppendInternalKey_ikey parsed_key_def Compare_enc_less compare_defs
      InternalKey_Valid_def Parse_ikey IsExtendedValueType_def)

end
