(* ===== verification/Iter_Key.thy ===== *)
theory Iter_Key
  imports Dbformat
begin

text \<open>
  The class \<^verbatim>\<open>IterKey\<close> of \<^verbatim>\<open>db/dbformat.h\<close>: a key held by an iterator, either copied into an inline or heap
  buffer or pinned in external memory. The lemmas show that no write leaves the buffer, that every
  operation keeps the key readable, and what bytes each operation produces.
\<close>

unbundle bit_operations_syntax

section \<open>IterKey\<close>

text \<open>
  \<open>ik_buf\<close> holds the bytes written to \<^verbatim>\<open>buf_\<close> since it was allocated (the rest of its \<open>ik_buf_size\<close> bytes
  is uninitialised), \<open>ik_ext\<close> the external memory \<^verbatim>\<open>key_\<close> points to when the key is pinned.
\<close>

record IterKey =
  ik_buf :: slice
  ik_ext :: "slice option"
  ik_key_size :: nat
  ik_buf_size :: nat
  ik_is_user_key :: bool

definition IterKey_init :: IterKey where
  "IterKey_init = \<lparr>ik_buf = [], ik_ext = None, ik_key_size = 0, ik_buf_size = 39, ik_is_user_key = True\<rparr>"

definition IsKeyPinned :: "IterKey \<Rightarrow> bool" where
  "IsKeyPinned k \<longleftrightarrow> ik_ext k \<noteq> None"

definition key_bytes :: "IterKey \<Rightarrow> slice" where
  "key_bytes k = (case ik_ext k of None \<Rightarrow> ik_buf k | Some e \<Rightarrow> e)"

definition GetKey :: "IterKey \<Rightarrow> slice" where
  "GetKey k = take (ik_key_size k) (key_bytes k)"

definition GetUserKey :: "IterKey \<Rightarrow> slice" where
  "GetUserKey k =
     (if ik_is_user_key k then take (ik_key_size k) (key_bytes k)
      else take (ik_key_size k - kNumInternalBytes) (key_bytes k))"

definition SetIsUserKey :: "bool \<Rightarrow> IterKey \<Rightarrow> IterKey" where
  "SetIsUserKey is_user_key k = k\<lparr>ik_is_user_key := is_user_key\<rparr>"

definition IterKey_Clear :: "IterKey \<Rightarrow> IterKey" where
  "IterKey_Clear k = k\<lparr>ik_key_size := 0\<rparr>"

text \<open>\<^verbatim>\<open>memcpy(buf + off, data, n)\<close> on the written bytes.\<close>

definition write_at :: "nat \<Rightarrow> slice \<Rightarrow> slice \<Rightarrow> slice" where
  "write_at off data buf = take off buf @ data @ drop (off + length data) buf"

definition EnlargeBuffer :: "nat \<Rightarrow> IterKey \<Rightarrow> IterKey" where
  "EnlargeBuffer key_size k = k\<lparr>ik_buf := [], ik_buf_size := key_size, ik_key_size := 0\<rparr>"

definition EnlargeBufferIfNeeded :: "nat \<Rightarrow> IterKey \<Rightarrow> IterKey" where
  "EnlargeBufferIfNeeded key_size k = (if key_size > ik_buf_size k then EnlargeBuffer key_size k else k)"

definition TrimAppend :: "nat \<Rightarrow> slice \<Rightarrow> IterKey \<Rightarrow> IterKey" where
  "TrimAppend shared_len non_shared_data k =
     (let total_size = shared_len + length non_shared_data;
          k1 = (if IsKeyPinned k then
                  (let k0 = EnlargeBufferIfNeeded total_size k
                   in k0\<lparr>ik_buf := write_at 0 (take shared_len (key_bytes k)) (ik_buf k0)\<rparr>)
                else if total_size > ik_buf_size k then
                  k\<lparr>ik_buf := take shared_len (key_bytes k), ik_buf_size := total_size\<rparr>
                else k)
      in k1\<lparr>ik_buf := write_at shared_len non_shared_data (ik_buf k1), ik_ext := None,
            ik_key_size := total_size\<rparr>)"

definition SetKeyImpl :: "slice \<Rightarrow> bool \<Rightarrow> IterKey \<Rightarrow> IterKey" where
  "SetKeyImpl key copy k =
     (let size = length key in
      if copy then
        (let k0 = EnlargeBufferIfNeeded size k
         in k0\<lparr>ik_buf := write_at 0 key (ik_buf k0), ik_ext := None, ik_key_size := size\<rparr>)
      else k\<lparr>ik_ext := Some key, ik_key_size := size\<rparr>)"

definition SetKey :: "slice \<Rightarrow> bool \<Rightarrow> IterKey \<Rightarrow> IterKey" where
  "SetKey key copy k = SetKeyImpl key copy k"

definition SetUserKey :: "slice \<Rightarrow> bool \<Rightarrow> IterKey \<Rightarrow> IterKey" where
  "SetUserKey key copy k = SetKeyImpl key copy (k\<lparr>ik_is_user_key := True\<rparr>)"

definition SetInternalKey :: "slice \<Rightarrow> bool \<Rightarrow> IterKey \<Rightarrow> IterKey" where
  "SetInternalKey key copy k = SetKeyImpl key copy (k\<lparr>ik_is_user_key := False\<rparr>)"

definition SetInternalKey_ikey :: "slice \<Rightarrow> ParsedInternalKey \<Rightarrow> IterKey \<Rightarrow> IterKey \<times> ParsedInternalKey" where
  "SetInternalKey_ikey key ikey k =
     (let key_n = length key; k' = SetInternalKey key True k
      in (k', ikey\<lparr>pik_user_key := take (key_n - kNumInternalBytes) (key_bytes k')\<rparr>))"

definition SetInternalKey_parts ::
  "slice \<Rightarrow> slice \<Rightarrow> SequenceNumber \<Rightarrow> ValueType \<Rightarrow> slice option \<Rightarrow> IterKey \<Rightarrow> IterKey" where
  "SetInternalKey_parts key_prefix user_key s value_type ts k =
     (let psize = length key_prefix; usize = length user_key;
          ts_sz = (case ts of None \<Rightarrow> 0 | Some t \<Rightarrow> length t);
          k0 = EnlargeBufferIfNeeded (psize + usize + 8 + ts_sz) k;
          buf = ik_buf k0;
          buf = (if psize > 0 then write_at 0 key_prefix buf else buf);
          buf = write_at psize user_key buf;
          buf = (case ts of None \<Rightarrow> buf | Some t \<Rightarrow> write_at (psize + usize) t buf);
          buf = write_at (usize + psize + ts_sz)
                  (EncodeFixed64 (PackSequenceAndType s value_type)) buf
      in k0\<lparr>ik_buf := buf, ik_ext := None, ik_key_size := psize + usize + 8 + ts_sz,
            ik_is_user_key := False\<rparr>)"

definition SetInternalKey_parsed :: "slice \<Rightarrow> ParsedInternalKey \<Rightarrow> IterKey \<Rightarrow> IterKey" where
  "SetInternalKey_parsed key_prefix p k =
     SetInternalKey_parts key_prefix (pik_user_key p) (pik_sequence p) (pik_type p) None k"

definition IterKey_Reserve :: "nat \<Rightarrow> IterKey \<Rightarrow> IterKey" where
  "IterKey_Reserve n k = (EnlargeBufferIfNeeded n k)\<lparr>ik_key_size := n\<rparr>"

definition OwnKey :: "IterKey \<Rightarrow> IterKey" where
  "OwnKey k =
     (let k0 = IterKey_Reserve (ik_key_size k) k
      in k0\<lparr>ik_buf := write_at 0 (take (ik_key_size k0) (key_bytes k)) (ik_buf k0), ik_ext := None\<rparr>)"

definition IterKey_UpdateInternalKey :: "u64 \<Rightarrow> ValueType \<Rightarrow> slice option \<Rightarrow> IterKey \<Rightarrow> IterKey" where
  "IterKey_UpdateInternalKey seq t ts k =
     (let buf = (case ts of None \<Rightarrow> ik_buf k
                 | Some ts \<Rightarrow> write_at (ik_key_size k - kNumInternalBytes - length ts) ts (ik_buf k));
          newval = push_bit 8 seq OR ucast t
      in k\<lparr>ik_buf := write_at (ik_key_size k - kNumInternalBytes) (EncodeFixed64 newval) buf\<rparr>)"

definition EncodeLengthPrefixedKey :: "slice \<Rightarrow> IterKey \<Rightarrow> IterKey" where
  "EncodeLengthPrefixedKey key k =
     (let size = length key;
          k0 = EnlargeBufferIfNeeded (size + VarintLength (word_of_nat size)) k;
          ptr = EncodeVarint32 (word_of_nat size)
      in k0\<lparr>ik_buf := write_at (length ptr) key (write_at 0 ptr (ik_buf k0)), ik_ext := None,
            ik_is_user_key := True\<rparr>)"

definition MaybeAddKeyPartsWithTimestamp ::
  "slice \<Rightarrow> bool \<Rightarrow> nat \<Rightarrow> slice \<Rightarrow> slice list \<times> bool \<Rightarrow> slice list \<times> bool" where
  "MaybeAddKeyPartsWithTimestamp data add_timestamp left_sz min_timestamp st =
     (let (key_parts, ts_added) = st in
      if add_timestamp \<and> \<not> ts_added
      then (key_parts @ [take left_sz data, min_timestamp, drop left_sz data], True)
      else (key_parts @ [data], ts_added))"

text \<open>The unsigned differences are used only where the code's branch makes them non-negative.\<close>

definition TrimAppendWithTimestamp :: "nat \<Rightarrow> slice \<Rightarrow> nat \<Rightarrow> IterKey \<Rightarrow> IterKey" where
  "TrimAppendWithTimestamp shared_len non_shared_data ts_sz k =
     (let kTsMin = replicate ts_sz 0;
          non_shared_len = length non_shared_data;
          key = key_bytes k;
          parts =
            (if ik_is_user_key k then [take shared_len key, non_shared_data, kTsMin]
             else
               (let user_key_len = ik_key_size k - kNumInternalBytes;
                    sharable_user_key_len = user_key_len - ts_sz;
                    shared_user_key_len = min shared_len sharable_user_key_len;
                    shared_internal_bytes_len = shared_len - shared_user_key_len;
                    st = ([], False);
                    st = MaybeAddKeyPartsWithTimestamp (take shared_user_key_len key)
                           (shared_internal_bytes_len + non_shared_len < kNumInternalBytes)
                           (shared_len + non_shared_len - kNumInternalBytes) kTsMin st;
                    st = MaybeAddKeyPartsWithTimestamp
                           (take shared_internal_bytes_len (drop user_key_len key))
                           (non_shared_len < kNumInternalBytes)
                           (shared_internal_bytes_len + non_shared_len - kNumInternalBytes) kTsMin st;
                    st = MaybeAddKeyPartsWithTimestamp non_shared_data
                           (non_shared_len \<ge> kNumInternalBytes)
                           (non_shared_len - kNumInternalBytes) kTsMin st
                in fst st))
      in SetKey (concat parts) True k)"

section \<open>Buffers and contents\<close>

text \<open>The written bytes fit the buffer and the key's bytes are all initialised.\<close>

definition IterKey_inv :: "IterKey \<Rightarrow> bool" where
  "IterKey_inv k \<longleftrightarrow> length (ik_buf k) \<le> ik_buf_size k \<and> ik_key_size k \<le> length (key_bytes k)"

lemma length_write_at: "off \<le> length buf \<Longrightarrow> length (write_at off data buf) = max (length buf) (off + length data)"
  by (auto simp: write_at_def)

lemma take_write_at: "off \<le> length buf \<Longrightarrow> take (off + length data) (write_at off data buf) = take off buf @ data"
  by (simp add: write_at_def)

lemma write_at_0: "write_at 0 data buf = data @ drop (length data) buf"
  by (simp add: write_at_def)

lemma Enlarge_size: "n \<le> ik_buf_size (EnlargeBufferIfNeeded n k)"
  by (simp add: EnlargeBufferIfNeeded_def EnlargeBuffer_def)

lemma Enlarge_simps [simp]:
  "ik_ext (EnlargeBufferIfNeeded n k) = ik_ext k"
  "ik_is_user_key (EnlargeBufferIfNeeded n k) = ik_is_user_key k"
  by (simp_all add: EnlargeBufferIfNeeded_def EnlargeBuffer_def)

lemma Enlarge_buf: "IterKey_inv k \<Longrightarrow>
    length (ik_buf (EnlargeBufferIfNeeded n k)) \<le> ik_buf_size (EnlargeBufferIfNeeded n k)"
  by (simp add: EnlargeBufferIfNeeded_def EnlargeBuffer_def IterKey_inv_def)

lemma SetKeyImpl_ok:
  assumes "IterKey_inv k"
  shows "IterKey_inv (SetKeyImpl key copy k)" and "GetKey (SetKeyImpl key copy k) = key"
    and "IsKeyPinned (SetKeyImpl key copy k) \<longleftrightarrow> \<not> copy"
proof -
  let ?e = "EnlargeBufferIfNeeded (length key) k"
  have "length key + (length (ik_buf ?e) - length key) \<le> ik_buf_size ?e"
    using Enlarge_buf [OF assms, of "length key"] Enlarge_size [of "length key" k] by linarith
  then show "IterKey_inv (SetKeyImpl key copy k)" "GetKey (SetKeyImpl key copy k) = key"
    "IsKeyPinned (SetKeyImpl key copy k) \<longleftrightarrow> \<not> copy"
    using assms
    by (auto simp: SetKeyImpl_def Let_def IterKey_inv_def key_bytes_def GetKey_def IsKeyPinned_def write_at_0)
qed

lemma TrimAppend_ok:
  assumes k: "IterKey_inv k" and shared: "shared_len \<le> ik_key_size k"
  shows "IterKey_inv (TrimAppend shared_len d k)" and "GetKey (TrimAppend shared_len d k) = take shared_len (GetKey k) @ d"
    and "\<not> IsKeyPinned (TrimAppend shared_len d k)"
proof -
  let ?n = "shared_len + length d"
  have le: "shared_len \<le> length (key_bytes k)" using assms by (simp add: IterKey_inv_def)
  have out: "IterKey_inv r \<and> GetKey r = take shared_len (GetKey k) @ d \<and> \<not> IsKeyPinned r"
    if r: "r = m\<lparr>ik_buf := write_at shared_len d (ik_buf m), ik_ext := None, ik_key_size := ?n\<rparr>"
      and m: "shared_len \<le> length (ik_buf m)" "take shared_len (ik_buf m) = take shared_len (key_bytes k)"
        "length (ik_buf m) \<le> ik_buf_size m" "?n \<le> ik_buf_size m" for m r
    using m take_write_at [OF m(1), of d] length_write_at [OF m(1), of d] shared
    by (simp add: r IterKey_inv_def key_bytes_def GetKey_def IsKeyPinned_def min_def)
  have "IterKey_inv (TrimAppend shared_len d k) \<and>
      GetKey (TrimAppend shared_len d k) = take shared_len (GetKey k) @ d \<and> \<not> IsKeyPinned (TrimAppend shared_len d k)"
  proof (cases "IsKeyPinned k")
    case True
    let ?e = "EnlargeBufferIfNeeded ?n k"
    show ?thesis
      by (rule out [of _ "?e\<lparr>ik_buf := write_at 0 (take shared_len (key_bytes k)) (ik_buf ?e)\<rparr>"])
        (use True le Enlarge_buf [OF k, of ?n] Enlarge_size [of ?n k] in \<open>auto simp: TrimAppend_def Let_def write_at_0\<close>)
  next
    case False
    then have own: "key_bytes k = ik_buf k" by (simp add: IsKeyPinned_def key_bytes_def)
    show ?thesis
      by (rule out [of _ "if ?n > ik_buf_size k
            then k\<lparr>ik_buf := take shared_len (key_bytes k), ik_buf_size := ?n\<rparr> else k"])
        (use False le own k in \<open>auto simp: TrimAppend_def Let_def IterKey_inv_def\<close>)
  qed
  then show "IterKey_inv (TrimAppend shared_len d k)" "GetKey (TrimAppend shared_len d k) = take shared_len (GetKey k) @ d"
    "\<not> IsKeyPinned (TrimAppend shared_len d k)" by simp_all
qed

text \<open>\<open>holds n w b\<close>: the written bytes \<open>b\<close> fit \<open>n\<close> bytes and begin with \<open>w\<close>. Consecutive writes append.\<close>

definition holds :: "nat \<Rightarrow> slice \<Rightarrow> slice \<Rightarrow> bool" where
  "holds n w b \<longleftrightarrow> length b \<le> n \<and> (\<exists>r. b = w @ r)"

lemma holds_write:
  assumes "holds n w b" and "off = length w" and "length w + length d \<le> n"
  shows "holds n (w @ d) (write_at off d b)"
  using assms by (auto simp: holds_def write_at_def)

lemma holds_key:
  "holds (ik_buf_size k) w (ik_buf k) \<Longrightarrow> ik_ext k = None \<Longrightarrow> ik_key_size k = length w \<Longrightarrow>
     IterKey_inv k \<and> GetKey k = w"
  by (auto simp: holds_def IterKey_inv_def key_bytes_def GetKey_def)

lemma SetInternalKey_parts_ok:
  assumes "IterKey_inv k"
  shows "IterKey_inv (SetInternalKey_parts p u s t ts k) \<and>
    GetKey (SetInternalKey_parts p u s t ts k) = p @ enc_ikey (u @ (case ts of None \<Rightarrow> [] | Some x \<Rightarrow> x)) s t"
proof (rule holds_key)
  let ?x = "case ts of None \<Rightarrow> [] | Some x \<Rightarrow> x"
  let ?n = "length p + length u + 8 + (case ts of None \<Rightarrow> 0 | Some x \<Rightarrow> length x)"
  let ?f = "EncodeFixed64 (PackSequenceAndType s t)"
  define k0 where "k0 = EnlargeBufferIfNeeded ?n k"
  have n: "?n \<le> ik_buf_size k0" by (simp add: k0_def Enlarge_size)
  have "holds (ik_buf_size k0) [] (ik_buf k0)"
    using Enlarge_buf [OF assms] by (simp add: holds_def k0_def)
  then have 1: "holds (ik_buf_size k0) p (if length p > 0 then write_at 0 p (ik_buf k0) else ik_buf k0)"
    using holds_write [of "ik_buf_size k0" "[]" "ik_buf k0" 0 p] n by simp
  from holds_write [OF this refl, of u] n
  have 2: "holds (ik_buf_size k0) (p @ u) (write_at (length p) u
      (if length p > 0 then write_at 0 p (ik_buf k0) else ik_buf k0))" (is "holds _ _ ?b2") by simp
  have 3: "holds (ik_buf_size k0) ((p @ u) @ ?x)
      (case ts of None \<Rightarrow> ?b2 | Some x \<Rightarrow> write_at (length p + length u) x ?b2)"
    using 2 holds_write [OF 2, of "length p + length u"] n by (cases ts) simp_all
  have "holds (ik_buf_size k0) (((p @ u) @ ?x) @ ?f) (write_at (length u + length p + (case ts of None \<Rightarrow> 0 | Some x \<Rightarrow> length x)) ?f
      (case ts of None \<Rightarrow> ?b2 | Some x \<Rightarrow> write_at (length p + length u) x ?b2))"
    by (rule holds_write [OF 3]) (use n in \<open>simp_all split: option.splits\<close>)
  then show "holds (ik_buf_size (SetInternalKey_parts p u s t ts k)) (p @ enc_ikey (u @ ?x) s t)
      (ik_buf (SetInternalKey_parts p u s t ts k))"
    by (cases "length p > 0"; cases ts) (simp_all add: SetInternalKey_parts_def Let_def k0_def enc_ikey_def)
  show "ik_ext (SetInternalKey_parts p u s t ts k) = None"
    "ik_key_size (SetInternalKey_parts p u s t ts k) = length (p @ enc_ikey (u @ ?x) s t)"
    by (simp_all add: SetInternalKey_parts_def Let_def split: option.split)
qed

lemma OwnKey_ok:
  assumes "IterKey_inv k" and "IsKeyPinned k"
  shows "IterKey_inv (OwnKey k)" and "GetKey (OwnKey k) = GetKey k" and "\<not> IsKeyPinned (OwnKey k)"
proof -
  let ?n = "ik_key_size k"
  let ?e = "EnlargeBufferIfNeeded ?n k"
  have "holds (ik_buf_size ?e) [] (ik_buf ?e)" using Enlarge_buf [OF assms(1)] by (simp add: holds_def)
  from holds_write [OF this, of 0 "take ?n (key_bytes k)"] Enlarge_size [of ?n k]
  have "holds (ik_buf_size ?e) (take ?n (key_bytes k)) (write_at 0 (take ?n (key_bytes k)) (ik_buf ?e))" by simp
  then have "IterKey_inv (OwnKey k) \<and> GetKey (OwnKey k) = take ?n (key_bytes k)"
    using assms(1) by (intro holds_key) (simp_all add: OwnKey_def IterKey_Reserve_def Let_def IterKey_inv_def)
  then show "IterKey_inv (OwnKey k)" "GetKey (OwnKey k) = GetKey k" by (simp_all add: GetKey_def)
  show "\<not> IsKeyPinned (OwnKey k)" by (simp add: OwnKey_def Let_def IsKeyPinned_def)
qed

lemma take_prefixE:
  assumes "take n b = w"
  obtains r where "b = w @ r"
  using assms append_take_drop_id by metis

lemma UpdateInternalKey_ok:
  assumes k: "IterKey_inv k" "\<not> IsKeyPinned k" "GetKey k = u @ ts0 @ f" "length f = 8"
    and ts: "length (case ts of None \<Rightarrow> ts0 | Some x \<Rightarrow> x) = length ts0"
  shows "IterKey_inv (IterKey_UpdateInternalKey seq t ts k)"
    and "GetKey (IterKey_UpdateInternalKey seq t ts k) = enc_ikey (u @ (case ts of None \<Rightarrow> ts0 | Some x \<Rightarrow> x)) seq t"
proof -
  have ext: "ik_ext k = None" using k(2) by (simp add: IsKeyPinned_def)
  have n: "ik_key_size k = length u + length ts0 + 8"
    using k(1,4) arg_cong [OF k(3), of length]
    by (auto simp: GetKey_def IterKey_inv_def min_def split: if_splits)
  obtain r where b: "ik_buf k = u @ ts0 @ f @ r"
    using take_prefixE [of "ik_key_size k" "ik_buf k" "u @ ts0 @ f"] k(3) ext by (auto simp: GetKey_def key_bytes_def)
  have le: "length u + length ts0 + 8 + length r \<le> ik_buf_size k"
    using k(1,4) b by (simp add: IterKey_inv_def)
  have "holds (ik_buf_size k) (enc_ikey (u @ (case ts of None \<Rightarrow> ts0 | Some x \<Rightarrow> x)) seq t)
      (ik_buf (IterKey_UpdateInternalKey seq t ts k))"
    using ts le k(4)
    by (cases ts) (simp_all add: IterKey_UpdateInternalKey_def Let_def n b write_at_def holds_def enc_ikey_def
        PackSequenceAndType_def)
  then have "IterKey_inv (IterKey_UpdateInternalKey seq t ts k) \<and>
      GetKey (IterKey_UpdateInternalKey seq t ts k) = enc_ikey (u @ (case ts of None \<Rightarrow> ts0 | Some x \<Rightarrow> x)) seq t"
    by (intro holds_key) (use n ext ts in \<open>simp_all add: IterKey_UpdateInternalKey_def Let_def\<close>)
  then show "IterKey_inv (IterKey_UpdateInternalKey seq t ts k)"
    "GetKey (IterKey_UpdateInternalKey seq t ts k) = enc_ikey (u @ (case ts of None \<Rightarrow> ts0 | Some x \<Rightarrow> x)) seq t"
    by simp_all
qed

section \<open>Keys with a stripped timestamp\<close>

lemma Pad_split:
  assumes "length f = 8"
  shows "PadInternalKeyWithMinTimestamp [] (a @ f) ts_sz = a @ replicate ts_sz 0 @ f"
  using assms by (simp add: PadInternalKeyWithMinTimestamp_def Let_def)

lemma Strip_split:
  assumes "length f = 8" "length ts = ts_sz"
  shows "StripTimestampFromInternalKey [] (u @ ts @ f) ts_sz = u @ f"
  using assms by (simp add: StripTimestampFromInternalKey_def)

text \<open>The three calls put the timestamp eight bytes before the end of the concatenation.\<close>

lemma three_parts:
  fixes a b d z :: slice
  assumes "8 \<le> length a + length b + length d"
  shows "concat (fst
     (MaybeAddKeyPartsWithTimestamp d (length d \<ge> 8) (length d - 8) z
       (MaybeAddKeyPartsWithTimestamp b (length d < 8) (length b + length d - 8) z
         (MaybeAddKeyPartsWithTimestamp a (length b + length d < 8) (length a + length b + length d - 8) z ([], False))))) =
     take (length (a @ b @ d) - 8) (a @ b @ d) @ z @ drop (length (a @ b @ d) - 8) (a @ b @ d)"
proof -
  consider "length b + length d < 8" | "\<not> length b + length d < 8" "length d < 8" | "8 \<le> length d" by linarith
  then show ?thesis
    using assms by cases (simp_all add: MaybeAddKeyPartsWithTimestamp_def Let_def add.assoc)
qed

lemma TrimAppendWithTimestamp_key:
  assumes k: "IterKey_inv k" "\<not> ik_is_user_key k"
    and key: "GetKey k = u @ ts @ f" "length f = 8" "length ts = ts_sz"
    and shared: "shared_len \<le> length u + 8" "8 \<le> shared_len + length d"
  shows "GetKey (TrimAppendWithTimestamp shared_len d ts_sz k) =
    PadInternalKeyWithMinTimestamp [] (take shared_len (u @ f) @ d) ts_sz"
proof -
  have n: "ik_key_size k = length u + ts_sz + 8"
    using k(1) key(2,3) arg_cong [OF key(1), of length]
    by (auto simp: GetKey_def IterKey_inv_def min_def split: if_splits)
  obtain r where r: "key_bytes k = u @ ts @ f @ r"
    using take_prefixE [of "ik_key_size k" "key_bytes k" "u @ ts @ f"] key(1) by (auto simp: GetKey_def)
  let ?su = "min shared_len (length u)"
  define a where "a = take ?su (key_bytes k)"
  define b where "b = take (shared_len - ?su) (drop (length u + ts_sz) (key_bytes k))"
  have a: "a = take shared_len u" by (simp add: a_def r min_def)
  have b: "b = take (shared_len - length u) f" using shared key by (auto simp: b_def r min_def)
  have ab: "a @ b = take shared_len (u @ f)" by (simp add: a b)
  have la: "length a = ?su" and lb: "length b = shared_len - ?su"
    using shared key by (auto simp: a b)
  have tot: "8 \<le> length a + length b + length d" "length a + length b = shared_len"
    using shared la lb by auto
  have "GetKey (TrimAppendWithTimestamp shared_len d ts_sz k) =
      concat (fst
     (MaybeAddKeyPartsWithTimestamp d (length d \<ge> 8) (length d - 8) (replicate ts_sz 0)
       (MaybeAddKeyPartsWithTimestamp b (length d < 8) (length b + length d - 8) (replicate ts_sz 0)
         (MaybeAddKeyPartsWithTimestamp a (length b + length d < 8) (length a + length b + length d - 8)
            (replicate ts_sz 0) ([], False)))))"
    using k tot(2) lb
    by (simp add: TrimAppendWithTimestamp_def Let_def SetKey_def SetKeyImpl_ok n a_def b_def)
  also have "\<dots> = PadInternalKeyWithMinTimestamp [] ((a @ b) @ d) ts_sz"
    unfolding three_parts [OF tot(1)] by (simp add: PadInternalKeyWithMinTimestamp_def Let_def)
  finally show ?thesis by (simp add: ab)
qed

text \<open>
  \<^verbatim>\<open>EncodeLengthPrefixedKey\<close> writes the length-prefixed key inside the buffer but leaves \<^verbatim>\<open>key_size_\<close> as it
  was, so its caller may use the pointer and not the size.
\<close>

lemma EncodeLengthPrefixedKey_ok:
  assumes "IterKey_inv k" and "length key < 2 ^ 32"
  shows "holds (ik_buf_size (EncodeLengthPrefixedKey key k)) (EncodeLengthPrefixed key)
    (ik_buf (EncodeLengthPrefixedKey key k))"
proof -
  let ?l = "EncodeVarint32 (word_of_nat (length key))"
  let ?n = "length key + VarintLength (word_of_nat (length key))"
  let ?e = "EnlargeBufferIfNeeded ?n k"
  have "(ucast (word_of_nat (length key) :: u32) :: u64) = word_of_nat (length key)"
    using assms(2) by (simp add: word_unat_eq_iff unat_of_nat unsigned_ucast_eq take_bit_nat_eq_self)
  then have len: "length ?l = VarintLength (word_of_nat (length key))"
    by (simp add: EncodeVarint32_loop VarintLength_eq)
  have n: "?n \<le> ik_buf_size ?e" by (rule Enlarge_size)
  have "holds (ik_buf_size ?e) [] (ik_buf ?e)" using Enlarge_buf [OF assms(1)] by (simp add: holds_def)
  from holds_write [OF this, of 0 ?l] n len have "holds (ik_buf_size ?e) ?l (write_at 0 ?l (ik_buf ?e))" by simp
  from holds_write [OF this refl, of key] n len
  have "holds (ik_buf_size ?e) (?l @ key) (write_at (length ?l) key (write_at 0 ?l (ik_buf ?e)))" by simp
  then show ?thesis
    by (simp add: EncodeLengthPrefixedKey_def Let_def EncodeLengthPrefixed_def PutLengthPrefixedSlice_def PutVarint32_def)
qed





end
