(* ===== verification/Log_Format.thy ===== *)
theory Log_Format
  imports Crc32c Dbformat
begin

text \<open>
  The write-ahead log: \<^verbatim>\<open>db/log_format.h\<close>, \<^verbatim>\<open>db/log_writer.cc\<close>, \<^verbatim>\<open>db/log_reader.cc\<close> (class \<^verbatim>\<open>Reader\<close>) and the
  metadata records of \<^verbatim>\<open>util/udt_util.h\<close> and \<^verbatim>\<open>util/compression.h\<close>. A log is a sequence of blocks of
  32768 bytes; a logical record is split into fragments that do not cross a block boundary.

  The file below the writer and the reader, and the streaming decompressor, are arguments of the
  definitions (records of functions), since they stand for the file system and a compression library.
  The writer is modelled without a compressor (\<^verbatim>\<open>compress_\<close> null), the reader without the optional
  running hash of the record (\<^verbatim>\<open>record_checksum\<close> null).
\<close>

unbundle bit_operations_syntax

section \<open>Record types\<close>

type_synonym RecordType = nat

abbreviation (input) kZeroType :: RecordType where "kZeroType \<equiv> 0"
abbreviation (input) kFullType :: RecordType where "kFullType \<equiv> 1"
abbreviation (input) kFirstType :: RecordType where "kFirstType \<equiv> 2"
abbreviation (input) kMiddleType :: RecordType where "kMiddleType \<equiv> 3"
abbreviation (input) kLastType :: RecordType where "kLastType \<equiv> 4"
abbreviation (input) kRecyclableFullType :: RecordType where "kRecyclableFullType \<equiv> 5"
abbreviation (input) kRecyclableFirstType :: RecordType where "kRecyclableFirstType \<equiv> 6"
abbreviation (input) kRecyclableMiddleType :: RecordType where "kRecyclableMiddleType \<equiv> 7"
abbreviation (input) kRecyclableLastType :: RecordType where "kRecyclableLastType \<equiv> 8"
abbreviation (input) kSetCompressionType :: RecordType where "kSetCompressionType \<equiv> 9"
abbreviation (input) kUserDefinedTimestampSizeType :: RecordType where "kUserDefinedTimestampSizeType \<equiv> 10"
abbreviation (input) kRecyclableUserDefinedTimestampSizeType :: RecordType
  where "kRecyclableUserDefinedTimestampSizeType \<equiv> 11"
abbreviation (input) kMaxRecordType :: RecordType where "kMaxRecordType \<equiv> 11"

text \<open>The reader extends the record types with its results.\<close>

abbreviation (input) kEof :: nat where "kEof \<equiv> 12"
abbreviation (input) kBadRecord :: nat where "kBadRecord \<equiv> 13"
abbreviation (input) kBadHeader :: nat where "kBadHeader \<equiv> 14"
abbreviation (input) kOldRecord :: nat where "kOldRecord \<equiv> 15"
abbreviation (input) kBadRecordLen :: nat where "kBadRecordLen \<equiv> 16"
abbreviation (input) kBadRecordChecksum :: nat where "kBadRecordChecksum \<equiv> 17"

definition kBlockSize :: nat where
  "kBlockSize = 32768"

abbreviation (input) kHeaderSize :: nat where "kHeaderSize \<equiv> 7"
abbreviation (input) kRecyclableHeaderSize :: nat where "kRecyclableHeaderSize \<equiv> 11"

section \<open>Metadata records\<close>

definition UserDefinedTimestampSizeRecord_EncodeTo :: "slice \<Rightarrow> (u32 \<times> nat) list \<Rightarrow> slice" where
  "UserDefinedTimestampSizeRecord_EncodeTo dst cf_to_ts_sz =
     fold (\<lambda>(cf_id, ts_sz) dst. PutFixed16 (PutFixed32 dst cf_id) (word_of_nat ts_sz)) cf_to_ts_sz dst"

text \<open>The decoders return the remaining source as well, which \<^verbatim>\<open>DecodeFrom(Slice* src)\<close> leaves in \<^verbatim>\<open>*src\<close>.\<close>

fun decode_ts_entries :: "nat \<Rightarrow> slice \<Rightarrow> (u32 \<times> nat) list \<Rightarrow> status \<times> (u32 \<times> nat) list \<times> slice" where
  "decode_ts_entries 0 src acc = (Status_OK, acc, src)"
| "decode_ts_entries (Suc n) src acc =
     (case GetFixed32 src of
        None \<Rightarrow> (Status_Corruption ''Error decoding user-defined timestamp size record entry'', acc, src)
      | Some (cf_id, src) \<Rightarrow>
          (case GetFixed16 src of
             None \<Rightarrow> (Status_Corruption ''Error decoding user-defined timestamp size record entry'', acc, src)
           | Some (ts_sz, src) \<Rightarrow> decode_ts_entries n src (acc @ [(cf_id, unat ts_sz)])))"

definition UserDefinedTimestampSizeRecord_DecodeFrom :: "slice \<Rightarrow> status \<times> (u32 \<times> nat) list \<times> slice" where
  "UserDefinedTimestampSizeRecord_DecodeFrom src =
     (let total_size = length src in
      if total_size mod 6 \<noteq> 0
      then (Status_Corruption ''User-defined timestamp size record length'', [], src)
      else decode_ts_entries (total_size div 6) src [])"

definition CompressionTypeRecord_EncodeTo :: "slice \<Rightarrow> u32 \<Rightarrow> slice" where
  "CompressionTypeRecord_EncodeTo dst compression_type = PutFixed32 dst compression_type"

definition CompressionTypeRecord_DecodeFrom :: "(u32 \<Rightarrow> bool) \<Rightarrow> slice \<Rightarrow> (status + u32) \<times> slice" where
  "CompressionTypeRecord_DecodeFrom supported src =
     (case GetFixed32 src of
        None \<Rightarrow> (Inl (Status_Corruption ''CompressionTypeRecord: Error decoding WAL compression type''), src)
      | Some (val, src) \<Rightarrow>
          if \<not> supported val
          then (Inl (Status_Corruption ''CompressionTypeRecord: WAL compression type not supported''), src)
          else (Inr val, src))"

section \<open>The writer\<close>

text \<open>The operations of \<^verbatim>\<open>WritableFileWriter\<close> that the writer calls.\<close>

record 'f dest_ops =
  do_append :: "'f \<Rightarrow> slice \<Rightarrow> 'f \<times> status"
  do_flush :: "'f \<Rightarrow> 'f \<times> status"
  do_seen_error :: "'f \<Rightarrow> bool"

record 'f log_writer =
  lw_dest :: 'f
  lw_block_offset :: nat
  lw_log_number :: u64
  lw_recycle_log_files :: bool
  lw_manual_flush :: bool
  lw_type_crc :: "u32 list"
  lw_recorded_cf_to_ts_sz :: "(u32 \<times> nat) list"

definition Writer_init :: "'f \<Rightarrow> u64 \<Rightarrow> bool \<Rightarrow> bool \<Rightarrow> 'f log_writer" where
  "Writer_init dest log_number recycle_log_files manual_flush =
     \<lparr>lw_dest = dest, lw_block_offset = 0, lw_log_number = log_number,
      lw_recycle_log_files = recycle_log_files, lw_manual_flush = manual_flush,
      lw_type_crc = map (\<lambda>i. Value [word_of_nat i]) [0..<Suc kMaxRecordType],
      lw_recorded_cf_to_ts_sz = []\<rparr>"

definition EmitPhysicalRecord ::
  "'f dest_ops \<Rightarrow> RecordType \<Rightarrow> slice \<Rightarrow> 'f log_writer \<Rightarrow> 'f log_writer \<times> status" where
  "EmitPhysicalRecord ops t ptr w =
     (let n = length ptr;
          len_type = [word_of_nat n AND 0xff, word_of_nat (n div 256), word_of_nat t];
          crc = lw_type_crc w ! t;
          log_num = EncodeFixed32 (ucast (lw_log_number w));
          (header_size, tail, crc) =
            (if t < kRecyclableFullType \<or> t = kSetCompressionType \<or> t = kUserDefinedTimestampSizeType
             then (kHeaderSize, len_type, crc)
             else (kRecyclableHeaderSize, len_type @ log_num, Extend crc log_num));
          payload_crc = Value ptr;
          crc = the (Crc32cCombine crc payload_crc n);
          crc = Mask crc;
          buf = EncodeFixed32 crc @ tail;
          (dest, s) = do_append ops (lw_dest w) buf;
          (dest, s) = (if ok s then do_append ops dest ptr else (dest, s))
      in (w\<lparr>lw_dest := dest, lw_block_offset := lw_block_offset w + (header_size + n)\<rparr>, s))"

text \<open>
  One turn of the loop of \<^verbatim>\<open>AddRecord\<close>, up to \<^verbatim>\<open>EmitPhysicalRecord\<close>: the trailer and the switch to a
  new block. \<^verbatim>\<open>kBlockSize - block_offset_\<close> is an unsigned difference assigned to \<^verbatim>\<open>int64_t\<close>.
\<close>

definition switch_block :: "'f dest_ops \<Rightarrow> 'f log_writer \<Rightarrow> 'f log_writer \<times> status" where
  "switch_block ops w =
     (let header_size = (if lw_recycle_log_files w then kRecyclableHeaderSize else kHeaderSize);
          leftover = int kBlockSize - int (lw_block_offset w)
      in if leftover < int header_size then
           (if leftover > 0 then
              (let (dest, s) = do_append ops (lw_dest w) (replicate (nat leftover) 0) in
               if \<not> ok s then (w\<lparr>lw_dest := dest\<rparr>, s)
               else (w\<lparr>lw_dest := dest, lw_block_offset := 0\<rparr>, s))
            else (w\<lparr>lw_block_offset := 0\<rparr>, Status_OK))
         else (w, Status_OK))"

definition fragment_type :: "bool \<Rightarrow> bool \<Rightarrow> bool \<Rightarrow> RecordType" where
  "fragment_type recycle begin end' =
     (if begin \<and> end' then (if recycle then kRecyclableFullType else kFullType)
      else if begin then (if recycle then kRecyclableFirstType else kFirstType)
      else if end' then (if recycle then kRecyclableLastType else kLastType)
      else (if recycle then kRecyclableMiddleType else kMiddleType))"

abbreviation header_size_of :: "'f log_writer \<Rightarrow> nat" where
  "header_size_of w \<equiv> (if lw_recycle_log_files w then kRecyclableHeaderSize else kHeaderSize)"

lemma switch_block_fields:
  "switch_block ops w = (w', s) \<Longrightarrow> lw_recycle_log_files w' = lw_recycle_log_files w"
  by (auto simp: switch_block_def Let_def split: if_splits prod.splits)

lemma switch_block_room:
  assumes "switch_block ops w = (w', s)" "ok s"
  shows "lw_block_offset w' + header_size_of w' \<le> kBlockSize"
    and "lw_block_offset w' + header_size_of w' = kBlockSize \<Longrightarrow> lw_block_offset w' = lw_block_offset w"
  using assms by (auto simp: switch_block_def Let_def kBlockSize_def split: if_splits prod.splits)

lemma Emit_fields:
  assumes "EmitPhysicalRecord ops t p w = (w', s)"
  shows "lw_recycle_log_files w' = lw_recycle_log_files w"
    and "t = fragment_type (lw_recycle_log_files w) b e \<Longrightarrow>
      lw_block_offset w' = lw_block_offset w + header_size_of w + length p"
  using assms by (auto simp: EmitPhysicalRecord_def Let_def fragment_type_def split: if_splits prod.splits)

definition avail_in_block :: "'f log_writer \<Rightarrow> nat" where
  "avail_in_block w = kBlockSize - lw_block_offset w - header_size_of w"

function AddRecord_loop ::
  "'f dest_ops \<Rightarrow> slice \<Rightarrow> bool \<Rightarrow> 'f log_writer \<Rightarrow> 'f log_writer \<times> status" where
  "AddRecord_loop ops left begin w =
     (let (w, s) = switch_block ops w in
      if \<not> ok s then (w, s)
      else
        (let avail = avail_in_block w;
             fragment_length = (if length left < avail then length left else avail);
             end' = (length left = fragment_length);
             type = fragment_type (lw_recycle_log_files w) begin end';
             (w, s) = EmitPhysicalRecord ops type (take fragment_length left) w;
             left = drop fragment_length left
         in if ok s \<and> length left > 0 then AddRecord_loop ops left False w else (w, s)))"
  by pat_completeness auto
termination
proof (relation "measure (\<lambda>(ops, left, begin, w).
    2 * length left + (if lw_block_offset w + header_size_of w = kBlockSize then 1 else 0))", goal_cases)
  case (2 ops left b w x w1 s1 avail fl e type y w2 s2 left')
  have sw: "switch_block ops w = (w1, s1)" "ok s1" using 2 by simp_all
  have em: "EmitPhysicalRecord ops type (take fl left) w1 = (w2, s2)" using 2 by simp
  note room = switch_block_room [OF sw] and f1 = switch_block_fields [OF sw(1)]
  have off: "lw_block_offset w2 = lw_block_offset w1 + header_size_of w1 + fl"
    using Emit_fields(2) [OF em, of b e] 2 by simp
  have hs: "header_size_of w2 = header_size_of w1" using Emit_fields(1) [OF em] by simp
  have lt: "fl < length left" using 2 by simp
  then have fl: "fl = avail_in_block w1" using 2 by (simp split: if_splits)
  show ?case
  proof (cases "fl = 0")
    case True
    then have full: "lw_block_offset w1 + header_size_of w1 = kBlockSize"
      using fl room(1) by (simp add: avail_in_block_def)
    then have "lw_block_offset w + header_size_of w = kBlockSize" using room(2) f1 by simp
    moreover have "lw_block_offset w2 + header_size_of w2 \<noteq> kBlockSize" using off full hs True by simp
    ultimately show ?thesis using 2 True by simp
  next
    case False
    moreover have "left' = drop fl left" using 2 by simp
    ultimately have "length left' < length left" using lt by simp
    then show ?thesis by auto
  qed
qed simp

declare AddRecord_loop.simps [simp del]

definition AddRecord :: "'f dest_ops \<Rightarrow> slice \<Rightarrow> 'f log_writer \<Rightarrow> 'f log_writer \<times> status" where
  "AddRecord ops rec w =
     (let (w, s) = AddRecord_loop ops rec True w in
      if ok s \<and> \<not> lw_manual_flush w
      then (let (dest, s) = do_flush ops (lw_dest w) in (w\<lparr>lw_dest := dest\<rparr>, s))
      else (w, s))"

definition WriteBuffer :: "'f dest_ops \<Rightarrow> 'f log_writer \<Rightarrow> 'f log_writer \<times> status" where
  "WriteBuffer ops w =
     (if do_seen_error ops (lw_dest w)
      then (w, Status kIOError kNone ''Seen error. Skip writing buffer.'')
      else (let (dest, s) = do_flush ops (lw_dest w) in (w\<lparr>lw_dest := dest\<rparr>, s)))"

text \<open>The map from column family to timestamp size is an association list in iteration order.\<close>

definition ts_sz_to_record :: "(u32 \<times> nat) list \<Rightarrow> 'f log_writer \<Rightarrow> (u32 \<times> nat) list" where
  "ts_sz_to_record cf_to_ts_sz w =
     filter (\<lambda>(cf_id, ts_sz). map_of (lw_recorded_cf_to_ts_sz w) cf_id = None \<and> ts_sz \<noteq> 0) cf_to_ts_sz"

definition MaybeAddUserDefinedTimestampSizeRecord ::
  "'f dest_ops \<Rightarrow> (u32 \<times> nat) list \<Rightarrow> 'f log_writer \<Rightarrow> 'f log_writer \<times> status" where
  "MaybeAddUserDefinedTimestampSizeRecord ops cf_to_ts_sz w =
     (let todo = ts_sz_to_record cf_to_ts_sz w;
          w = w\<lparr>lw_recorded_cf_to_ts_sz := lw_recorded_cf_to_ts_sz w @ todo\<rparr>
      in if todo = [] then (w, Status_OK)
         else
           (let encoded = UserDefinedTimestampSizeRecord_EncodeTo [] todo;
                type = (if lw_recycle_log_files w then kRecyclableUserDefinedTimestampSizeType
                        else kUserDefinedTimestampSizeType)
            in EmitPhysicalRecord ops type encoded w))"

end
