(* ===== verification/Log_Reader.thy ===== *)
theory Log_Reader
  imports Log_Format
begin

text \<open>
  The log reader of \<^verbatim>\<open>db/log_reader.cc\<close>, class \<^verbatim>\<open>Reader\<close>. The loop of \<^verbatim>\<open>ReadPhysicalRecord\<close> ends because the
  reader never reads past a short block; the loop of \<^verbatim>\<open>ReadRecord\<close> takes fuel, one unit per turn, since
  nothing in the code bounds it.
\<close>

unbundle bit_operations_syntax

section \<open>State and environment\<close>

text \<open>
  \<open>env_read\<close> is \<^verbatim>\<open>SequentialFileReader::Read\<close>; \<open>env_uncompress\<close> stands for the loop that feeds one fragment
  to the streaming decompressor and returns what it produced, None for a negative result.
\<close>

record ('f, 'u) log_env =
  env_read :: "nat \<Rightarrow> 'f \<Rightarrow> status \<times> slice \<times> 'f"
  env_streaming_supported :: "u32 \<Rightarrow> bool"
  env_uncompress_new :: "u32 \<Rightarrow> 'u"
  env_uncompress_reset :: "'u \<Rightarrow> 'u"
  env_uncompress :: "slice \<Rightarrow> 'u \<Rightarrow> slice option \<times> 'u"

record ('f, 'u) log_reader =
  rd_file :: 'f
  rd_checksum :: bool
  rd_buffer :: slice
  rd_eof :: bool
  rd_read_error :: bool
  rd_eof_offset :: nat
  rd_last_record_offset :: nat
  rd_end_of_buffer_offset :: nat
  rd_log_number :: u64
  rd_recycled :: bool
  rd_first_record_read :: bool
  rd_compression_type :: u32
  rd_compression_type_record_read :: bool
  rd_uncompress :: "'u option"
  rd_recorded_cf_to_ts_sz :: "(u32 \<times> nat) list"
  rd_reports :: "(nat \<times> status) list"

datatype WALRecoveryMode = kTolerateCorruptedTailRecords | kAbsoluteConsistency
  | kPointInTimeRecovery | kSkipAnyCorruptedRecords

definition Reader_init :: "'f \<Rightarrow> bool \<Rightarrow> u64 \<Rightarrow> ('f, 'u) log_reader" where
  "Reader_init file checksum log_num =
     \<lparr>rd_file = file, rd_checksum = checksum, rd_buffer = [], rd_eof = False, rd_read_error = False,
      rd_eof_offset = 0, rd_last_record_offset = 0, rd_end_of_buffer_offset = 0,
      rd_log_number = log_num, rd_recycled = False, rd_first_record_read = False,
      rd_compression_type = 0, rd_compression_type_record_read = False, rd_uncompress = None,
      rd_recorded_cf_to_ts_sz = [], rd_reports = []\<rparr>"

definition ReportDrop :: "nat \<Rightarrow> status \<Rightarrow> ('f, 'u) log_reader \<Rightarrow> ('f, 'u) log_reader" where
  "ReportDrop bytes reason r = r\<lparr>rd_reports := rd_reports r @ [(bytes, reason)]\<rparr>"

definition ReportCorruption :: "nat \<Rightarrow> string \<Rightarrow> ('f, 'u) log_reader \<Rightarrow> ('f, 'u) log_reader" where
  "ReportCorruption bytes reason r = ReportDrop bytes (Status_Corruption reason) r"

section \<open>Physical records\<close>

datatype read_more = More | Stop nat nat

text \<open>\<open>Stop error drop_size\<close> is the return value false with its two results.\<close>

definition ReadMore ::
  "('f, 'u) log_env \<Rightarrow> nat \<Rightarrow> ('f, 'u) log_reader \<Rightarrow> read_more \<times> ('f, 'u) log_reader" where
  "ReadMore env drop_size r =
     (if \<not> rd_eof r \<and> \<not> rd_read_error r then
        (let (status, data, file) = env_read env kBlockSize (rd_file r);
             r = r\<lparr>rd_file := file, rd_buffer := data,
                   rd_end_of_buffer_offset := rd_end_of_buffer_offset r + length data\<rparr>
         in if \<not> ok status then
              (Stop kEof drop_size,
               ReportDrop kBlockSize status (r\<lparr>rd_buffer := []\<rparr>)\<lparr>rd_read_error := True\<rparr>)
            else if length data < kBlockSize
            then (More, r\<lparr>rd_eof := True, rd_eof_offset := length data\<rparr>)
            else (More, r))
      else if length (rd_buffer r) > 0
      then (Stop kBadHeader (length (rd_buffer r)), r\<lparr>rd_buffer := []\<rparr>)
      else (Stop kEof drop_size, r\<lparr>rd_buffer := []\<rparr>))"

text \<open>\<^verbatim>\<open>header[6]\<close> is a signed char converted to unsigned int.\<close>

definition header_type :: "slice \<Rightarrow> nat" where
  "header_type buf = unat (scast (buf ! 6) :: u32)"

definition header_length :: "slice \<Rightarrow> nat" where
  "header_length buf = unat (buf ! 4) + 256 * unat (buf ! 5)"

definition is_recyclable :: "nat \<Rightarrow> bool" where
  "is_recyclable type \<longleftrightarrow> (type \<ge> kRecyclableFullType \<and> type \<le> kRecyclableLastType) \<or>
     type = kRecyclableUserDefinedTimestampSizeType"

text \<open>The part after the header is complete: length, zero record, checksum, payload.\<close>

definition parse_physical ::
  "('f, 'u) log_env \<Rightarrow> nat \<Rightarrow> slice \<Rightarrow> nat \<Rightarrow> ('f, 'u) log_reader \<Rightarrow>
    nat \<times> slice \<times> nat \<times> ('f, 'u) log_reader" where
  "parse_physical env header_size result drop_size r =
     (let header = rd_buffer r; type = header_type header; len = header_length header in
      if header_size + len > length (rd_buffer r)
      then (kBadRecordLen, result, length (rd_buffer r), r\<lparr>rd_buffer := []\<rparr>)
      else if type = kZeroType \<and> len = 0 then (kBadRecord, result, drop_size, r\<lparr>rd_buffer := []\<rparr>)
      else if rd_checksum r \<and>
        Value (take (len + header_size - 6) (drop 6 header)) \<noteq> Unmask (DecodeFixed32 header)
      then (kBadRecordChecksum, result, length (rd_buffer r), r\<lparr>rd_buffer := []\<rparr>)
      else
        (let r = r\<lparr>rd_buffer := drop (header_size + len) (rd_buffer r)\<rparr>;
             payload = take len (drop header_size header)
         in case rd_uncompress r of
              None \<Rightarrow> (type, payload, drop_size, r)
            | Some u \<Rightarrow>
                (if type = kSetCompressionType \<or> type = kUserDefinedTimestampSizeType \<or>
                    type = kRecyclableUserDefinedTimestampSizeType
                 then (type, payload, drop_size, r)
                 else
                   (case env_uncompress env payload u of
                      (None, u) \<Rightarrow> (kBadRecord, result, drop_size, r\<lparr>rd_buffer := [], rd_uncompress := Some u\<rparr>)
                    | (Some out, u) \<Rightarrow> (type, out, drop_size, r\<lparr>rd_uncompress := Some u\<rparr>)))))"

lemma ReadMore_progress:
  assumes "ReadMore env d r = (More, r')"
  shows "\<not> rd_eof r \<and> \<not> rd_read_error r \<and> (rd_eof r' \<or> kBlockSize \<le> length (rd_buffer r'))"
  using assms by (auto simp: ReadMore_def Let_def ReportDrop_def split: if_splits prod.splits)

function ReadPhysicalRecord ::
  "('f, 'u) log_env \<Rightarrow> slice \<Rightarrow> nat \<Rightarrow> ('f, 'u) log_reader \<Rightarrow> nat \<times> slice \<times> nat \<times> ('f, 'u) log_reader" where
  "ReadPhysicalRecord env result drop_size r =
     (if length (rd_buffer r) < kHeaderSize then
        (case ReadMore env drop_size r of
           (Stop e d, r') \<Rightarrow> (e, result, d, r')
         | (More, r') \<Rightarrow> ReadPhysicalRecord env result drop_size r')
      else
        (let type = header_type (rd_buffer r) in
         if is_recyclable type then
           (let r1 = (if rd_end_of_buffer_offset r - length (rd_buffer r) = 0
                      then r\<lparr>rd_recycled := True\<rparr> else r)
            in if length (rd_buffer r1) < kRecyclableHeaderSize then
                 (case ReadMore env drop_size r1 of
                    (Stop e d, r') \<Rightarrow> (e, result, d, r')
                  | (More, r') \<Rightarrow> ReadPhysicalRecord env result drop_size r')
               else if ucast (DecodeFixed32 (drop 7 (rd_buffer r1))) \<noteq> rd_log_number r1
               then (kOldRecord, result, drop_size, r1)
               else parse_physical env kRecyclableHeaderSize result drop_size r1)
         else parse_physical env kHeaderSize result drop_size r))"
  by pat_completeness auto
termination
proof (relation "measure (\<lambda>(env, result, d, r). (if rd_eof r \<or> rd_read_error r then 0 else 1) +
    (if length (rd_buffer r) < kRecyclableHeaderSize then 1 else 0))", goal_cases)
  case (2 env result d r a r')
  then show ?case using ReadMore_progress [of env d r r'] by (auto simp: kBlockSize_def)
next
  case (3 env result d r type r1 a r')
  then show ?case using ReadMore_progress [of env d r1 r'] by (auto simp: kBlockSize_def split: if_splits)
qed simp

declare ReadPhysicalRecord.simps [simp del]

section \<open>Logical records\<close>

definition InitCompression :: "('f, 'u) log_env \<Rightarrow> u32 \<Rightarrow> ('f, 'u) log_reader \<Rightarrow> ('f, 'u) log_reader" where
  "InitCompression env t r =
     r\<lparr>rd_compression_type := t, rd_compression_type_record_read := True,
       rd_uncompress := Some (env_uncompress_new env t)\<rparr>"

fun UpdateRecordedTimestampSize ::
  "(u32 \<times> nat) list \<Rightarrow> ('f, 'u) log_reader \<Rightarrow> status \<times> ('f, 'u) log_reader" where
  "UpdateRecordedTimestampSize [] r = (Status_OK, r)"
| "UpdateRecordedTimestampSize ((cf, ts_sz) # rest) r =
     (if ts_sz = 0 then
        (Status_Corruption ''User-defined timestamp size record contains zero timestamp size.'', r)
      else if map_of (rd_recorded_cf_to_ts_sz r) cf \<noteq> None then
        (Status_Corruption ''User-defined timestamp size record contains update to recorded column family.'', r)
      else UpdateRecordedTimestampSize rest
        (r\<lparr>rd_recorded_cf_to_ts_sz := rd_recorded_cf_to_ts_sz r @ [(cf, ts_sz)]\<rparr>))"

text \<open>The variables of the loop: \<^verbatim>\<open>scratch\<close>, \<^verbatim>\<open>in_fragmented_record\<close>, the prospective offset, \<^verbatim>\<open>fragment\<close>.\<close>

record read_vars =
  rv_scratch :: slice
  rv_in_fragmented :: bool
  rv_prospective :: nat
  rv_fragment :: slice

datatype ('f, 'u) read_result =
    Return bool slice slice "('f, 'u) log_reader"
  | Again read_vars "('f, 'u) log_reader"

definition strict_mode :: "WALRecoveryMode \<Rightarrow> bool" where
  "strict_mode mode \<longleftrightarrow> mode = kAbsoluteConsistency \<or> mode = kPointInTimeRecovery"

definition on_compression_record ::
  "('f, 'u) log_env \<Rightarrow> slice \<Rightarrow> nat \<Rightarrow> ('f, 'u) log_reader \<Rightarrow> ('f, 'u) log_reader" where
  "on_compression_record env fragment offset r =
     (let r = (if rd_compression_type_record_read r
               then ReportCorruption (length fragment) ''read multiple SetCompressionType records'' r else r);
          r = (if rd_first_record_read r
               then ReportCorruption (length fragment) ''SetCompressionType not the first record'' r else r);
          r = r\<lparr>rd_last_record_offset := offset\<rparr>
      in case CompressionTypeRecord_DecodeFrom (env_streaming_supported env) fragment of
           (Inl _, rest) \<Rightarrow> ReportCorruption (length rest) ''could not decode SetCompressionType record'' r
         | (Inr t, rest) \<Rightarrow> InitCompression env t r)"

definition on_timestamp_record ::
  "slice \<Rightarrow> nat \<Rightarrow> read_vars \<Rightarrow> ('f, 'u) log_reader \<Rightarrow> ('f, 'u) log_reader" where
  "on_timestamp_record fragment offset v r =
     (let r = (if rv_in_fragmented v \<and> rv_scratch v \<noteq> []
               then ReportCorruption (length (rv_scratch v))
                      ''user-defined timestamp size record interspersed partial record'' r else r);
          r = r\<lparr>rd_last_record_offset := offset\<rparr>;
          (s, entries, rest) = UserDefinedTimestampSizeRecord_DecodeFrom fragment
      in if \<not> ok s
         then ReportCorruption (length rest) ''could not decode user-defined timestamp size record'' r
         else
           (let (s, r) = UpdateRecordedTimestampSize entries r
            in if \<not> ok s then ReportCorruption (length rest) (st_msg s) r else r))"

text \<open>One turn of the loop: read a physical record and dispatch on its type.\<close>

definition ReadRecord_step ::
  "('f, 'u) log_env \<Rightarrow> WALRecoveryMode \<Rightarrow> read_vars \<Rightarrow> ('f, 'u) log_reader \<Rightarrow> ('f, 'u) read_result" where
  "ReadRecord_step env mode v r0 =
     (let offset = rd_end_of_buffer_offset r0 - length (rd_buffer r0);
          (type, fragment, drop_size, r) = ReadPhysicalRecord env (rv_fragment v) 0 r0;
          scratch = rv_scratch v;
          v = v\<lparr>rv_fragment := fragment\<rparr>;
          trailing = (\<lambda>r. if rv_in_fragmented v \<and> strict_mode mode
                          then ReportCorruption (length scratch) ''error reading trailing data'' r else r);
          at_end = (\<lambda>r. Return False [] (if rv_in_fragmented v then [] else scratch) (trailing r));
          bad_record = (\<lambda>r. if rv_in_fragmented v
                            then Again (v\<lparr>rv_in_fragmented := False, rv_scratch := []\<rparr>)
                                   (ReportCorruption (length scratch) ''error in middle of record'' r)
                            else Again v r)
      in if type = kFullType \<or> type = kRecyclableFullType then
           (let r = (if rv_in_fragmented v \<and> scratch \<noteq> []
                     then ReportCorruption (length scratch) ''partial record without end(1)'' r else r)
            in Return True fragment [] (r\<lparr>rd_last_record_offset := offset, rd_first_record_read := True\<rparr>))
         else if type = kFirstType \<or> type = kRecyclableFirstType then
           (let r = (if rv_in_fragmented v \<and> scratch \<noteq> []
                     then ReportCorruption (length scratch) ''partial record without end(2)'' r else r)
            in Again (v\<lparr>rv_prospective := offset, rv_scratch := fragment, rv_in_fragmented := True\<rparr>) r)
         else if type = kMiddleType \<or> type = kRecyclableMiddleType then
           (if \<not> rv_in_fragmented v
            then Again v (ReportCorruption (length fragment) ''missing start of fragmented record(1)'' r)
            else Again (v\<lparr>rv_scratch := scratch @ fragment\<rparr>) r)
         else if type = kLastType \<or> type = kRecyclableLastType then
           (if \<not> rv_in_fragmented v
            then Again v (ReportCorruption (length fragment) ''missing start of fragmented record(2)'' r)
            else Return True (scratch @ fragment) (scratch @ fragment)
                   (r\<lparr>rd_last_record_offset := rv_prospective v, rd_first_record_read := True\<rparr>))
         else if type = kSetCompressionType then
           Again (v\<lparr>rv_prospective := offset, rv_scratch := []\<rparr>) (on_compression_record env fragment offset r)
         else if type = kUserDefinedTimestampSizeType \<or> type = kRecyclableUserDefinedTimestampSizeType then
           Again (v\<lparr>rv_prospective := offset, rv_scratch := []\<rparr>) (on_timestamp_record fragment offset v r)
         else if type = kBadHeader then
           at_end (if strict_mode mode then ReportCorruption drop_size ''truncated header'' r else r)
         else if type = kEof then at_end r
         else if type = kOldRecord then
           (if mode \<noteq> kSkipAnyCorruptedRecords then at_end r else bad_record r)
         else if type = kBadRecord then bad_record r
         else if type = kBadRecordLen \<and> rd_eof r then
           Return False [] scratch
             (if strict_mode mode then ReportCorruption drop_size ''truncated record body'' r else r)
         else if type = kBadRecordLen \<or> type = kBadRecordChecksum then
           (if rd_recycled r \<and> mode = kTolerateCorruptedTailRecords then Return False [] [] r
            else bad_record (ReportCorruption drop_size
              (if type = kBadRecordLen then ''bad record length'' else ''checksum mismatch'') r))
         else
           Again (v\<lparr>rv_in_fragmented := False, rv_scratch := []\<rparr>)
             (ReportCorruption (length fragment + (if rv_in_fragmented v then length scratch else 0))
               ''unknown record type'' r))"

fun ReadRecord_loop ::
  "nat \<Rightarrow> ('f, 'u) log_env \<Rightarrow> WALRecoveryMode \<Rightarrow> read_vars \<Rightarrow> ('f, 'u) log_reader \<Rightarrow>
    (bool \<times> slice \<times> ('f, 'u) log_reader) option" where
  "ReadRecord_loop 0 env mode v r = None"
| "ReadRecord_loop (Suc fuel) env mode v r =
     (case ReadRecord_step env mode v r of
        Return b record' scratch r' \<Rightarrow> Some (b, record', r')
      | Again v' r' \<Rightarrow> ReadRecord_loop fuel env mode v' r')"

text \<open>The result is the return value and \<^verbatim>\<open>*record\<close>; None says that the fuel did not suffice.\<close>

definition ReadRecord ::
  "nat \<Rightarrow> ('f, 'u) log_env \<Rightarrow> WALRecoveryMode \<Rightarrow> ('f, 'u) log_reader \<Rightarrow>
    (bool \<times> slice \<times> ('f, 'u) log_reader) option" where
  "ReadRecord fuel env mode r =
     ReadRecord_loop fuel env mode
       \<lparr>rv_scratch = [], rv_in_fragmented = False, rv_prospective = 0, rv_fragment = []\<rparr>
       (r\<lparr>rd_uncompress := map_option (env_uncompress_reset env) (rd_uncompress r)\<rparr>)"

section \<open>Continuing after the end of the file\<close>

definition UnmarkEOFInternal :: "('f, 'u) log_env \<Rightarrow> ('f, 'u) log_reader \<Rightarrow> ('f, 'u) log_reader" where
  "UnmarkEOFInternal env r =
     (let remaining = kBlockSize - rd_eof_offset r;
          (status, data, file) = env_read env remaining (rd_file r);
          added = length data;
          r = r\<lparr>rd_file := file, rd_end_of_buffer_offset := rd_end_of_buffer_offset r + added\<rparr>
      in if \<not> ok status then
           (if added > 0 then ReportDrop added status r else r)\<lparr>rd_read_error := True\<rparr>
         else
           (let r = r\<lparr>rd_buffer := rd_buffer r @ data\<rparr>
            in if added < remaining then r\<lparr>rd_eof := True, rd_eof_offset := rd_eof_offset r + added\<rparr>
               else r\<lparr>rd_eof_offset := 0\<rparr>))"

definition UnmarkEOF :: "('f, 'u) log_env \<Rightarrow> ('f, 'u) log_reader \<Rightarrow> ('f, 'u) log_reader" where
  "UnmarkEOF env r =
     (if rd_read_error r then r
      else
        (let r = r\<lparr>rd_eof := False\<rparr>
         in if rd_eof_offset r = 0 then r else UnmarkEOFInternal env r))"

definition LastRecordOffset :: "('f, 'u) log_reader \<Rightarrow> nat" where
  "LastRecordOffset r = rd_last_record_offset r"

definition LastRecordEnd :: "('f, 'u) log_reader \<Rightarrow> nat" where
  "LastRecordEnd r = rd_end_of_buffer_offset r - length (rd_buffer r)"

end
