(* ===== verification/Log_Roundtrip.thy ===== *)
theory Log_Roundtrip
  imports Log_Reader
begin

text \<open>
  What the log writer writes, the log reader reads: the writer on a file in memory, the reader on the
  same bytes. The proof follows the writer's loop; \<open>synced\<close> relates the reader's block buffer to a
  position in the file.
\<close>

unbundle bit_operations_syntax

section \<open>Physical records in memory\<close>

definition mem_dest :: "slice dest_ops" where
  "mem_dest = \<lparr>do_append = \<lambda>f s. (f @ s, Status_OK), do_flush = \<lambda>f. (f, Status_OK), do_seen_error = \<lambda>_. False\<rparr>"

definition mem_read :: "nat \<Rightarrow> slice \<Rightarrow> status \<times> slice \<times> slice" where
  "mem_read n f = (Status_OK, take n f, drop n f)"

definition log_num_bytes :: "bool \<Rightarrow> u64 \<Rightarrow> slice" where
  "log_num_bytes recyclable n = (if recyclable then EncodeFixed32 (ucast n) else [])"

definition phys :: "u64 \<Rightarrow> RecordType \<Rightarrow> slice \<Rightarrow> slice" where
  "phys n t p =
     EncodeFixed32 (Mask (Value ([word_of_nat t] @ log_num_bytes (is_recyclable t) n @ p))) @
     [word_of_nat (length p) AND 0xff, word_of_nat (length p div 256), word_of_nat t] @
     log_num_bytes (is_recyclable t) n @ p"

definition type_header_size :: "RecordType \<Rightarrow> nat" where
  "type_header_size t = (if is_recyclable t then kRecyclableHeaderSize else kHeaderSize)"

lemma length_phys [simp]: "length (phys n t p) = type_header_size t + length p"
  by (simp add: phys_def type_header_size_def log_num_bytes_def)

definition writer_ok :: "slice log_writer \<Rightarrow> bool" where
  "writer_ok w \<longleftrightarrow> lw_block_offset w \<le> kBlockSize \<and>
     lw_type_crc w = map (\<lambda>i. Value [word_of_nat i]) [0..<Suc kMaxRecordType]"

lemma recyclable_format:
  "t \<le> kMaxRecordType \<Longrightarrow>
     is_recyclable t \<longleftrightarrow> \<not> (t < kRecyclableFullType \<or> t = kSetCompressionType \<or> t = kUserDefinedTimestampSizeType)"
  by (auto simp: is_recyclable_def)

lemma Emit_mem:
  assumes "writer_ok w" "t \<le> kMaxRecordType" "length p < 2 ^ 16"
  shows "EmitPhysicalRecord mem_dest t p w =
    (w\<lparr>lw_dest := lw_dest w @ phys (lw_log_number w) t p,
       lw_block_offset := lw_block_offset w + (type_header_size t + length p)\<rparr>, Status_OK)"
proof -
  have crc: "lw_type_crc w ! t = Value [word_of_nat t]"
    using assms(1,2) by (simp add: writer_ok_def del: upt_Suc)
  have comb: "Crc32cCombine c (Value p) (length p) = Some (Extend c p)" for c
    using assms(3) by (intro Crc32cCombine_eq) simp
  have ext: "Extend (Extend (Value [x]) l) p = Value ([x] @ l @ p)" "Extend (Value [x]) p = Value ([x] @ p)" for x l
    by (simp_all only: Value_append Extend_append)
  have c: "(t < kRecyclableFullType \<or> t = kSetCompressionType \<or> t = kUserDefinedTimestampSizeType) = (\<not> is_recyclable t)"
    using recyclable_format [OF assms(2)] by blast
  show ?thesis
    unfolding EmitPhysicalRecord_def Let_def c crc comb
    by (cases "is_recyclable t")
      (simp_all add: comb ext mem_dest_def phys_def log_num_bytes_def type_header_size_def)
qed

section \<open>Parsing a physical record\<close>

lemma nat_byte_parts:
  assumes "n < 2 ^ 16"
  shows "unat (word_of_nat n AND 0xff :: byte) + 256 * unat (word_of_nat (n div 256) :: byte) = n"
proof -
  have "(word_of_nat n AND 0xff :: byte) = word_of_nat n"
    by (rule bit_eqI) (auto simp: bit_and_iff bit_masks dest: bit_imp_le_length)
  then show ?thesis using assms by (simp add: unat_of_nat)
qed

lemma header_phys:
  assumes "t \<le> kMaxRecordType" "length p < 2 ^ 16"
  shows "header_type (phys n t p @ x) = t" and "header_length (phys n t p @ x) = length p"
proof -
  have nth: "(phys n t p @ x) ! 4 = word_of_nat (length p) AND 0xff"
    "(phys n t p @ x) ! 5 = word_of_nat (length p div 256)" "(phys n t p @ x) ! 6 = word_of_nat t"
    by (simp_all add: phys_def nth_append)
  show "header_length (phys n t p @ x) = length p"
    unfolding header_length_def nth by (rule nat_byte_parts [OF assms(2)])
  have "\<not> bit (word_of_nat t :: byte) 7"
    using bit_imp_le_unat [of "word_of_nat t :: byte" 7] assms(1) by (auto simp: unat_of_nat)
  then show "header_type (phys n t p @ x) = t"
    using assms(1) unfolding header_type_def nth
    by (simp add: scast_low unat_of_nat unsigned_ucast_eq take_bit_nat_eq_self)
qed

lemma parse_phys:
  assumes "t \<le> kMaxRecordType" "length p < 2 ^ 16" "rd_uncompress r = None" "t \<noteq> kZeroType"
    and buf: "rd_buffer r = phys n t p @ x"
  shows "parse_physical env (type_header_size t) res d r = (t, p, d, r\<lparr>rd_buffer := x\<rparr>)"
proof -
  let ?l = "log_num_bytes (is_recyclable t) n"
  have len: "length ?l = type_header_size t - 7" by (simp add: log_num_bytes_def type_header_size_def)
  have hs: "7 \<le> type_header_size t" by (simp add: type_header_size_def)
  have d6: "drop 6 (phys n t p @ x) = ([word_of_nat t] @ ?l @ p) @ x" by (simp add: phys_def)
  have "take (length p + type_header_size t - 6) (drop 6 (phys n t p @ x)) = [word_of_nat t] @ ?l @ p"
    unfolding d6 by (rule take_append_length) (use len hs in simp)
  moreover have "DecodeFixed32 (phys n t p @ x) = Mask (Value ([word_of_nat t] @ ?l @ p))"
    by (simp add: phys_def)
  moreover have "drop (type_header_size t) (phys n t p @ x) = p @ x"
  proof -
    have "phys n t p @ x = (EncodeFixed32 (Mask (Value ([word_of_nat t] @ ?l @ p))) @
        [word_of_nat (length p) AND 0xff, word_of_nat (length p div 256), word_of_nat t] @ ?l) @ p @ x"
      by (simp add: phys_def)
    then show ?thesis using len hs by (simp only:) (rule drop_append_length, simp)
  qed
  moreover have "length (phys n t p @ x) = type_header_size t + length p + length x" by simp
  moreover have "drop (type_header_size t + length p) (phys n t p @ x) = x" by simp
  moreover note header_phys [OF assms(1,2), of n x]
  moreover obtain b where b: "b = phys n t p @ x" by blast
  ultimately show ?thesis
    using assms(3,4) buf unfolding b [symmetric]
    by (simp add: parse_physical_def Let_def)
qed

section \<open>The reader's position\<close>

text \<open>
  The reader stands at offset \<open>off\<close> of a block and \<open>R\<close> is the rest of the file: the buffer holds the
  rest of the block, and the end was seen exactly if the block is short.
\<close>

definition synced :: "nat \<Rightarrow> slice \<Rightarrow> (slice, 'u) log_reader \<Rightarrow> bool" where
  "synced off R r \<longleftrightarrow> off \<le> kBlockSize \<and> rd_buffer r = take (kBlockSize - off) R \<and>
     rd_file r = drop (kBlockSize - off) R \<and> \<not> rd_read_error r \<and>
     (rd_eof r \<longleftrightarrow> length R < kBlockSize - off)"

text \<open>The fields that reading intact records leaves alone.\<close>

definition same_fields :: "(slice, 'u) log_reader \<Rightarrow> (slice, 'u) log_reader \<Rightarrow> bool" where
  "same_fields r r' \<longleftrightarrow> rd_reports r' = rd_reports r \<and> rd_log_number r' = rd_log_number r \<and>
     rd_uncompress r' = rd_uncompress r"

lemma same_fields_refl [simp]: "same_fields r r"
  by (simp add: same_fields_def)

lemma same_fields_trans: "same_fields a b \<Longrightarrow> same_fields b c \<Longrightarrow> same_fields a c"
  by (simp add: same_fields_def)

lemma ReadMore_sync:
  assumes env: "env_read env = mem_read" and r: "synced off R r" and R: "kBlockSize - off \<le> length R"
  shows "\<exists>r'. ReadMore env d r = (More, r') \<and> synced 0 (drop (kBlockSize - off) R) r' \<and> same_fields r r'"
  using r R by (auto simp: ReadMore_def env mem_read_def synced_def same_fields_def Let_def)

text \<open>A trailer shorter than the smaller header is skipped by reading the next block.\<close>

lemma skip_short_trailer:
  assumes "env_read env = mem_read" "synced off R r" "kBlockSize - off \<le> length R" "kBlockSize - off < kHeaderSize"
  shows "\<exists>r'. ReadPhysicalRecord env res d r = ReadPhysicalRecord env res d r' \<and>
    synced 0 (drop (kBlockSize - off) R) r' \<and> same_fields r r'"
proof -
  obtain r' where r': "ReadMore env d r = (More, r')" "synced 0 (drop (kBlockSize - off) R) r'" "same_fields r r'"
    using ReadMore_sync [OF assms(1-3)] by blast
  have "length (rd_buffer r) < kHeaderSize" using assms(2,3,4) by (simp add: synced_def)
  then have "ReadPhysicalRecord env res d r = ReadPhysicalRecord env res d r'"
    by (subst ReadPhysicalRecord.simps) (simp add: r'(1))
  with r' show ?thesis by blast
qed

lemma header_zero:
  "7 \<le> n \<Longrightarrow> header_type (replicate n 0) = 0" "7 \<le> n \<Longrightarrow> header_length (replicate n 0) = 0"
  by (simp_all add: header_type_def header_length_def)

text \<open>A trailer that holds the smaller header reads as an empty record, which ends the block.\<close>

lemma read_zero_trailer:
  assumes "synced off (replicate (kBlockSize - off) 0 @ R) r" "kHeaderSize \<le> kBlockSize - off"
  shows "\<exists>r'. ReadPhysicalRecord env res d r = (kBadRecord, res, d, r') \<and> synced kBlockSize R r' \<and> same_fields r r'"
proof -
  have buf: "rd_buffer r = replicate (kBlockSize - off) 0" using assms(1) by (simp add: synced_def)
  have "ReadPhysicalRecord env res d r = (kBadRecord, res, d, r\<lparr>rd_buffer := []\<rparr>)"
    using assms(2)
    by (subst ReadPhysicalRecord.simps)
      (simp add: buf header_zero Let_def is_recyclable_def parse_physical_def)
  moreover have "synced kBlockSize R (r\<lparr>rd_buffer := []\<rparr>)" using assms(1) by (simp add: synced_def)
  ultimately show ?thesis by (auto simp: same_fields_def)
qed

lemma read_phys:
  assumes r: "synced off (phys n t p @ R) r" "rd_uncompress r = None"
    and t: "0 < t" "t \<le> kMaxRecordType" "length p < 2 ^ 16"
    and room: "off + type_header_size t + length p \<le> kBlockSize"
    and num: "is_recyclable t \<Longrightarrow> ucast (ucast n :: u32) = rd_log_number r"
  shows "\<exists>r'. ReadPhysicalRecord env res d r = (t, p, d, r') \<and>
    synced (off + type_header_size t + length p) R r' \<and> same_fields r r'"
proof -
  define x where "x = take (kBlockSize - (off + type_header_size t + length p)) R"
  have buf: "rd_buffer r = phys n t p @ x"
    using r(1) room by (simp add: synced_def x_def add.assoc)
  have len: "kHeaderSize \<le> length (rd_buffer r)" "is_recyclable t \<Longrightarrow> kRecyclableHeaderSize \<le> length (rd_buffer r)"
    by (simp_all add: buf type_header_size_def)
  have type: "header_type (rd_buffer r) = t" using header_phys(1) [OF t(2,3)] by (simp add: buf)
  have log: "DecodeFixed32 (drop 7 (rd_buffer r)) = ucast n" if "is_recyclable t"
    using that by (simp add: buf phys_def log_num_bytes_def)
  define r1 where "r1 = (if is_recyclable t \<and> rd_end_of_buffer_offset r - length (rd_buffer r) = 0
                      then r\<lparr>rd_recycled := True\<rparr> else r)"
  have r1: "rd_buffer r1 = phys n t p @ x" "rd_uncompress r1 = None" "rd_log_number r1 = rd_log_number r"
    using r(2) buf by (simp_all add: r1_def)
  have "ReadPhysicalRecord env res d r = parse_physical env (type_header_size t) res d r1"
    using len type log num
    by (subst ReadPhysicalRecord.simps) (auto simp: Let_def r1_def type_header_size_def)
  also have "\<dots> = (t, p, d, r1\<lparr>rd_buffer := x\<rparr>)"
    using t r1 by (intro parse_phys [where n = n]) auto
  finally have "ReadPhysicalRecord env res d r = (t, p, d, r1\<lparr>rd_buffer := x\<rparr>)" .
  moreover have "synced (off + type_header_size t + length p) R (r1\<lparr>rd_buffer := x\<rparr>)"
    using r(1) room by (auto simp: synced_def x_def r1_def add.assoc)
  moreover have "same_fields r (r1\<lparr>rd_buffer := x\<rparr>)" by (simp add: same_fields_def r1_def)
  ultimately show ?thesis by blast
qed

section \<open>One fragment\<close>

definition trailer :: "nat \<Rightarrow> nat \<Rightarrow> slice" where
  "trailer hs off = (if kBlockSize - off < hs then replicate (kBlockSize - off) 0 else [])"

definition start_of :: "nat \<Rightarrow> nat \<Rightarrow> nat" where
  "start_of hs off = (if kBlockSize - off < hs then 0 else off)"

lemma next_fragment:
  assumes env: "env_read env = mem_read"
    and r: "synced off (trailer (type_header_size t) off @ phys n t p @ R) r" "rd_uncompress r = None"
    and t: "0 < t" "t \<le> kMaxRecordType" "length p < 2 ^ 16"
    and room: "start_of (type_header_size t) off + type_header_size t + length p \<le> kBlockSize"
    and num: "is_recyclable t \<Longrightarrow> ucast (ucast n :: u32) = rd_log_number r"
    and v: "rv_in_fragmented v \<Longrightarrow> off = kBlockSize"
  shows "\<exists>k r1 r2. (\<forall>m. ReadRecord_loop (k + m) env mode v r = ReadRecord_loop m env mode v r1) \<and>
    ReadPhysicalRecord env (rv_fragment v) 0 r1 = (t, p, 0, r2) \<and>
    synced (start_of (type_header_size t) off + type_header_size t + length p) R r2 \<and> same_fields r r2"
proof -
  let ?hs = "type_header_size t"
  have fin: "\<exists>r2. ReadPhysicalRecord env (rv_fragment v) 0 r1 = (t, p, 0, r2) \<and>
      synced (o' + ?hs + length p) R r2 \<and> same_fields r r2"
    if "synced o' (phys n t p @ R) r1" "same_fields r r1" "o' + ?hs + length p \<le> kBlockSize" for o' r1
    using read_phys [OF that(1) _ t that(3), of env "rv_fragment v" 0] r(2) num that(2)
    by (auto simp: same_fields_def)
  have short: "\<exists>r2. ReadPhysicalRecord env (rv_fragment v) 0 r1 = (t, p, 0, r2) \<and>
      synced (0 + ?hs + length p) R r2 \<and> same_fields r r2"
    if r1: "synced o' (replicate (kBlockSize - o') 0 @ phys n t p @ R) r1" "same_fields r r1" "kBlockSize - o' < 7"
      and rm: "0 + ?hs + length p \<le> kBlockSize" for o' r1
  proof -
    obtain r' where r': "ReadPhysicalRecord env (rv_fragment v) 0 r1 = ReadPhysicalRecord env (rv_fragment v) 0 r'"
      "synced 0 (phys n t p @ R) r'" "same_fields r1 r'"
      using skip_short_trailer [OF env r1(1) _ r1(3), of "rv_fragment v" 0] by auto
    from fin [OF r'(2) same_fields_trans [OF r1(2) r'(3)] rm] r'(1) show ?thesis by simp
  qed
  consider "\<not> kBlockSize - off < ?hs" | "kBlockSize - off < ?hs" "kBlockSize - off < 7"
    | "kBlockSize - off < ?hs" "7 \<le> kBlockSize - off" by linarith
  then show ?thesis
  proof cases
    case 1
    then show ?thesis
      using fin [of off r] r(1) room by (rule_tac x = 0 in exI, rule_tac x = r in exI) (simp add: trailer_def start_of_def)
  next
    case 2
    then show ?thesis
      using short [of off r] r(1) room by (rule_tac x = 0 in exI, rule_tac x = r in exI) (simp add: trailer_def start_of_def)
  next
    case 3
    obtain r1 where r1: "ReadPhysicalRecord env (rv_fragment v) 0 r = (kBadRecord, rv_fragment v, 0, r1)"
      "synced kBlockSize (phys n t p @ R) r1" "same_fields r r1"
      using read_zero_trailer [of off "phys n t p @ R" r env "rv_fragment v" 0] r(1) 3 by (auto simp: trailer_def)
    have "\<not> rv_in_fragmented v" using v 3 by auto
    then have "ReadRecord_step env mode v r = Again v r1"
      by (simp add: ReadRecord_step_def r1(1) Let_def)
    then have "\<forall>m. ReadRecord_loop (1 + m) env mode v r = ReadRecord_loop m env mode v r1" by simp
    moreover have "synced kBlockSize (replicate (kBlockSize - kBlockSize) 0 @ phys n t p @ R) r1" using r1(2) by simp
    ultimately show ?thesis
      using short [of kBlockSize r1] r1(3) 3 room
      by (rule_tac x = 1 in exI, rule_tac x = r1 in exI) (simp add: start_of_def)
  qed
qed

section \<open>The writer's loop, read back\<close>

lemma switch_block_mem:
  assumes "writer_ok w"
  shows "switch_block mem_dest w =
    (w\<lparr>lw_dest := lw_dest w @ trailer (header_size_of w) (lw_block_offset w),
       lw_block_offset := start_of (header_size_of w) (lw_block_offset w)\<rparr>, Status_OK)"
  using assms
  by (auto simp: switch_block_def Let_def mem_dest_def trailer_def start_of_def writer_ok_def kBlockSize_def
      nat_diff_distrib)

lemma fragment_type_facts:
  "0 < fragment_type c b e" "fragment_type c b e \<le> kMaxRecordType"
  "is_recyclable (fragment_type c b e) = c" "type_header_size (fragment_type c b e) = (if c then 11 else 7)"
  by (simp_all add: fragment_type_def is_recyclable_def type_header_size_def)

definition reader_for :: "slice log_writer \<Rightarrow> (slice, 'u) log_reader \<Rightarrow> bool" where
  "reader_for w r \<longleftrightarrow> rd_uncompress r = None \<and> rd_log_number r = lw_log_number w \<and>
     (lw_recycle_log_files w \<longrightarrow> unat (lw_log_number w) < 2 ^ 32)"

lemma ucast_up_down_32: "unat (n :: u64) < 2 ^ 32 \<Longrightarrow> ucast (ucast n :: u32) = n"
  by (simp add: word_unat_eq_iff unsigned_ucast_eq unsigned_take_bit_eq take_bit_nat_eq_self)

text \<open>\<open>reads_back\<close>: from the reader's state, enough turns return the record and end at the new position.\<close>

definition reads_back where
  "reads_back env mode w w' bytes begin left \<longleftrightarrow>
     (\<forall>r v R. synced (lw_block_offset w) (bytes @ R) r \<longrightarrow> reader_for w r \<longrightarrow> rv_in_fragmented v = (\<not> begin) \<longrightarrow>
       (\<exists>k r'. (\<forall>m. ReadRecord_loop (Suc (k + m)) env mode v r =
            Some (True, (if begin then [] else rv_scratch v) @ left, r')) \<and>
          synced (lw_block_offset w') R r' \<and> same_fields r r'))"

lemma AddRecord_loop_back:
  fixes env :: "(slice, 'u) log_env"
  assumes env: "env_read env = mem_read"
  shows "writer_ok w \<Longrightarrow> (\<not> begin \<Longrightarrow> lw_block_offset w = kBlockSize \<and> left \<noteq> []) \<Longrightarrow>
    \<exists>w' bytes. AddRecord_loop mem_dest left begin w = (w', Status_OK) \<and> writer_ok w' \<and>
      lw_dest w' = lw_dest w @ bytes \<and> lw_recycle_log_files w' = lw_recycle_log_files w \<and>
      lw_log_number w' = lw_log_number w \<and> lw_manual_flush w' = lw_manual_flush w \<and>
      (\<exists>t p rest. bytes = trailer (header_size_of w) (lw_block_offset w) @ phys (lw_log_number w) t p @ rest \<and>
        t \<le> kMaxRecordType \<and> length p < 2 ^ 16 \<and> is_recyclable t = lw_recycle_log_files w) \<and>
      reads_back env mode w w' bytes begin left"
proof (induction "mem_dest" left "begin" w rule: AddRecord_loop.induct)
  case (1 left b w)
  let ?hs = "header_size_of w" and ?off = "lw_block_offset w" and ?c = "lw_recycle_log_files w"
  let ?s0 = "start_of ?hs ?off"
  define w1 where "w1 = w\<lparr>lw_dest := lw_dest w @ trailer ?hs ?off, lw_block_offset := ?s0\<rparr>"
  have sw: "switch_block mem_dest w = (w1, Status_OK)" using switch_block_mem [OF "1.prems"(1)] by (simp add: w1_def)
  define avail where "avail = avail_in_block w1"
  define fl where "fl = (if length left < avail then length left else avail)"
  define e where "e = (length left = fl)"
  define t where "t = fragment_type ?c b e"
  define p where "p = take fl left"
  have hs: "type_header_size t = ?hs" by (simp add: t_def fragment_type_facts)
  have s0: "?s0 + ?hs \<le> kBlockSize" using "1.prems"(1) by (auto simp: start_of_def kBlockSize_def writer_ok_def)
  have av: "avail = kBlockSize - ?s0 - ?hs" by (simp add: avail_def avail_in_block_def w1_def)
  have lp: "length p = fl" by (simp add: p_def fl_def)
  have p16: "length p < 2 ^ 16" using lp by (simp add: fl_def av kBlockSize_def split: if_splits)
  have room: "?s0 + ?hs + length p \<le> kBlockSize" using lp s0 by (simp add: fl_def av split: if_splits)
  have ok1: "writer_ok w1" using "1.prems"(1) s0 by (simp add: w1_def writer_ok_def)
  define w2 where "w2 = w1\<lparr>lw_dest := lw_dest w1 @ phys (lw_log_number w) t p,
      lw_block_offset := lw_block_offset w1 + (?hs + length p)\<rparr>"
  have em: "EmitPhysicalRecord mem_dest t p w1 = (w2, Status_OK)"
    using Emit_mem [OF ok1 _ p16, of t] hs by (simp add: w2_def w1_def t_def fragment_type_facts)
  have ok2: "writer_ok w2" using ok1 room by (simp add: w2_def w1_def writer_ok_def)
  have c1: "lw_recycle_log_files w1 = ?c" by (simp add: w1_def)
  have fl_eq: "(if length left < avail_in_block w1 then length left else avail_in_block w1) = fl"
    by (simp add: fl_def avail_def)
  have em': "EmitPhysicalRecord mem_dest (fragment_type (lw_recycle_log_files w1) b (length left = fl)) (take fl left) w1 =
      (w2, Status_OK)"
    using em by (simp add: t_def e_def p_def c1)
  have unfold: "AddRecord_loop mem_dest left b w =
      (if length (drop fl left) > 0 then AddRecord_loop mem_dest (drop fl left) False w2 else (w2, Status_OK))"
    by (subst AddRecord_loop.simps) (simp add: sw Let_def fl_eq em')
  let ?bytes = "trailer ?hs ?off @ phys (lw_log_number w) t p"
  have first: "\<exists>t' p' rest. ?bytes @ b2 = trailer ?hs ?off @ phys (lw_log_number w) t' p' @ rest \<and>
        t' \<le> kMaxRecordType \<and> length p' < 2 ^ 16 \<and> is_recyclable t' = ?c" for b2
    using p16 by (intro exI [of _ t] exI [of _ p] exI [of _ b2]) (simp add: t_def fragment_type_facts)
  have frag: "\<exists>k r1 r2. (\<forall>m. ReadRecord_loop (k + m) env mode v r = ReadRecord_loop m env mode v r1) \<and>
      ReadPhysicalRecord env (rv_fragment v) 0 r1 = (t, p, 0, r2) \<and>
      synced (lw_block_offset w2) R r2 \<and> same_fields r r2"
    if "synced ?off (?bytes @ R) r" "reader_for w r" "rv_in_fragmented v = (\<not> b)" for r v R
    using next_fragment [OF env, of ?off t "lw_log_number w" p R r v mode] that hs p16 room "1.prems"(2)
    by (auto simp: t_def fragment_type_facts reader_for_def ucast_up_down_32 w2_def w1_def add.assoc)
  show ?case
  proof (cases "length (drop fl left) > 0")
    case False
    then have e: "e" "p = left" using lp by (simp_all add: e_def p_def fl_def split: if_splits)
    have "reads_back env mode w w2 ?bytes b left"
      unfolding reads_back_def
    proof (intro allI impI)
      fix r :: "(slice, 'u) log_reader" and v :: read_vars and R
      assume r: "synced ?off (?bytes @ R) r" "reader_for w r" "rv_in_fragmented v = (\<not> b)"
      then obtain k r1 r2 where k: "\<forall>m. ReadRecord_loop (k + m) env mode v r = ReadRecord_loop m env mode v r1"
        "ReadPhysicalRecord env (rv_fragment v) 0 r1 = (t, p, 0, r2)"
        "synced (lw_block_offset w2) R r2" "same_fields r r2" using frag by blast
      obtain sc r3 where st: "ReadRecord_step env mode v r1 = Return True ((if b then [] else rv_scratch v) @ left) sc r3"
        "synced (lw_block_offset w2) R r3" "same_fields r r3"
      proof -
        have "t = (if b then if ?c then 5 else 1 else if ?c then 8 else 4)"
          using e by (simp add: t_def fragment_type_def)
        then show ?thesis
          using r(3) k(3,4) e
          by (intro that [of "if b then [] else rv_scratch v @ left"
                "r2\<lparr>rd_last_record_offset := (if b then rd_end_of_buffer_offset r1 - length (rd_buffer r1)
                   else rv_prospective v), rd_first_record_read := True\<rparr>"])
            (simp_all add: ReadRecord_step_def k(2) Let_def synced_def same_fields_def)
      qed
      have "ReadRecord_loop (Suc (k + m)) env mode v r =
          Some (True, (if b then [] else rv_scratch v) @ left, r3)" for m
        using k(1) [rule_format, of "Suc m"] st(1) by simp
      with st(2,3) show "\<exists>k r'. (\<forall>m. ReadRecord_loop (Suc (k + m)) env mode v r =
          Some (True, (if b then [] else rv_scratch v) @ left, r')) \<and> synced (lw_block_offset w2) R r' \<and> same_fields r r'"
        by blast
    qed
    with False show ?thesis
      unfolding unfold using ok2 first [of "[]"]
      by (intro exI [of _ w2] exI [of _ ?bytes] conjI) (simp_all add: w2_def w1_def)
  next
    case True
    then have fl: "fl = avail" "\<not> e" "fl < length left" by (auto simp: fl_def e_def split: if_splits)
    have full: "lw_block_offset w2 = kBlockSize" using fl(1) lp s0 av by (simp add: w2_def w1_def)
    have ty: "t = fragment_type (lw_recycle_log_files w1) b e" by (simp add: t_def w1_def)
    have "\<exists>w' bytes. AddRecord_loop mem_dest (drop fl left) False w2 = (w', Status_OK) \<and> writer_ok w' \<and>
      lw_dest w' = lw_dest w2 @ bytes \<and> lw_recycle_log_files w' = lw_recycle_log_files w2 \<and>
      lw_log_number w' = lw_log_number w2 \<and> lw_manual_flush w' = lw_manual_flush w2 \<and>
      (\<exists>t p rest. bytes = trailer (header_size_of w2) (lw_block_offset w2) @ phys (lw_log_number w2) t p @ rest \<and>
        t \<le> kMaxRecordType \<and> length p < 2 ^ 16 \<and> is_recyclable t = lw_recycle_log_files w2) \<and>
      reads_back env mode w2 w' bytes False (drop fl left)"
      using True full
      by (intro "1.hyps" [OF refl sw [symmetric] _ avail_def fl_def e_def ty refl em [unfolded p_def, symmetric] refl _ ok2])
        simp_all
    then obtain w' bytes where w': "AddRecord_loop mem_dest (drop fl left) False w2 = (w', Status_OK)" "writer_ok w'"
      "lw_dest w' = lw_dest w2 @ bytes" "lw_recycle_log_files w' = lw_recycle_log_files w2"
      "lw_log_number w' = lw_log_number w2" "lw_manual_flush w' = lw_manual_flush w2"
      "reads_back env mode w2 w' bytes False (drop fl left)" by blast
    have "reads_back env mode w w' (?bytes @ bytes) b left"
      unfolding reads_back_def
    proof (intro allI impI)
      fix r :: "(slice, 'u) log_reader" and v :: read_vars and R
      assume r: "synced ?off ((?bytes @ bytes) @ R) r" "reader_for w r" "rv_in_fragmented v = (\<not> b)"
      then obtain k r1 r2 where k: "\<forall>m. ReadRecord_loop (k + m) env mode v r = ReadRecord_loop m env mode v r1"
        "ReadPhysicalRecord env (rv_fragment v) 0 r1 = (t, p, 0, r2)"
        "synced (lw_block_offset w2) (bytes @ R) r2" "same_fields r r2" using frag [of "bytes @ R" r v] by auto
      obtain v2 where v2: "ReadRecord_step env mode v r1 = Again v2 r2" "rv_in_fragmented v2"
        "rv_scratch v2 = (if b then [] else rv_scratch v) @ p"
      proof -
        have "t = (if b then if ?c then 6 else 2 else if ?c then 7 else 3)"
          using fl(2) by (simp add: t_def fragment_type_def)
        then show ?thesis
          using r(3)
          by (intro that [of "if b then v\<lparr>rv_fragment := p, rv_prospective := rd_end_of_buffer_offset r1 - length (rd_buffer r1),
                rv_scratch := p, rv_in_fragmented := True\<rparr> else v\<lparr>rv_fragment := p, rv_scratch := rv_scratch v @ p\<rparr>"])
            (simp_all add: ReadRecord_step_def k(2) Let_def)
      qed
      have "reader_for w2 r2" using r(2) k(4) by (simp add: reader_for_def same_fields_def w2_def w1_def)
      with w'(7) k(3) v2(2) obtain k' r' where k': "\<forall>m. ReadRecord_loop (Suc (k' + m)) env mode v2 r2 =
            Some (True, rv_scratch v2 @ drop fl left, r')" "synced (lw_block_offset w') R r'" "same_fields r2 r'"
        unfolding reads_back_def by (metis (full_types))
      have "ReadRecord_loop (Suc ((k + Suc k') + m)) env mode v r =
          Some (True, (if b then [] else rv_scratch v) @ left, r')" for m
      proof -
        have "ReadRecord_loop (Suc ((k + Suc k') + m)) env mode v r = ReadRecord_loop (k + Suc (Suc (k' + m))) env mode v r"
          by (simp only: add_Suc add_Suc_right add.assoc)
        also have "\<dots> = ReadRecord_loop (Suc (Suc (k' + m))) env mode v r1" by (rule k(1) [rule_format])
        also have "\<dots> = ReadRecord_loop (Suc (k' + m)) env mode v2 r2"
          by (subst ReadRecord_loop.simps(2)) (simp only: v2(1) read_result.case)
        also have "\<dots> = Some (True, rv_scratch v2 @ drop fl left, r')" by (rule k'(1) [rule_format])
        finally show ?thesis by (simp add: v2(3) p_def)
      qed
      with k'(2) same_fields_trans [OF k(4) k'(3)]
      show "\<exists>k r'. (\<forall>m. ReadRecord_loop (Suc (k + m)) env mode v r =
          Some (True, (if b then [] else rv_scratch v) @ left, r')) \<and> synced (lw_block_offset w') R r' \<and> same_fields r r'"
        by blast
    qed
    with True w' show ?thesis
      unfolding unfold using first [of bytes]
      by (intro exI [of _ w'] exI [of _ "?bytes @ bytes"] conjI) (simp_all add: w2_def w1_def)
  qed
qed

lemma read_at_end:
  assumes "env_read env = mem_read" "synced off [] r"
  shows "\<exists>r'. ReadPhysicalRecord env res d r = (kEof, res, d, r') \<and> same_fields r r'"
proof -
  have last: "ReadPhysicalRecord env res d q = (kEof, res, d, q\<lparr>rd_buffer := []\<rparr>)"
    if "rd_eof q" "rd_buffer q = []" for q
    using that by (subst ReadPhysicalRecord.simps) (simp add: ReadMore_def)
  show ?thesis
  proof (cases "rd_eof r")
    case True
    with last [of r] assms(2) show ?thesis by (auto simp: synced_def same_fields_def)
  next
    case False
    then obtain r' where "ReadMore env d r = (More, r')" "rd_eof r'" "rd_buffer r' = []" "same_fields r r'"
      using assms by (auto simp: ReadMore_def mem_read_def synced_def Let_def kBlockSize_def same_fields_def)
    moreover have "ReadPhysicalRecord env res d r = ReadPhysicalRecord env res d r'"
      using assms(2) calculation(1) by (subst ReadPhysicalRecord.simps) (simp add: synced_def)
    ultimately show ?thesis using last [of r'] by (auto simp: same_fields_def)
  qed
qed

section \<open>Whole logs\<close>

fun log_records :: "slice list \<Rightarrow> slice log_writer \<Rightarrow> slice log_writer" where
  "log_records [] w = w"
| "log_records (x # xs) w = log_records xs (fst (AddRecord mem_dest x w))"

fun read_all ::
  "nat \<Rightarrow> nat \<Rightarrow> (slice, 'u) log_env \<Rightarrow> WALRecoveryMode \<Rightarrow> (slice, 'u) log_reader \<Rightarrow>
    (slice list \<times> (slice, 'u) log_reader) option" where
  "read_all fuel 0 env mode r = None"
| "read_all fuel (Suc n) env mode r =
     (case ReadRecord fuel env mode r of
        None \<Rightarrow> None
      | Some (False, _, r') \<Rightarrow> Some ([], r')
      | Some (True, x, r') \<Rightarrow> map_option (\<lambda>(xs, r''). (x # xs, r'')) (read_all fuel n env mode r'))"

lemma ReadRecord_plain:
  "rd_uncompress r = None \<Longrightarrow> ReadRecord fuel env mode r =
     ReadRecord_loop fuel env mode \<lparr>rv_scratch = [], rv_in_fragmented = False, rv_prospective = 0, rv_fragment = []\<rparr> r"
  by (cases r) (simp add: ReadRecord_def)

lemma flush_mem: "do_flush mem_dest f = (f, Status_OK)"
  by (simp add: mem_dest_def)

lemma AddRecord_back:
  assumes "env_read env = mem_read" "writer_ok w"
  shows "\<exists>w' bytes. AddRecord mem_dest x w = (w', Status_OK) \<and> writer_ok w' \<and> lw_dest w' = lw_dest w @ bytes \<and>
    lw_recycle_log_files w' = lw_recycle_log_files w \<and> lw_log_number w' = lw_log_number w \<and>
    (\<forall>r R. synced (lw_block_offset w) (bytes @ R) r \<longrightarrow> reader_for w r \<longrightarrow>
      (\<exists>k r'. (\<forall>fuel>k. ReadRecord fuel env mode r = Some (True, x, r')) \<and>
        synced (lw_block_offset w') R r' \<and> same_fields r r'))"
proof -
  obtain w' bytes where w': "AddRecord_loop mem_dest x True w = (w', Status_OK)" "writer_ok w'"
    "lw_dest w' = lw_dest w @ bytes" "lw_recycle_log_files w' = lw_recycle_log_files w"
    "lw_log_number w' = lw_log_number w" "reads_back env mode w w' bytes True x"
    using AddRecord_loop_back [OF assms, of True x mode] by auto
  have "AddRecord mem_dest x w = (w', Status_OK)" by (simp add: AddRecord_def w'(1) flush_mem)
  moreover have "\<exists>k r'. (\<forall>fuel>k. ReadRecord fuel env mode r = Some (True, x, r')) \<and>
        synced (lw_block_offset w') R r' \<and> same_fields r r'"
    if "synced (lw_block_offset w) (bytes @ R) r" "reader_for w r" for r R
  proof -
    let ?v = "\<lparr>rv_scratch = [], rv_in_fragmented = False, rv_prospective = 0, rv_fragment = []\<rparr>"
    have "\<not> rv_in_fragmented ?v" by simp
    with w'(6) that obtain k r' where k: "\<forall>m. ReadRecord_loop (Suc (k + m)) env mode ?v r = Some (True, x, r')"
      "synced (lw_block_offset w') R r'" "same_fields r r'"
      unfolding reads_back_def by fastforce
    have "ReadRecord fuel env mode r = Some (True, x, r')" if fu: "fuel > k" for fuel
    proof -
      obtain m where "fuel = Suc (k + m)" using fu by (auto simp: less_iff_Suc_add)
      with k(1) \<open>reader_for w r\<close> show ?thesis by (simp add: ReadRecord_plain reader_for_def)
    qed
    with k(2,3) show ?thesis by blast
  qed
  ultimately show ?thesis using w'(2-5) by blast
qed

lemma read_all_log_records:
  assumes env: "env_read env = mem_read"
  shows "writer_ok w \<Longrightarrow> \<exists>bytes. lw_dest (log_records xs w) = lw_dest w @ bytes \<and>
    (\<forall>r. synced (lw_block_offset w) bytes r \<longrightarrow> reader_for w r \<longrightarrow>
      (\<exists>k r'. (\<forall>fuel>k. read_all fuel (Suc (length xs)) env mode r = Some (xs, r')) \<and> same_fields r r'))"
proof (induction xs arbitrary: w)
  case Nil
  have "\<exists>k r'. (\<forall>fuel>k. read_all fuel (Suc 0) env mode r = Some ([], r')) \<and> same_fields r r'"
    if r: "synced (lw_block_offset w) [] r" "reader_for w r" for r
  proof -
    obtain r' where r': "ReadPhysicalRecord env [] 0 r = (kEof, [], 0, r')" "same_fields r r'"
      using read_at_end [OF env r(1)] by blast
    have "ReadRecord (Suc f) env mode r = Some (False, [], r')" for f
      using r(2) by (simp add: ReadRecord_plain reader_for_def ReadRecord_step_def r'(1) Let_def)
    then have "\<forall>fuel>0. read_all fuel (Suc 0) env mode r = Some ([], r')"
      by (auto simp: gr0_conv_Suc)
    with r'(2) show ?thesis by blast
  qed
  then show ?case by (intro exI [of _ "[]"]) simp
next
  case (Cons x xs)
  obtain w' b1 where w': "AddRecord mem_dest x w = (w', Status_OK)" "writer_ok w'" "lw_dest w' = lw_dest w @ b1"
    "lw_recycle_log_files w' = lw_recycle_log_files w" "lw_log_number w' = lw_log_number w"
    and rb: "\<And>r R. synced (lw_block_offset w) (b1 @ R) r \<Longrightarrow> reader_for w r \<Longrightarrow>
      \<exists>k r'. (\<forall>fuel>k. ReadRecord fuel env mode r = Some (True, x, r')) \<and>
        synced (lw_block_offset w') R r' \<and> same_fields r r'"
    using AddRecord_back [OF env Cons.prems, of x mode] by blast
  obtain b2 where b2: "lw_dest (log_records xs w') = lw_dest w' @ b2"
    and rest: "\<And>r. synced (lw_block_offset w') b2 r \<Longrightarrow> reader_for w' r \<Longrightarrow>
      \<exists>k r'. (\<forall>fuel>k. read_all fuel (Suc (length xs)) env mode r = Some (xs, r')) \<and> same_fields r r'"
    using Cons.IH [OF w'(2)] by blast
  have "\<exists>k r'. (\<forall>fuel>k. read_all fuel (Suc (length (x # xs))) env mode r = Some (x # xs, r')) \<and> same_fields r r'"
    if r: "synced (lw_block_offset w) (b1 @ b2) r" "reader_for w r" for r
  proof -
    obtain k1 r1 where 1: "\<forall>fuel>k1. ReadRecord fuel env mode r = Some (True, x, r1)"
      "synced (lw_block_offset w') b2 r1" "same_fields r r1" using rb [OF r] by blast
    have "reader_for w' r1" using r(2) 1(3) w'(4,5) by (simp add: reader_for_def same_fields_def)
    from rest [OF 1(2) this] obtain k2 r2 where 2: "\<forall>fuel>k2. read_all fuel (Suc (length xs)) env mode r1 = Some (xs, r2)"
      "same_fields r1 r2" by blast
    have "\<forall>fuel>max k1 k2. read_all fuel (Suc (length (x # xs))) env mode r = Some (x # xs, r2)"
      using 1(1) 2(1) by simp
    with same_fields_trans [OF 1(3) 2(2)] show ?thesis by blast
  qed
  then show ?case using w' b2 by (intro exI [of _ "b1 @ b2"]) simp
qed

lemma AddRecord_loop_at_boundary:
  "AddRecord_loop ops left begin (w\<lparr>lw_block_offset := kBlockSize\<rparr>) =
     AddRecord_loop ops left begin (w\<lparr>lw_block_offset := 0\<rparr>)"
proof -
  have "switch_block ops (w\<lparr>lw_block_offset := kBlockSize\<rparr>) = switch_block ops (w\<lparr>lw_block_offset := 0\<rparr>)"
    by (simp add: switch_block_def Let_def kBlockSize_def)
  then show ?thesis by (subst (1 2) AddRecord_loop.simps) (simp only:)
qed

lemma writer_ok_init: "writer_ok (Writer_init [] n c mf)"
  by (simp add: writer_ok_def Writer_init_def kBlockSize_def del: upt_Suc)

lemma synced_init: "synced kBlockSize R (Reader_init R ck n)"
  by (simp add: synced_def Reader_init_def)

definition mem_env :: "(slice, unit) log_env" where
  "mem_env = \<lparr>env_read = mem_read, env_streaming_supported = \<lambda>_. False, env_uncompress_new = \<lambda>_. (),
     env_uncompress_reset = \<lambda>_. (), env_uncompress = \<lambda>_ _. (None, ())\<rparr>"

text \<open>
  C13. The log round trip: a reader on the bytes that \<^verbatim>\<open>AddRecord\<close> wrote for any list of records, with the
  plain or the recyclable format, returns exactly these records in order and then the end of the log,
  with enough turns of its loop, in every recovery mode, with or without checksum verification, and
  reports no corruption. For the recyclable format the log number has to fit 32 bits.
\<close>

theorem log_roundtrip:
  assumes "env_read env = mem_read" and "recycle \<Longrightarrow> unat n < 2 ^ 32"
  shows "\<exists>k r'. (\<forall>fuel>k. read_all fuel (Suc (length records)) env mode
      (Reader_init (lw_dest (log_records records (Writer_init [] n recycle manual_flush))) checksum n) =
        Some (records, r')) \<and> rd_reports r' = []"
proof -
  let ?w = "(Writer_init [] n recycle manual_flush)\<lparr>lw_block_offset := kBlockSize\<rparr>"
  have ok: "writer_ok ?w" using writer_ok_init by (simp add: writer_ok_def)
  obtain bytes where bytes: "lw_dest (log_records records ?w) = bytes"
    and read: "\<And>r. synced kBlockSize bytes r \<Longrightarrow> reader_for ?w r \<Longrightarrow>
      \<exists>k r'. (\<forall>fuel>k. read_all fuel (Suc (length records)) env mode r = Some (records, r')) \<and> same_fields r r'"
    using read_all_log_records [OF assms(1) ok, of records mode] by (auto simp: Writer_init_def)
  have same: "lw_dest (log_records records (Writer_init [] n recycle manual_flush)) = bytes"
  proof (cases records)
    case Nil
    then show ?thesis using bytes by (simp add: Writer_init_def)
  next
    case (Cons x xs)
    have w0: "(Writer_init [] n recycle manual_flush)\<lparr>lw_block_offset := 0\<rparr> = Writer_init [] n recycle manual_flush"
      by (simp add: Writer_init_def)
    have "AddRecord mem_dest x ?w = AddRecord mem_dest x (Writer_init [] n recycle manual_flush)"
      by (simp only: AddRecord_def AddRecord_loop_at_boundary w0)
    then show ?thesis using bytes unfolding Cons log_records.simps by (simp only:)
  qed
  let ?r = "Reader_init bytes checksum n"
  have "reader_for ?w ?r"
    using assms(2) by (simp add: reader_for_def Reader_init_def Writer_init_def)
  from read [OF synced_init this] show ?thesis
    by (auto simp: same same_fields_def Reader_init_def)
qed

theorem log_roundtrip_witness:
  "\<exists>k r'. (\<forall>fuel>k. read_all fuel 3 mem_env kAbsoluteConsistency
      (Reader_init (lw_dest (log_records [[1, 2, 3], []] (Writer_init [] 7 True False))) True 7) =
        Some ([[1, 2, 3], []], r')) \<and> rd_reports r' = []"
  using log_roundtrip [of mem_env True 7 "[[1, 2, 3], []]" kAbsoluteConsistency False True]
  by (simp add: mem_env_def numeral_3_eq_3 del: read_all.simps log_records.simps)

section \<open>Old records in recycled logs\<close>

lemma old_record_stays:
  assumes "kRecyclableHeaderSize \<le> length (rd_buffer r)" and "is_recyclable (header_type (rd_buffer r))"
    and "ucast (DecodeFixed32 (drop 7 (rd_buffer r))) \<noteq> rd_log_number r"
  shows "\<exists>r'. ReadPhysicalRecord env res d r = (kOldRecord, res, d, r') \<and> rd_buffer r' = rd_buffer r \<and>
      rd_log_number r' = rd_log_number r \<and> rd_reports r' = rd_reports r"
  using assms by (subst ReadPhysicalRecord.simps) (auto simp: Let_def)

text \<open>
  C14. A record left over from an earlier use of a recycled log ends the log in every recovery mode but
  one: with \<^verbatim>\<open>kSkipAnyCorruptedRecords\<close> the loop of \<^verbatim>\<open>ReadRecord\<close> never returns, since \<^verbatim>\<open>ReadPhysicalRecord\<close>
  reports \<^verbatim>\<open>kOldRecord\<close> without consuming the record and the mode makes the loop try again.
\<close>

theorem old_record_never_skipped:
  assumes "kRecyclableHeaderSize \<le> length (rd_buffer r)" and "is_recyclable (header_type (rd_buffer r))"
    and "ucast (DecodeFixed32 (drop 7 (rd_buffer r))) \<noteq> rd_log_number r"
  shows "(\<forall>fuel. ReadRecord fuel env kSkipAnyCorruptedRecords r = None) \<and>
    (mode \<noteq> kSkipAnyCorruptedRecords \<longrightarrow>
      (\<exists>r'. ReadRecord 1 env mode r = Some (False, [], r') \<and> rd_reports r' = rd_reports r))"
proof -
  have stuck: "\<exists>r'. ReadPhysicalRecord env res d q = (kOldRecord, res, d, r') \<and> rd_buffer r' = rd_buffer q \<and>
      rd_log_number r' = rd_log_number q \<and> rd_reports r' = rd_reports q"
    if "rd_buffer q = rd_buffer r" "rd_log_number q = rd_log_number r" for q res d
    using old_record_stays [of q env res d] assms that by simp
  have "ReadRecord_loop fuel env kSkipAnyCorruptedRecords v q = None"
    if "rd_buffer q = rd_buffer r" "rd_log_number q = rd_log_number r" for fuel v q
    using that
  proof (induction fuel arbitrary: v q)
    case (Suc fuel)
    obtain q' where "ReadPhysicalRecord env (rv_fragment v) 0 q = (kOldRecord, rv_fragment v, 0, q')"
      "rd_buffer q' = rd_buffer r" "rd_log_number q' = rd_log_number r"
      using stuck [OF Suc.prems] Suc.prems by metis
    then show ?case
      using Suc.IH by (simp add: ReadRecord_step_def Let_def ReportCorruption_def ReportDrop_def)
  qed simp
  moreover have "\<exists>r'. ReadRecord 1 env mode r = Some (False, [], r') \<and> rd_reports r' = rd_reports r"
    if "mode \<noteq> kSkipAnyCorruptedRecords"
    using stuck [of "r\<lparr>rd_uncompress := map_option (env_uncompress_reset env) (rd_uncompress r)\<rparr>" "[]" 0] that
    by (auto simp: ReadRecord_def ReadRecord_step_def Let_def)
  ultimately show ?thesis by (simp add: ReadRecord_def)
qed

theorem old_record_never_skipped_witness:
  "\<forall>fuel. ReadRecord fuel mem_env kSkipAnyCorruptedRecords
     ((Reader_init [] True 2)\<lparr>rd_buffer := phys 1 kRecyclableFullType [9]\<rparr>) = None"
proof -
  let ?r = "(Reader_init [] True 2 :: (slice, unit) log_reader)\<lparr>rd_buffer := phys 1 kRecyclableFullType [9]\<rparr>"
  have "kRecyclableHeaderSize \<le> length (rd_buffer ?r)" by (simp add: type_header_size_def is_recyclable_def)
  moreover have "is_recyclable (header_type (rd_buffer ?r))"
    using header_phys(1) [of kRecyclableFullType "[9]" 1 "[]"] by (simp add: is_recyclable_def)
  moreover have "ucast (DecodeFixed32 (drop 7 (rd_buffer ?r))) \<noteq> rd_log_number ?r"
    by (simp add: phys_def log_num_bytes_def is_recyclable_def Reader_init_def)
  ultimately show ?thesis using old_record_never_skipped [of ?r mem_env] by blast
qed

section \<open>Timestamp size records\<close>

lemma EncodeTo_concat:
  "UserDefinedTimestampSizeRecord_EncodeTo dst l =
     dst @ concat (map (\<lambda>(cf, ts). EncodeFixed32 cf @ EncodeFixed16 (word_of_nat ts)) l)"
  by (induction l arbitrary: dst)
    (auto simp: UserDefinedTimestampSizeRecord_EncodeTo_def PutFixed32_def PutFixed16_def)

lemma length_EncodeTo: "length (UserDefinedTimestampSizeRecord_EncodeTo [] l) = 6 * length l"
  unfolding EncodeTo_concat by (induction l) (auto simp: EncodeFixed16_def)

lemma decode_ts_entries_encode:
  "\<forall>(cf, ts) \<in> set l. ts < 2 ^ 16 \<Longrightarrow>
     decode_ts_entries (length l) (concat (map (\<lambda>(cf, ts). EncodeFixed32 cf @ EncodeFixed16 (word_of_nat ts)) l)) acc =
       (Status_OK, acc @ l, [])"
  by (induction l arbitrary: acc) (auto simp: codec_simps unat_of_nat)

text \<open>
  C15. The user-defined timestamp sizes of column families survive the log: decoding an encoded record
  gives back the same list when every size fits 16 bits, consuming all of it.
\<close>

theorem timestamp_size_record_roundtrip:
  assumes "\<forall>(cf, ts) \<in> set l. ts < 2 ^ 16"
  shows "UserDefinedTimestampSizeRecord_DecodeFrom (UserDefinedTimestampSizeRecord_EncodeTo [] l) = (Status_OK, l, [])"
  using decode_ts_entries_encode [OF assms, of "[]"] length_EncodeTo [of l]
  by (simp add: UserDefinedTimestampSizeRecord_DecodeFrom_def Let_def EncodeTo_concat)

theorem timestamp_size_record_roundtrip_witness:
  "UserDefinedTimestampSizeRecord_DecodeFrom (UserDefinedTimestampSizeRecord_EncodeTo [] [(1, 8), (2, 16)]) =
     (Status_OK, [(1, 8), (2, 16)], [])"
  by (rule timestamp_size_record_roundtrip) simp

lemma header_take:
  assumes "7 \<le> k"
  shows "header_type (take k b) = header_type b" and "header_length (take k b) = header_length b"
  using assms by (simp_all add: header_type_def header_length_def)





end
