(* ===== verification/Wide_Columns.thy ===== *)
theory Wide_Columns
  imports Comparator
begin

text \<open>
  \<^verbatim>\<open>db/wide/wide_column_serialization.cc\<close>: the layout of a wide-column entity. A sorted index of column
  names and value sizes is followed by the values; the reader rejects an index out of order, so the
  binary search of \<^verbatim>\<open>Find\<close> may rely on the order. A serializer that fails has already appended part of its
  output: the model keeps it.
\<close>

type_synonym WideColumn = "slice \<times> slice"

abbreviation (input) column_name :: "WideColumn \<Rightarrow> slice" where "column_name \<equiv> fst"
abbreviation (input) column_value :: "WideColumn \<Rightarrow> slice" where "column_value \<equiv> snd"
abbreviation (input) kDefaultWideColumnName :: slice where "kDefaultWideColumnName \<equiv> []"
abbreviation (input) kCurrentVersion :: u32 where "kCurrentVersion \<equiv> 1"
abbreviation (input) u32_max :: nat where "u32_max \<equiv> 4294967295"

section \<open>Writing\<close>

fun serialize_index :: "slice option \<Rightarrow> WideColumn list \<Rightarrow> slice \<Rightarrow> status \<times> slice" where
  "serialize_index prev_name [] out = (Status_OK, out)"
| "serialize_index prev_name (column # columns) out =
     (if length (column_name column) > u32_max then (Status_InvalidArgument ''Wide column name too long'', out)
      else if (case prev_name of None \<Rightarrow> False | Some p \<Rightarrow> Slice_compare p (column_name column) \<ge> 0)
        then (Status_Corruption ''Wide columns out of order'', out)
      else if length (column_value column) > u32_max then (Status_InvalidArgument ''Wide column value too long'', out)
      else serialize_index (Some (column_name column)) columns
        (PutVarint32 (PutLengthPrefixedSlice out (column_name column)) (word_of_nat (length (column_value column)))))"

definition SerializeImpl :: "slice option \<Rightarrow> WideColumn list \<Rightarrow> slice \<Rightarrow> status \<times> slice" where
  "SerializeImpl value_of_default columns out =
     (let num_columns = (if value_of_default \<noteq> None then length columns + 1 else length columns) in
      if num_columns > u32_max then (Status_InvalidArgument ''Too many wide columns'', out) else
      let out = PutVarint32 (PutVarint32 out kCurrentVersion) (word_of_nat num_columns) in
      case value_of_default of
        None \<Rightarrow>
          (case serialize_index None columns out of (s, out) \<Rightarrow>
             if \<not> ok s then (s, out) else (Status_OK, fold (\<lambda>column out. out @ column_value column) columns out))
      | Some v \<Rightarrow>
          if length v > u32_max then (Status_InvalidArgument ''Wide column value too long'', out) else
          (case serialize_index (Some kDefaultWideColumnName) columns
               (PutVarint32 (PutLengthPrefixedSlice out kDefaultWideColumnName) (word_of_nat (length v))) of (s, out) \<Rightarrow>
             if \<not> ok s then (s, out)
             else (Status_OK, fold (\<lambda>column out. out @ column_value column) columns (out @ v))))"

definition Serialize :: "WideColumn list \<Rightarrow> slice \<Rightarrow> status \<times> slice" where
  "Serialize columns out = SerializeImpl None columns out"

definition Serialize_default :: "slice \<Rightarrow> WideColumn list \<Rightarrow> slice \<Rightarrow> status \<times> slice" where
  "Serialize_default value_of_default other_columns out = SerializeImpl (Some value_of_default) other_columns out"

section \<open>Reading\<close>

fun deserialize_index :: "nat \<Rightarrow> slice \<Rightarrow> WideColumn list \<Rightarrow> u32 list \<Rightarrow>
    status \<times> slice \<times> WideColumn list \<times> u32 list" where
  "deserialize_index 0 input columns sizes = (Status_OK, input, columns, sizes)"
| "deserialize_index (Suc n) input columns sizes =
     (case GetLengthPrefixedSlice input of
        None \<Rightarrow> (Status_Corruption ''Error decoding wide column name'', input, columns, sizes)
      | Some (name, input) \<Rightarrow>
          if columns \<noteq> [] \<and> Slice_compare (column_name (last columns)) name \<ge> 0
          then (Status_Corruption ''Wide columns out of order'', input, columns, sizes)
          else case GetVarint32 input of
            None \<Rightarrow> (Status_Corruption ''Error decoding wide column value size'', input, columns @ [(name, [])], sizes)
          | Some (value_size, input) \<Rightarrow> deserialize_index n input (columns @ [(name, [])]) (sizes @ [value_size]))"

text \<open>The value loop: column \<open>i\<close> gets the next \<open>sizes ! i\<close> bytes from position \<open>pos\<close> of the data.\<close>

fun deserialize_values :: "nat \<Rightarrow> nat \<Rightarrow> slice \<Rightarrow> u32 list \<Rightarrow> WideColumn list \<Rightarrow> status \<times> WideColumn list" where
  "deserialize_values i pos data [] columns = (Status_OK, columns)"
| "deserialize_values i pos data (value_size # sizes) columns =
     (if pos + unat value_size > length data
      then (Status_Corruption ''Error decoding wide column value payload'', columns)
      else deserialize_values (Suc i) (pos + unat value_size) data sizes
        (columns[i := (column_name (columns ! i), take (unat value_size) (drop pos data))]))"

definition Deserialize :: "slice \<Rightarrow> status \<times> slice \<times> WideColumn list" where
  "Deserialize input =
     (case GetVarint32 input of
        None \<Rightarrow> (Status_Corruption ''Error decoding wide column version'', input, [])
      | Some (version, input) \<Rightarrow>
          if version > kCurrentVersion then (Status_NotSupported ''Unsupported wide column version'', input, [])
          else case GetVarint32 input of
            None \<Rightarrow> (Status_Corruption ''Error decoding number of wide columns'', input, [])
          | Some (num_columns, input) \<Rightarrow>
              if num_columns = 0 then (Status_OK, input, [])
              else case deserialize_index (unat num_columns) input [] [] of (s, input, columns, sizes) \<Rightarrow>
                if \<not> ok s then (s, input, columns)
                else case deserialize_values 0 0 input sizes columns of (s, columns) \<Rightarrow> (s, input, columns))"

section \<open>Looking up a column\<close>

text \<open>\<^verbatim>\<open>std::lower_bound\<close>: halving a range of positions; \<open>P\<close> is the comparison with the searched key.\<close>

function lower_bound :: "(nat \<Rightarrow> bool) \<Rightarrow> nat \<Rightarrow> nat \<Rightarrow> nat" where
  "lower_bound P first len =
     (if len = 0 then first
      else let half = len div 2; middle = first + half in
        if P middle then lower_bound P (middle + 1) (len - half - 1) else lower_bound P first half)"
  by pat_completeness auto
termination by (relation "measure (\<lambda>(P, first, len). len)") auto

declare lower_bound.simps [simp del]

text \<open>The end iterator is \<open>None\<close>.\<close>

definition Find :: "WideColumn list \<Rightarrow> slice \<Rightarrow> nat option" where
  "Find columns name =
     (let it = lower_bound (\<lambda>i. Slice_compare (column_name (columns ! i)) name < 0) 0 (length columns) in
      if it = length columns \<or> \<not> Slice_equal (column_name (columns ! it)) name then None else Some it)"

definition GetValueOfDefaultColumn :: "slice \<Rightarrow> status \<times> slice option" where
  "GetValueOfDefaultColumn input =
     (case Deserialize input of (s, _, columns) \<Rightarrow>
        if \<not> ok s then (s, None)
        else if columns = [] \<or> \<not> Slice_equal (column_name (hd columns)) kDefaultWideColumnName
        then (Status_OK, Some [])
        else (Status_OK, Some (column_value (hd columns))))"

section \<open>Lemmas\<close>

definition sorted_columns :: "WideColumn list \<Rightarrow> bool" where
  "sorted_columns columns \<longleftrightarrow> sorted_wrt (\<lambda>a b. lex_cmp a b < 0) (map column_name columns)"

definition small_columns :: "WideColumn list \<Rightarrow> bool" where
  "small_columns columns \<longleftrightarrow> (\<forall>(n, v) \<in> set columns. length n \<le> u32_max \<and> length v \<le> u32_max)"

definition index_bytes :: "WideColumn list \<Rightarrow> slice" where
  "index_bytes columns = concat (map (\<lambda>(n, v). EncodeLengthPrefixed n @ EncodeVarint32 (word_of_nat (length v))) columns)"

lemma sorted_columns_Cons:
  "sorted_columns (c # cs) \<longleftrightarrow> (\<forall>d \<in> set cs. lex_cmp (fst c) (fst d) < 0) \<and> sorted_columns cs"
  by (simp add: sorted_columns_def)

lemma sorted_columns_snoc:
  "sorted_columns (cs @ [c]) \<longleftrightarrow> sorted_columns cs \<and> (cs = [] \<or> lex_cmp (fst (last cs)) (fst c) < 0)"
proof (cases cs rule: rev_cases)
  case (snoc as a)
  have "lex_cmp (fst d) (fst c) < 0" if "lex_cmp (fst d) (fst a) < 0" "lex_cmp (fst a) (fst c) < 0" for d
    using lex_cmp_less_trans that by blast
  then show ?thesis by (auto simp: snoc sorted_columns_def sorted_wrt_append)
qed (simp add: sorted_columns_def)

lemma index_bytes_simps [simp]:
  "index_bytes [] = []"
  "index_bytes ((n, v) # cs) = EncodeLengthPrefixed n @ EncodeVarint32 (word_of_nat (length v)) @ index_bytes cs"
  by (simp_all add: index_bytes_def)

lemma fold_append_values: "fold (\<lambda>c out. out @ snd c) columns out = out @ concat (map snd columns)"
  by (induction columns arbitrary: out) simp_all

lemma serialize_index_ok:
  "ok (fst (serialize_index prev columns out)) \<longleftrightarrow>
     small_columns columns \<and> sorted_columns columns \<and>
     (\<forall>p. prev = Some p \<longrightarrow> (\<forall>c \<in> set columns. lex_cmp p (fst c) < 0))"
proof (induction prev columns out rule: serialize_index.induct)
  case (2 prev c cs out)
  have t: "(\<forall>d \<in> set cs. lex_cmp p (fst d) < 0)"
    if "lex_cmp p (fst c) < 0" "\<forall>d \<in> set cs. lex_cmp (fst c) (fst d) < 0" for p
    using that lex_cmp_less_trans by blast
  have small: "small_columns (c # cs) \<longleftrightarrow>
      \<not> u32_max < length (fst c) \<and> \<not> u32_max < length (snd c) \<and> small_columns cs"
    by (cases c) (simp add: small_columns_def not_less)
  let ?ooo = "case prev of None \<Rightarrow> False | Some p \<Rightarrow> Slice_compare p (fst c) \<ge> 0"
  have ord: "?ooo \<longleftrightarrow> (\<exists>p. prev = Some p \<and> \<not> lex_cmp p (fst c) < 0)"
    by (cases prev) (simp_all add: Slice_compare_lex not_less)
  consider (name) "u32_max < length (fst c)" | (ord) ?ooo | (val) "u32_max < length (snd c)"
    | (fine) "\<not> u32_max < length (fst c)" "\<not> ?ooo" "\<not> u32_max < length (snd c)" by blast
  then show ?case
  proof cases
    case fine
    then show ?thesis
      unfolding small sorted_columns_Cons using 2 [OF fine] t ord by (cases prev) auto
  next
    case ord': ord
    then show ?thesis using ord by auto
  qed (simp_all only: small, simp_all)
qed (simp add: small_columns_def sorted_columns_def)

lemma serialize_index_out:
  "ok (fst (serialize_index prev columns out)) \<Longrightarrow>
     serialize_index prev columns out = (Status_OK, out @ index_bytes columns)"
proof (induction prev columns out rule: serialize_index.induct)
  case (2 prev c cs out)
  then show ?case
    by (cases c) (auto simp: PutLengthPrefixedSlice_append PutVarint32_def split: if_splits)
qed simp

lemma deserialize_index_back:
  assumes "small_columns cs" and "sorted_columns (done @ cs)"
  shows "deserialize_index (length cs) (index_bytes cs @ rest) done sizes =
    (Status_OK, rest, done @ map (\<lambda>c. (fst c, [])) cs, sizes @ map (\<lambda>c. word_of_nat (length (snd c))) cs)"
  using assms
proof (induction cs arbitrary: "done" sizes)
  case (Cons c cs)
  obtain n v where c: "c = (n, v)" by (cases c)
  have n: "length n < 2 ^ 32" using Cons.prems(1) by (simp add: small_columns_def c)
  have "sorted_columns (done @ [c])" 
    using Cons.prems(2) by (simp add: sorted_columns_def sorted_wrt_append)
  then have ord: "done = [] \<or> \<not> Slice_compare (fst (last done)) n \<ge> 0"
    by (simp add: sorted_columns_snoc Slice_compare_lex c not_le)
  have "small_columns cs" using Cons.prems(1) by (simp add: small_columns_def)
  moreover have "sorted_columns ((done @ [(n, [])]) @ cs)"
    using Cons.prems(2) by (simp add: sorted_columns_def c)
  ultimately show ?case
    using Cons.IH [of "done @ [(n, [])]" "sizes @ [word_of_nat (length v)]"] n ord
    by (auto simp: c codec_simps)
qed simp

lemma deserialize_index_sorted:
  "deserialize_index n input columns sizes = (s, input', columns', sizes') \<Longrightarrow> ok s \<Longrightarrow> sorted_columns columns \<Longrightarrow>
   length sizes = length columns \<Longrightarrow>
   sorted_columns columns' \<and> length columns' = length columns + n \<and> length sizes' = length columns'"
proof (induction n input columns sizes rule: deserialize_index.induct)
  case (2 n input columns sizes)
  then show ?case
    by (auto simp: sorted_columns_snoc Slice_compare_lex not_le split: option.splits if_splits)
qed auto

lemma deserialize_values_back:
  assumes "i + length cs = length columns" and "\<forall>c \<in> set cs. length (snd c) < 2 ^ 32"
    and "drop i (map fst columns) = map fst cs" and "drop pos data = concat (map snd cs) @ rest"
    and "pos \<le> length data"
  shows "deserialize_values i pos data (map (\<lambda>c. word_of_nat (length (snd c))) cs) columns =
    (Status_OK, take i columns @ cs)"
  using assms
proof (induction cs arbitrary: i pos columns)
  case (Cons c cs)
  let ?v = "snd c"
  let ?cols = "columns[i := (fst (columns ! i), take (length ?v) (drop pos data))]"
  have i: "i < length columns" using Cons.prems(1) by simp
  have "fst (columns ! i) # drop (Suc i) (map fst columns) = fst c # map fst cs"
    using Cons.prems(3) Cons_nth_drop_Suc [of i "map fst columns"] i by simp
  then have name: "fst (columns ! i) = fst c" and tl: "drop (Suc i) (map fst columns) = map fst cs" by simp_all
  have "length (drop pos data) \<ge> length ?v" using Cons.prems(4) by simp
  then have room: "pos + length ?v \<le> length data" using Cons.prems(5) by simp
  have upd: "?cols = columns[i := c]" using Cons.prems(4) by (simp add: name prod_eq_iff)
  have names: "drop (Suc i) (map fst (columns[i := c])) = map fst cs"
    using tl by (simp add: map_update)
  have dat: "drop (pos + length ?v) data = concat (map snd cs) @ rest"
    using Cons.prems(4) drop_drop [of "length ?v" pos data] by (simp add: add.commute)
  have "deserialize_values (Suc i) (pos + length ?v) data (map (\<lambda>c. word_of_nat (length (snd c))) cs) (columns[i := c]) =
      (Status_OK, take (Suc i) (columns[i := c]) @ cs)"
    using Cons.prems(1,2) names dat room by (intro Cons.IH) auto
  moreover have "take (Suc i) (columns[i := c]) = take i columns @ [c]"
    using i by (simp add: take_Suc_conv_app_nth)
  ultimately show ?case using Cons.prems(2) room upd by simp
qed simp

lemma map_fst_update: "map fst (columns[i := (fst (columns ! i), v)]) = map fst columns"
  by (cases "i < length columns") (simp_all add: map_update list_update_same_conv list_update_beyond)

lemma deserialize_values_names:
  "map fst (snd (deserialize_values i pos data sizes columns)) = map fst columns"
  by (induction i pos data sizes columns rule: deserialize_values.induct) (simp_all add: map_fst_update)

lemma lower_bound_split:
  assumes "\<forall>i j. i \<le> j \<and> j < first + len \<and> P j \<longrightarrow> P i"
  shows "first \<le> lower_bound P first len \<and> lower_bound P first len \<le> first + len \<and>
    (\<forall>i. first \<le> i \<and> i < lower_bound P first len \<longrightarrow> P i) \<and>
    (\<forall>i. lower_bound P first len \<le> i \<and> i < first + len \<longrightarrow> \<not> P i)"
  using assms
proof (induction P first len rule: lower_bound.induct)
  case (1 P first len)
  note mono = 1(3)
  show ?case
  proof (cases "len = 0")
    case True
    have "lower_bound P first 0 = first" by (subst lower_bound.simps) simp
    then show ?thesis using True by auto
  next
    case False
    define half where "half = len div 2"
    define m where "m = first + half"
    have h: "half < len" using False by (simp add: half_def)
    show ?thesis
    proof (cases "P m")
      case True
      let ?b = "lower_bound P (m + 1) (len - half - 1)"
      have eq: "lower_bound P first len = ?b"
        using False True by (subst lower_bound.simps) (simp add: Let_def half_def m_def)
      have sum: "m + 1 + (len - half - 1) = first + len" using h by (simp add: m_def)
      have IH: "m + 1 \<le> ?b \<and> ?b \<le> first + len \<and> (\<forall>i. m + 1 \<le> i \<and> i < ?b \<longrightarrow> P i) \<and>
          (\<forall>i. ?b \<le> i \<and> i < first + len \<longrightarrow> \<not> P i)"
        using 1(1) [OF False half_def m_def [unfolded half_def, folded half_def] True] mono unfolding sum by blast
      have low: "P i" if "i \<le> m" for i using mono [rule_format, of i m] that True h by (simp add: m_def)
      have "P i" if "i < ?b" for i using that IH low [of i] by (cases "i \<le> m") auto
      then show ?thesis unfolding eq using IH by (auto simp: m_def)
    next
      case no: False
      let ?b = "lower_bound P first half"
      have eq: "lower_bound P first len = ?b"
        using False no by (subst lower_bound.simps) (simp add: Let_def half_def m_def)
      have mono': "\<forall>i j. i \<le> j \<and> j < first + half \<and> P j \<longrightarrow> P i"
      proof (intro allI impI)
        fix i j assume "i \<le> j \<and> j < first + half \<and> P j"
        then show "P i" using mono [rule_format, of i j] h by simp
      qed
      have IH: "first \<le> ?b \<and> ?b \<le> first + half \<and> (\<forall>i. first \<le> i \<and> i < ?b \<longrightarrow> P i) \<and>
          (\<forall>i. ?b \<le> i \<and> i < first + half \<longrightarrow> \<not> P i)"
        using 1(2) [OF False half_def m_def [unfolded half_def, folded half_def] no mono'] .
      have high: "\<not> P i" if "m \<le> i" "i < first + len" for i using mono [rule_format, of m i] no that by blast
      have "\<not> P i" if "?b \<le> i" "i < first + len" for i
        using that IH high [of i] by (cases "m \<le> i") (auto simp: m_def)
      then show ?thesis unfolding eq using IH h by auto
    qed
  qed
qed

lemma Serialize_ok:
  shows "ok (fst (Serialize columns out)) \<longleftrightarrow> length columns \<le> u32_max \<and> small_columns columns \<and> sorted_columns columns"
    and "ok (fst (Serialize columns out)) \<Longrightarrow> Serialize columns out =
     (Status_OK, out @ EncodeVarint32 1 @ EncodeVarint32 (word_of_nat (length columns)) @ index_bytes columns @
       concat (map snd columns))"
proof -
  define pre where "pre = out @ EncodeVarint32 1 @ EncodeVarint32 (word_of_nat (length columns))"
  obtain s out' where e: "serialize_index None columns pre = (s, out')" by force
  have *: "Serialize columns out = (if length columns > u32_max then (Status_InvalidArgument ''Too many wide columns'', out)
      else if \<not> ok s then (s, out') else (Status_OK, out' @ concat (map snd columns)))"
    using e by (simp add: Serialize_def SerializeImpl_def Let_def fold_append_values PutVarint32_def pre_def)
  show ok: "ok (fst (Serialize columns out)) \<longleftrightarrow> length columns \<le> u32_max \<and> small_columns columns \<and> sorted_columns columns"
    using serialize_index_ok [of None columns pre] e by (simp add: * not_less)
  show "Serialize columns out = (Status_OK, out @ EncodeVarint32 1 @ EncodeVarint32 (word_of_nat (length columns)) @
      index_bytes columns @ concat (map snd columns))" if "ok (fst (Serialize columns out))"
    using that serialize_index_out [of None columns pre] e by (simp add: * pre_def split: if_splits)
qed

lemma Serialize_default_eq:
  assumes "ok (fst (Serialize_default v columns out))"
  shows "Serialize_default v columns out = Serialize (([], v) # columns) out"
proof -
  have "length v \<le> u32_max" "Suc (length columns) \<le> u32_max"
    using assms by (auto simp: Serialize_default_def SerializeImpl_def Let_def split: if_splits)
  then show ?thesis
    by (simp add: Serialize_default_def Serialize_def SerializeImpl_def Let_def case_prod_beta)
qed

lemma Deserialize_Serialize:
  assumes "ok (fst (Serialize columns []))"
  shows "Deserialize (snd (Serialize columns []) @ rest) =
    (Status_OK, (if columns = [] then [] else concat (map snd columns)) @ rest, columns)"
proof -
  note out = Serialize_ok(2) [OF assms] and good = assms [unfolded Serialize_ok(1)]
  show ?thesis
  proof (cases "columns = []")
    case True
    then show ?thesis using out by (simp add: Deserialize_def codec_simps)
  next
    case False
    have n: "(word_of_nat (length columns) :: u32) \<noteq> 0" "unat (word_of_nat (length columns) :: u32) = length columns"
      using good False nat_dvd_not_less [of "length columns" 4294967296] by (auto simp: word_of_nat_eq_0_iff)
    have small: "\<forall>c \<in> set columns. length (snd c) < 2 ^ 32"
      using good by (force simp: small_columns_def)
    have "deserialize_index (length columns) (index_bytes columns @ concat (map snd columns) @ rest) [] [] =
        (Status_OK, concat (map snd columns) @ rest, map (\<lambda>c. (fst c, [])) columns,
          map (\<lambda>c. word_of_nat (length (snd c))) columns)"
      using deserialize_index_back [of columns "[]" _ "[]"] good by simp
    moreover have "deserialize_values 0 0 (concat (map snd columns) @ rest)
        (map (\<lambda>c. word_of_nat (length (snd c))) columns) (map (\<lambda>c. (fst c, [])) columns) = (Status_OK, columns)"
      using deserialize_values_back [of 0 columns "map (\<lambda>c. (fst c, [])) columns" 0 "concat (map snd columns) @ rest" rest]
        small by (simp add: comp_def)
    ultimately show ?thesis using out n False by (simp add: Deserialize_def codec_simps)
  qed
qed

lemma Deserialize_sorted:
  assumes "Deserialize input = (s, input', columns)" and "ok s"
  shows "sorted_columns columns"
proof -
  have "sorted_columns (snd (deserialize_values 0 0 data sizes cs))"
    if "deserialize_index n inp [] [] = (s', data, cs, sizes)" "ok s'" for n inp s' data cs sizes
    using deserialize_index_sorted [OF that]
    by (simp add: sorted_columns_def deserialize_values_names)
  then show ?thesis using assms
    by (fastforce simp: Deserialize_def sorted_columns_def split: option.splits if_splits prod.splits)
qed

text \<open>
  C25. A wide-column entity is read back: whatever \<^verbatim>\<open>Serialize\<close> accepts, \<^verbatim>\<open>Deserialize\<close> returns, whatever
  follows it. \<^verbatim>\<open>Serialize\<close> accepts exactly the column lists with strictly increasing names whose lengths fit
  32 bits, and the value passed for the default column is what \<^verbatim>\<open>GetValueOfDefaultColumn\<close> returns.
\<close>

theorem wide_columns_roundtrip:
  "(ok (fst (Serialize columns [])) \<longleftrightarrow>
      length columns \<le> u32_max \<and> small_columns columns \<and> sorted_columns columns) \<and>
   (ok (fst (Serialize columns [])) \<longrightarrow>
      (\<exists>rest'. Deserialize (snd (Serialize columns []) @ rest) = (Status_OK, rest', columns))) \<and>
   (ok (fst (Serialize_default v columns [])) \<longrightarrow>
      GetValueOfDefaultColumn (snd (Serialize_default v columns []) @ rest) = (Status_OK, Some v))"
  using Serialize_ok(1) [of columns "[]"] Deserialize_Serialize [of columns rest]
    Deserialize_Serialize [of "([], v) # columns" rest] Serialize_default_eq [of v columns "[]"]
  by (auto simp: GetValueOfDefaultColumn_def Slice_equal_eq)

theorem wide_columns_roundtrip_witness:
  "GetValueOfDefaultColumn (snd (Serialize_default [9] [([1], [2, 3])] []) @ [7]) = (Status_OK, Some [9])"
proof -
  have "ok (fst (Serialize_default [9] [([1], [2, 3])] []))"
    by (simp add: Serialize_default_def SerializeImpl_def Slice_compare_lex)
  then show ?thesis using wide_columns_roundtrip [of "[([1], [2, 3])]" "[7]" "[9]"] by blast
qed

text \<open>
  C26. Whatever \<^verbatim>\<open>Deserialize\<close> accepts is strictly ordered by name, so the binary search of \<^verbatim>\<open>Find\<close> is exact: it
  returns the position of the column with the given name if there is one, and the end otherwise.
\<close>

theorem wide_columns_find:
  assumes "Deserialize input = (s, input', columns)" and "ok s"
  shows "(Find columns name = Some i \<longleftrightarrow> i < length columns \<and> fst (columns ! i) = name) \<and>
    (Find columns name = None \<longleftrightarrow> name \<notin> fst ` set columns)"
proof -
  let ?P = "\<lambda>i. Slice_compare (fst (columns ! i)) name < 0"
  let ?it = "lower_bound ?P 0 (length columns)"
  have sorted: "lex_cmp (fst (columns ! i)) (fst (columns ! j)) < 0" if "i < j" "j < length columns" for i j
    using Deserialize_sorted [OF assms] that sorted_wrt_nth_less [of _ "map fst columns" i j]
    by (simp add: sorted_columns_def)
  have "?P i" if "i \<le> j" "j < length columns" "?P j" for i j
    using sorted [of i j] that lex_cmp_less_trans [of "fst (columns ! i)" "fst (columns ! j)" name]
    by (cases "i = j") (simp_all add: Slice_compare_lex)
  then have it: "?it \<le> length columns" "\<And>i. i < ?it \<Longrightarrow> ?P i" "\<And>i. ?it \<le> i \<Longrightarrow> i < length columns \<Longrightarrow> \<not> ?P i"
    using lower_bound_split [of 0 "length columns" ?P, unfolded add_0] by blast+
  have hit: "?it = i" if i: "i < length columns" "fst (columns ! i) = name" for i
  proof (rule ccontr)
    assume "?it \<noteq> i"
    moreover have "\<not> i < ?it" using it(2) [of i] i by (auto simp: Slice_compare_lex)
    ultimately have "?it < i" by simp
    then show False using it(3) [of ?it] sorted [of ?it i] i by (simp add: Slice_compare_lex)
  qed
  have f: "Find columns name = (if ?it < length columns \<and> fst (columns ! ?it) = name then Some ?it else None)"
    using it(1) by (auto simp: Find_def Let_def Slice_equal_eq)
  have "name \<in> fst ` set columns \<longleftrightarrow> (\<exists>i < length columns. fst (columns ! i) = name)"
    using in_set_conv_nth [of name "map fst columns"] by auto
  then show ?thesis unfolding f using hit by (auto split: if_splits)
qed

theorem wide_columns_find_witness:
  "Find [([], [9]), ([1], [2, 3])] [1] = Some 1 \<and> Find [([], [9]), ([1], [2, 3])] [2] = None"
proof -
  let ?cs = "[([], [9]), ([1], [2, 3])] :: WideColumn list"
  have "ok (fst (Serialize ?cs []))"
    by (simp add: Serialize_ok(1) small_columns_def sorted_columns_def)
  from Deserialize_Serialize [OF this, of "[]"]
  have "Deserialize (snd (Serialize ?cs []) @ []) = (Status_OK, [9, 2, 3], ?cs)" by simp
  from wide_columns_find [OF this, of "[1]" 1] wide_columns_find [OF this, of "[2]" 0] show ?thesis by simp
qed

end
