(* ===== verification/Kv_Checksum.thy ===== *)
theory Kv_Checksum
  imports Dbformat
begin

text \<open>
  \<^verbatim>\<open>db/kv_checksum.h\<close>: protection information, a checksum of an entry from which its fields can be
  stripped one by one. The value is the exclusive or of one seeded hash per field: key, value,
  operation type, column family and sequence number. The hash \<^verbatim>\<open>NPHash64\<close> (XXPH3 behind the Rust
  interface) is the parameter \<open>hash\<close>, a function of the bytes and the seed. The wrapper classes that only
  record which fields are protected are all the 64-bit value; integers are hashed as their
  little-endian bytes.
\<close>

abbreviation (input) kSeedK :: u64 where "kSeedK \<equiv> 0"
abbreviation (input) kSeedV :: u64 where "kSeedV \<equiv> 0xD28AAD72F49BD50B"
abbreviation (input) kSeedO :: u64 where "kSeedO \<equiv> 0xA5155AE5E937AA16"
abbreviation (input) kSeedS :: u64 where "kSeedS \<equiv> 0x77A00858DDD37F21"
abbreviation (input) kSeedC :: u64 where "kSeedC \<equiv> 0x4A2AB5CBD26F542C"

type_synonym np_hash = "slice \<Rightarrow> u64 \<Rightarrow> u64"

definition GetSlicePartsNPHash64 :: "np_hash \<Rightarrow> slice list \<Rightarrow> u64 \<Rightarrow> u64" where
  "GetSlicePartsNPHash64 hash data seed = hash (fold (\<lambda>part concat_data. concat_data @ part) data []) seed"

definition ProtectionInfo_GetStatus :: "u64 \<Rightarrow> status" where
  "ProtectionInfo_GetStatus val =
     (if val \<noteq> 0 then Status_Corruption ''ProtectionInfo mismatch'' else Status_OK)"

definition ProtectKVO :: "np_hash \<Rightarrow> u64 \<Rightarrow> slice \<Rightarrow> slice \<Rightarrow> ValueType \<Rightarrow> u64" where
  "ProtectKVO hash val key value op_type =
     (let val = val XOR hash key kSeedK; val = val XOR hash value kSeedV in val XOR hash [op_type] kSeedO)"

definition ProtectKVO_parts :: "np_hash \<Rightarrow> u64 \<Rightarrow> slice list \<Rightarrow> slice list \<Rightarrow> ValueType \<Rightarrow> u64" where
  "ProtectKVO_parts hash val key value op_type =
     (let val = val XOR GetSlicePartsNPHash64 hash key kSeedK;
          val = val XOR GetSlicePartsNPHash64 hash value kSeedV in val XOR hash [op_type] kSeedO)"

definition ProtectKV :: "np_hash \<Rightarrow> u64 \<Rightarrow> slice \<Rightarrow> slice \<Rightarrow> u64" where
  "ProtectKV hash val key value = (let val = val XOR hash key kSeedK in val XOR hash value kSeedV)"

definition UpdateK :: "np_hash \<Rightarrow> u64 \<Rightarrow> slice \<Rightarrow> slice \<Rightarrow> u64" where
  "UpdateK hash val old_key new_key = (let val = val XOR hash old_key kSeedK in val XOR hash new_key kSeedK)"

definition UpdateK_parts :: "np_hash \<Rightarrow> u64 \<Rightarrow> slice list \<Rightarrow> slice list \<Rightarrow> u64" where
  "UpdateK_parts hash val old_key new_key =
     (let val = val XOR GetSlicePartsNPHash64 hash old_key kSeedK in
      val XOR GetSlicePartsNPHash64 hash new_key kSeedK)"

definition UpdateV :: "np_hash \<Rightarrow> u64 \<Rightarrow> slice \<Rightarrow> slice \<Rightarrow> u64" where
  "UpdateV hash val old_value new_value =
     (let val = val XOR hash old_value kSeedV in val XOR hash new_value kSeedV)"

definition UpdateV_parts :: "np_hash \<Rightarrow> u64 \<Rightarrow> slice list \<Rightarrow> slice list \<Rightarrow> u64" where
  "UpdateV_parts hash val old_value new_value =
     (let val = val XOR GetSlicePartsNPHash64 hash old_value kSeedV in
      val XOR GetSlicePartsNPHash64 hash new_value kSeedV)"

definition UpdateO :: "np_hash \<Rightarrow> u64 \<Rightarrow> ValueType \<Rightarrow> ValueType \<Rightarrow> u64" where
  "UpdateO hash val old_op_type new_op_type =
     (let val = val XOR hash [old_op_type] kSeedO in val XOR hash [new_op_type] kSeedO)"

definition StripKVO :: "np_hash \<Rightarrow> u64 \<Rightarrow> slice \<Rightarrow> slice \<Rightarrow> ValueType \<Rightarrow> u64" where
  "StripKVO hash val key value op_type =
     (let val = val XOR hash key kSeedK; val = val XOR hash value kSeedV in val XOR hash [op_type] kSeedO)"

definition StripKVO_parts :: "np_hash \<Rightarrow> u64 \<Rightarrow> slice list \<Rightarrow> slice list \<Rightarrow> ValueType \<Rightarrow> u64" where
  "StripKVO_parts hash val key value op_type =
     (let val = val XOR GetSlicePartsNPHash64 hash key kSeedK;
          val = val XOR GetSlicePartsNPHash64 hash value kSeedV in val XOR hash [op_type] kSeedO)"

definition ProtectC :: "np_hash \<Rightarrow> u64 \<Rightarrow> u32 \<Rightarrow> u64" where
  "ProtectC hash val column_family_id = val XOR hash (EncodeFixed32 column_family_id) kSeedC"

definition StripC :: "np_hash \<Rightarrow> u64 \<Rightarrow> u32 \<Rightarrow> u64" where
  "StripC hash val column_family_id = val XOR hash (EncodeFixed32 column_family_id) kSeedC"

definition UpdateC :: "np_hash \<Rightarrow> u64 \<Rightarrow> u32 \<Rightarrow> u32 \<Rightarrow> u64" where
  "UpdateC hash val old_id new_id =
     (let val = val XOR hash (EncodeFixed32 old_id) kSeedC in val XOR hash (EncodeFixed32 new_id) kSeedC)"

definition ProtectS :: "np_hash \<Rightarrow> u64 \<Rightarrow> SequenceNumber \<Rightarrow> u64" where
  "ProtectS hash val sequence_number = val XOR hash (EncodeFixed64 sequence_number) kSeedS"

definition StripS :: "np_hash \<Rightarrow> u64 \<Rightarrow> SequenceNumber \<Rightarrow> u64" where
  "StripS hash val sequence_number = val XOR hash (EncodeFixed64 sequence_number) kSeedS"

definition UpdateS :: "np_hash \<Rightarrow> u64 \<Rightarrow> SequenceNumber \<Rightarrow> SequenceNumber \<Rightarrow> u64" where
  "UpdateS hash val old_seq new_seq =
     (let val = val XOR hash (EncodeFixed64 old_seq) kSeedS in val XOR hash (EncodeFixed64 new_seq) kSeedS)"

text \<open>A checksum truncated to 1, 2, 4 or 8 bytes; any other length is an assertion failure, here \<open>None\<close> and \<open>False\<close>.\<close>

definition ProtectionInfo_Encode :: "u64 \<Rightarrow> nat \<Rightarrow> slice option" where
  "ProtectionInfo_Encode val len =
     (if len = 1 then Some [ucast val]
      else if len = 2 then Some (EncodeFixed16 (ucast val))
      else if len = 4 then Some (EncodeFixed32 (ucast val))
      else if len = 8 then Some (EncodeFixed64 val)
      else None)"

definition ProtectionInfo_Verify :: "u64 \<Rightarrow> nat \<Rightarrow> slice \<Rightarrow> bool" where
  "ProtectionInfo_Verify val len checksum_ptr =
     (if len = 1 then checksum_ptr ! 0 = ucast val
      else if len = 2 then DecodeFixed16 checksum_ptr = ucast val
      else if len = 4 then DecodeFixed32 checksum_ptr = ucast val
      else if len = 8 then DecodeFixed64 checksum_ptr = val
      else False)"

section \<open>Lemmas\<close>

lemma parts_hash: "GetSlicePartsNPHash64 hash data seed = hash (concat data) seed"
proof -
  have "fold (\<lambda>part concat_data. concat_data @ part) data acc = acc @ concat data" for acc
    by (induction data arbitrary: acc) simp_all
  then show ?thesis by (simp add: GetSlicePartsNPHash64_def)
qed

lemma xor_cancel_left: "a XOR b = a XOR c \<longleftrightarrow> b = (c :: 'a::len word)"
  by (metis bit.xor_left_self)

lemma xor_eq_0_iff_eq: "a XOR b = 0 \<longleftrightarrow> a = (b :: 'a::len word)"
  using xor_cancel_left [of a b a] by auto

lemmas protect_defs = ProtectKVO_def ProtectKV_def StripKVO_def ProtectC_def StripC_def ProtectS_def StripS_def
  UpdateK_def UpdateV_def UpdateO_def UpdateC_def UpdateS_def Let_def
lemmas xor_ac = xor.assoc xor.commute xor.left_commute

lemma parts_eq:
  "ProtectKVO_parts hash val ks vs t = ProtectKVO hash val (concat ks) (concat vs) t"
  "StripKVO_parts hash val ks vs t = StripKVO hash val (concat ks) (concat vs) t"
  "UpdateK_parts hash val ks ks' = UpdateK hash val (concat ks) (concat ks')"
  "UpdateV_parts hash val vs vs' = UpdateV hash val (concat vs) (concat vs')"
  by (simp_all add: parts_hash protect_defs ProtectKVO_parts_def StripKVO_parts_def UpdateK_parts_def UpdateV_parts_def)

lemma strip_protect: "StripKVO hash (StripC hash (ProtectC hash (ProtectKVO hash 0 k v t) c) c) k v t = 0"
  by (simp add: protect_defs xor_ac)

lemma update_protect:
  "UpdateK hash (ProtectC hash (ProtectKVO hash val k v t) c) k k' = ProtectC hash (ProtectKVO hash val k' v t) c"
  "UpdateV hash (ProtectC hash (ProtectKVO hash val k v t) c) v v' = ProtectC hash (ProtectKVO hash val k v' t) c"
  by (simp_all add: protect_defs xor_ac)

lemma strip_other:
  "StripKVO hash (StripC hash (ProtectC hash (ProtectKVO hash 0 k v t) c) c) k' v t = hash k kSeedK XOR hash k' kSeedK"
  "StripKVO hash (StripC hash (ProtectC hash (ProtectKVO hash 0 k v t) c) c) k v' t = hash v kSeedV XOR hash v' kSeedV"
  "StripKVO hash (StripC hash (ProtectC hash (ProtectKVO hash 0 k v t) c) c) k v t' = hash [t] kSeedO XOR hash [t'] kSeedO"
  "StripKVO hash (StripC hash (ProtectC hash (ProtectKVO hash 0 k v t) c) c') k v t =
     hash (EncodeFixed32 c) kSeedC XOR hash (EncodeFixed32 c') kSeedC"
  by (simp_all add: protect_defs xor_ac)

lemma strip_moved:
  "StripKVO hash (StripS hash (ProtectS hash (StripC hash (UpdateC hash (UpdateO hash (UpdateV hash (UpdateK hash
      (ProtectC hash (ProtectKVO hash 0 k0 v0 t) c) k0 k) v0 v) t t') c c') c') q) q) k v t' = 0"
  by (simp add: protect_defs xor_ac)

lemma ok_GetStatus: "ok (ProtectionInfo_GetStatus val) \<longleftrightarrow> val = 0"
  by (simp add: ProtectionInfo_GetStatus_def)

lemma Encode_Verify:
  "case ProtectionInfo_Encode val len of None \<Rightarrow> len \<notin> {1, 2, 4, 8}
   | Some enc \<Rightarrow> length enc = len \<and> ProtectionInfo_Verify val len (enc @ rest)"
  by (auto simp: ProtectionInfo_Encode_def ProtectionInfo_Verify_def EncodeFixed16_def EncodeFixed32_def
      EncodeFixed64_def DecodeFixed16_def DecodeFixed32_def DecodeFixed64_def length_le_bytes le_word_le_bytes)


end
