(* ===== verification/Write_Batch.thy ===== *)
theory Write_Batch
  imports Kv_Checksum Wide_Columns
begin

text \<open>
  \<^verbatim>\<open>db/write_batch.cc\<close>, \<^verbatim>\<open>db/write_batch_internal.h\<close>, \<^verbatim>\<open>include/rocksdb/write_batch.h\<close>: the batch of updates that is
  at once the unit of atomicity, the payload of a log record and the input of the memtable. A batch is one
  byte string: an 8-byte sequence number, a 4-byte count and the records. This theory holds the batch and
  the operations that build it; \<open>Write_Batch_Iterate\<close> the reader, \<open>Write_Batch_Props\<close> the properties.

  The release build is modelled: assertions are not branches. A null \<^verbatim>\<open>save_points_\<close> and an empty stack
  are told apart by no operation and are both the empty list; the counts kept in a \<^verbatim>\<open>SavePoint\<close> go through
  \<^verbatim>\<open>int\<close> and back, so they are kept as the 32-bit word they come from and are written back as.
\<close>

section \<open>The batch\<close>

abbreviation (input) kHeader :: nat where "kHeader \<equiv> 12"

abbreviation (input) DEFERRED :: u32 where "DEFERRED \<equiv> 1"
abbreviation (input) HAS_PUT :: u32 where "HAS_PUT \<equiv> 2"
abbreviation (input) HAS_DELETE :: u32 where "HAS_DELETE \<equiv> 4"
abbreviation (input) HAS_SINGLE_DELETE :: u32 where "HAS_SINGLE_DELETE \<equiv> 8"
abbreviation (input) HAS_MERGE :: u32 where "HAS_MERGE \<equiv> 16"
abbreviation (input) HAS_BEGIN_PREPARE :: u32 where "HAS_BEGIN_PREPARE \<equiv> 32"
abbreviation (input) HAS_END_PREPARE :: u32 where "HAS_END_PREPARE \<equiv> 64"
abbreviation (input) HAS_COMMIT :: u32 where "HAS_COMMIT \<equiv> 128"
abbreviation (input) HAS_ROLLBACK :: u32 where "HAS_ROLLBACK \<equiv> 256"
abbreviation (input) HAS_DELETE_RANGE :: u32 where "HAS_DELETE_RANGE \<equiv> 512"
abbreviation (input) HAS_BLOB_INDEX :: u32 where "HAS_BLOB_INDEX \<equiv> 1024"
abbreviation (input) HAS_BEGIN_UNPREPARE :: u32 where "HAS_BEGIN_UNPREPARE \<equiv> 2048"
abbreviation (input) HAS_PUT_ENTITY :: u32 where "HAS_PUT_ENTITY \<equiv> 4096"

type_synonym ContentFlags = u32

record SavePoint =
  sp_size :: nat
  sp_count :: u32
  sp_content_flags :: ContentFlags

definition SavePoint_init :: SavePoint where
  "SavePoint_init = \<lparr>sp_size = 0, sp_count = 0, sp_content_flags = 0\<rparr>"

definition SavePoint_is_cleared :: "SavePoint \<Rightarrow> bool" where
  "SavePoint_is_cleared sp \<longleftrightarrow> sp_size sp = 0 \<and> sp_count sp = 0 \<and> sp_content_flags sp = 0"

record WriteBatch =
  wb_save_points :: "SavePoint list"
  wb_wal_term_point :: SavePoint
  wb_is_latest_persistent_state :: bool
  wb_needs_in_place_update_ts :: bool
  wb_has_key_with_ts :: bool
  wb_content_flags :: ContentFlags
  wb_max_bytes :: nat
  wb_prot_info :: "u64 list option"
  wb_default_cf_ts_sz :: nat
  wb_rep :: slice

definition WriteBatch_init :: "nat \<Rightarrow> nat \<Rightarrow> nat \<Rightarrow> WriteBatch" where
  "WriteBatch_init max_bytes protection_bytes_per_key default_cf_ts_sz =
     \<lparr>wb_save_points = [], wb_wal_term_point = SavePoint_init, wb_is_latest_persistent_state = False,
      wb_needs_in_place_update_ts = False, wb_has_key_with_ts = False, wb_content_flags = 0,
      wb_max_bytes = max_bytes, wb_prot_info = (if protection_bytes_per_key \<noteq> 0 then Some [] else None),
      wb_default_cf_ts_sz = default_cf_ts_sz, wb_rep = replicate kHeader 0\<rparr>"

definition WriteBatch_of_rep :: "slice \<Rightarrow> WriteBatch" where
  "WriteBatch_of_rep rep = (WriteBatch_init 0 0 0)\<lparr>wb_content_flags := DEFERRED, wb_rep := rep\<rparr>"

definition WB_Clear :: "WriteBatch \<Rightarrow> WriteBatch" where
  "WB_Clear b = b\<lparr>wb_rep := replicate kHeader 0, wb_content_flags := 0, wb_save_points := [],
     wb_prot_info := map_option (\<lambda>_. []) (wb_prot_info b), wb_wal_term_point := SavePoint_init,
     wb_default_cf_ts_sz := 0\<rparr>"

definition GetDataSize :: "WriteBatch \<Rightarrow> nat" where
  "GetDataSize b = length (wb_rep b)"

text \<open>The header accessors read and overwrite the string in place.\<close>

definition WBI_Count :: "WriteBatch \<Rightarrow> u32" where
  "WBI_Count b = DecodeFixed32 (drop 8 (wb_rep b))"

definition WBI_SetCount :: "u32 \<Rightarrow> WriteBatch \<Rightarrow> WriteBatch" where
  "WBI_SetCount n b = b\<lparr>wb_rep := take 8 (wb_rep b) @ EncodeFixed32 n @ drop 12 (wb_rep b)\<rparr>"

definition WBI_Sequence :: "WriteBatch \<Rightarrow> SequenceNumber" where
  "WBI_Sequence b = DecodeFixed64 (wb_rep b)"

definition WBI_SetSequence :: "SequenceNumber \<Rightarrow> WriteBatch \<Rightarrow> WriteBatch" where
  "WBI_SetSequence seq b = b\<lparr>wb_rep := EncodeFixed64 seq @ drop 8 (wb_rep b)\<rparr>"

definition WB_Release :: "WriteBatch \<Rightarrow> slice \<times> WriteBatch" where
  "WB_Release b = (wb_rep b, WB_Clear b)"

definition MarkWalTerminationPoint :: "WriteBatch \<Rightarrow> WriteBatch" where
  "MarkWalTerminationPoint b = b\<lparr>wb_wal_term_point :=
     \<lparr>sp_size = GetDataSize b, sp_count = WBI_Count b, sp_content_flags = wb_content_flags b\<rparr>\<rparr>"

definition GetProtectionBytesPerKey :: "WriteBatch \<Rightarrow> nat" where
  "GetProtectionBytesPerKey b = (if wb_prot_info b \<noteq> None then 8 else 0)"

section \<open>Appending a record\<close>

definition Status_MemoryLimit :: status where
  "Status_MemoryLimit = Status kAborted kMemoryLimit []"

definition LocalSavePoint :: "WriteBatch \<Rightarrow> SavePoint" where
  "LocalSavePoint b = \<lparr>sp_size = GetDataSize b, sp_count = WBI_Count b, sp_content_flags = wb_content_flags b\<rparr>"

text \<open>\<^verbatim>\<open>resize\<close> of a string or a vector cuts or pads with zeros.\<close>

definition resize :: "nat \<Rightarrow> 'a::zero list \<Rightarrow> 'a list" where
  "resize n xs = take n xs @ replicate (n - length xs) 0"

definition commit :: "SavePoint \<Rightarrow> WriteBatch \<Rightarrow> status \<times> WriteBatch" where
  "commit savepoint b =
     (if wb_max_bytes b \<noteq> 0 \<and> length (wb_rep b) > wb_max_bytes b then
        (let b = b\<lparr>wb_rep := resize (sp_size savepoint) (wb_rep b)\<rparr>;
             b = WBI_SetCount (sp_count savepoint) b;
             b = b\<lparr>wb_prot_info := map_option (resize (unat (sp_count savepoint))) (wb_prot_info b)\<rparr>;
             b = b\<lparr>wb_content_flags := sp_content_flags savepoint\<rparr>
         in (Status_MemoryLimit, b))
      else (Status_OK, b))"

definition push_tag :: "u32 \<Rightarrow> ValueType \<Rightarrow> ValueType \<Rightarrow> slice \<Rightarrow> slice" where
  "push_tag column_family_id tag cf_tag rep =
     (if column_family_id = 0 then rep @ [tag] else PutVarint32 (rep @ [cf_tag]) column_family_id)"

definition or_flags :: "ContentFlags \<Rightarrow> WriteBatch \<Rightarrow> WriteBatch" where
  "or_flags f b = b\<lparr>wb_content_flags := wb_content_flags b OR f\<rparr>"

definition add_protection :: "u64 \<Rightarrow> WriteBatch \<Rightarrow> WriteBatch" where
  "add_protection e b = b\<lparr>wb_prot_info := map_option (\<lambda>entries. entries @ [e]) (wb_prot_info b)\<rparr>"

definition WBI_Put :: "np_hash \<Rightarrow> u32 \<Rightarrow> slice \<Rightarrow> slice \<Rightarrow> WriteBatch \<Rightarrow> status \<times> WriteBatch" where
  "WBI_Put hash cf key value b =
     (if length key > u32_max then (Status_InvalidArgument ''key is too large'', b)
      else if length value > u32_max then (Status_InvalidArgument ''value is too large'', b)
      else
        let save = LocalSavePoint b;
            b = WBI_SetCount (WBI_Count b + 1) b;
            b = b\<lparr>wb_rep := push_tag cf kTypeValue kTypeColumnFamilyValue (wb_rep b)\<rparr>;
            b = b\<lparr>wb_rep := PutLengthPrefixedSlice (wb_rep b) key\<rparr>;
            b = b\<lparr>wb_rep := PutLengthPrefixedSlice (wb_rep b) value\<rparr>;
            b = or_flags HAS_PUT b;
            b = add_protection (ProtectC hash (ProtectKVO hash 0 key value kTypeValue) cf) b
        in commit save b)"

definition CheckSlicePartsLength :: "slice list \<Rightarrow> slice list \<Rightarrow> status" where
  "CheckSlicePartsLength key value =
     (if fold (\<lambda>part n. n + length part) key 0 \<ge> u32_max then Status_InvalidArgument ''key is too large''
      else if fold (\<lambda>part n. n + length part) value 0 \<ge> u32_max then Status_InvalidArgument ''value is too large''
      else Status_OK)"

definition WBI_Put_parts :: "np_hash \<Rightarrow> u32 \<Rightarrow> slice list \<Rightarrow> slice list \<Rightarrow> WriteBatch \<Rightarrow> status \<times> WriteBatch" where
  "WBI_Put_parts hash cf key value b =
     (let s = CheckSlicePartsLength key value in
      if \<not> ok s then (s, b)
      else
        let save = LocalSavePoint b;
            b = WBI_SetCount (WBI_Count b + 1) b;
            b = b\<lparr>wb_rep := push_tag cf kTypeValue kTypeColumnFamilyValue (wb_rep b)\<rparr>;
            b = b\<lparr>wb_rep := PutLengthPrefixedSliceParts (wb_rep b) key\<rparr>;
            b = b\<lparr>wb_rep := PutLengthPrefixedSliceParts (wb_rep b) value\<rparr>;
            b = or_flags HAS_PUT b;
            b = add_protection (ProtectC hash (ProtectKVO_parts hash 0 key value kTypeValue) cf) b
        in commit save b)"

text \<open>
  The columns are sorted by name with \<^verbatim>\<open>std::sort\<close>. It leaves the order of equal names open, but two equal
  names make the serialization fail in every order.
\<close>

definition sort_columns :: "WideColumn list \<Rightarrow> WideColumn list" where
  "sort_columns columns = foldr (\<lambda>c cs. takeWhile (\<lambda>d. Slice_compare (fst d) (fst c) < 0) cs @
     c # dropWhile (\<lambda>d. Slice_compare (fst d) (fst c) < 0) cs) columns []"

definition WBI_PutEntity :: "np_hash \<Rightarrow> u32 \<Rightarrow> slice \<Rightarrow> WideColumn list \<Rightarrow> WriteBatch \<Rightarrow> status \<times> WriteBatch" where
  "WBI_PutEntity hash cf key columns b =
     (if length key > u32_max then (Status_InvalidArgument ''key is too large'', b)
      else case Serialize (sort_columns columns) [] of (s, entity) \<Rightarrow>
        if \<not> ok s then (s, b)
        else if length entity > u32_max then (Status_InvalidArgument ''wide column entity is too large'', b)
        else
          let save = LocalSavePoint b;
              b = WBI_SetCount (WBI_Count b + 1) b;
              b = b\<lparr>wb_rep := push_tag cf kTypeWideColumnEntity kTypeColumnFamilyWideColumnEntity (wb_rep b)\<rparr>;
              b = b\<lparr>wb_rep := PutLengthPrefixedSlice (wb_rep b) key\<rparr>;
              b = b\<lparr>wb_rep := PutLengthPrefixedSlice (wb_rep b) entity\<rparr>;
              b = or_flags HAS_PUT_ENTITY b;
              b = add_protection (ProtectC hash (ProtectKVO hash 0 key entity kTypeWideColumnEntity) cf) b
          in commit save b)"

definition WBI_Delete :: "np_hash \<Rightarrow> u32 \<Rightarrow> slice \<Rightarrow> WriteBatch \<Rightarrow> status \<times> WriteBatch" where
  "WBI_Delete hash cf key b =
     (let save = LocalSavePoint b;
          b = WBI_SetCount (WBI_Count b + 1) b;
          b = b\<lparr>wb_rep := push_tag cf kTypeDeletion kTypeColumnFamilyDeletion (wb_rep b)\<rparr>;
          b = b\<lparr>wb_rep := PutLengthPrefixedSlice (wb_rep b) key\<rparr>;
          b = or_flags HAS_DELETE b;
          b = add_protection (ProtectC hash (ProtectKVO hash 0 key [] kTypeDeletion) cf) b
      in commit save b)"

definition WBI_Delete_parts :: "np_hash \<Rightarrow> u32 \<Rightarrow> slice list \<Rightarrow> WriteBatch \<Rightarrow> status \<times> WriteBatch" where
  "WBI_Delete_parts hash cf key b =
     (let save = LocalSavePoint b;
          b = WBI_SetCount (WBI_Count b + 1) b;
          b = b\<lparr>wb_rep := push_tag cf kTypeDeletion kTypeColumnFamilyDeletion (wb_rep b)\<rparr>;
          b = b\<lparr>wb_rep := PutLengthPrefixedSliceParts (wb_rep b) key\<rparr>;
          b = or_flags HAS_DELETE b;
          b = add_protection (ProtectC hash (ProtectKVO_parts hash 0 key [] kTypeDeletion) cf) b
      in commit save b)"

definition WBI_SingleDelete :: "np_hash \<Rightarrow> u32 \<Rightarrow> slice \<Rightarrow> WriteBatch \<Rightarrow> status \<times> WriteBatch" where
  "WBI_SingleDelete hash cf key b =
     (let save = LocalSavePoint b;
          b = WBI_SetCount (WBI_Count b + 1) b;
          b = b\<lparr>wb_rep := push_tag cf kTypeSingleDeletion kTypeColumnFamilySingleDeletion (wb_rep b)\<rparr>;
          b = b\<lparr>wb_rep := PutLengthPrefixedSlice (wb_rep b) key\<rparr>;
          b = or_flags HAS_SINGLE_DELETE b;
          b = add_protection (ProtectC hash (ProtectKVO hash 0 key [] kTypeSingleDeletion) cf) b
      in commit save b)"

definition WBI_SingleDelete_parts :: "np_hash \<Rightarrow> u32 \<Rightarrow> slice list \<Rightarrow> WriteBatch \<Rightarrow> status \<times> WriteBatch" where
  "WBI_SingleDelete_parts hash cf key b =
     (let save = LocalSavePoint b;
          b = WBI_SetCount (WBI_Count b + 1) b;
          b = b\<lparr>wb_rep := push_tag cf kTypeSingleDeletion kTypeColumnFamilySingleDeletion (wb_rep b)\<rparr>;
          b = b\<lparr>wb_rep := PutLengthPrefixedSliceParts (wb_rep b) key\<rparr>;
          b = or_flags HAS_SINGLE_DELETE b;
          b = add_protection (ProtectC hash (ProtectKVO_parts hash 0 key [] kTypeSingleDeletion) cf) b
      in commit save b)"

definition WBI_DeleteRange :: "np_hash \<Rightarrow> u32 \<Rightarrow> slice \<Rightarrow> slice \<Rightarrow> WriteBatch \<Rightarrow> status \<times> WriteBatch" where
  "WBI_DeleteRange hash cf begin_key end_key b =
     (let save = LocalSavePoint b;
          b = WBI_SetCount (WBI_Count b + 1) b;
          b = b\<lparr>wb_rep := push_tag cf kTypeRangeDeletion kTypeColumnFamilyRangeDeletion (wb_rep b)\<rparr>;
          b = b\<lparr>wb_rep := PutLengthPrefixedSlice (wb_rep b) begin_key\<rparr>;
          b = b\<lparr>wb_rep := PutLengthPrefixedSlice (wb_rep b) end_key\<rparr>;
          b = or_flags HAS_DELETE_RANGE b;
          b = add_protection (ProtectC hash (ProtectKVO hash 0 begin_key end_key kTypeRangeDeletion) cf) b
      in commit save b)"

definition WBI_DeleteRange_parts :: "np_hash \<Rightarrow> u32 \<Rightarrow> slice list \<Rightarrow> slice list \<Rightarrow> WriteBatch \<Rightarrow> status \<times> WriteBatch" where
  "WBI_DeleteRange_parts hash cf begin_key end_key b =
     (let save = LocalSavePoint b;
          b = WBI_SetCount (WBI_Count b + 1) b;
          b = b\<lparr>wb_rep := push_tag cf kTypeRangeDeletion kTypeColumnFamilyRangeDeletion (wb_rep b)\<rparr>;
          b = b\<lparr>wb_rep := PutLengthPrefixedSliceParts (wb_rep b) begin_key\<rparr>;
          b = b\<lparr>wb_rep := PutLengthPrefixedSliceParts (wb_rep b) end_key\<rparr>;
          b = or_flags HAS_DELETE_RANGE b;
          b = add_protection (ProtectC hash (ProtectKVO_parts hash 0 begin_key end_key kTypeRangeDeletion) cf) b
      in commit save b)"

definition WBI_Merge :: "np_hash \<Rightarrow> u32 \<Rightarrow> slice \<Rightarrow> slice \<Rightarrow> WriteBatch \<Rightarrow> status \<times> WriteBatch" where
  "WBI_Merge hash cf key value b =
     (if length key > u32_max then (Status_InvalidArgument ''key is too large'', b)
      else if length value > u32_max then (Status_InvalidArgument ''value is too large'', b)
      else
        let save = LocalSavePoint b;
            b = WBI_SetCount (WBI_Count b + 1) b;
            b = b\<lparr>wb_rep := push_tag cf kTypeMerge kTypeColumnFamilyMerge (wb_rep b)\<rparr>;
            b = b\<lparr>wb_rep := PutLengthPrefixedSlice (wb_rep b) key\<rparr>;
            b = b\<lparr>wb_rep := PutLengthPrefixedSlice (wb_rep b) value\<rparr>;
            b = or_flags HAS_MERGE b;
            b = add_protection (ProtectC hash (ProtectKVO hash 0 key value kTypeMerge) cf) b
        in commit save b)"

definition WBI_Merge_parts :: "np_hash \<Rightarrow> u32 \<Rightarrow> slice list \<Rightarrow> slice list \<Rightarrow> WriteBatch \<Rightarrow> status \<times> WriteBatch" where
  "WBI_Merge_parts hash cf key value b =
     (let s = CheckSlicePartsLength key value in
      if \<not> ok s then (s, b)
      else
        let save = LocalSavePoint b;
            b = WBI_SetCount (WBI_Count b + 1) b;
            b = b\<lparr>wb_rep := push_tag cf kTypeMerge kTypeColumnFamilyMerge (wb_rep b)\<rparr>;
            b = b\<lparr>wb_rep := PutLengthPrefixedSliceParts (wb_rep b) key\<rparr>;
            b = b\<lparr>wb_rep := PutLengthPrefixedSliceParts (wb_rep b) value\<rparr>;
            b = or_flags HAS_MERGE b;
            b = add_protection (ProtectC hash (ProtectKVO_parts hash 0 key value kTypeMerge) cf) b
        in commit save b)"

definition WBI_PutBlobIndex :: "np_hash \<Rightarrow> u32 \<Rightarrow> slice \<Rightarrow> slice \<Rightarrow> WriteBatch \<Rightarrow> status \<times> WriteBatch" where
  "WBI_PutBlobIndex hash cf key value b =
     (let save = LocalSavePoint b;
          b = WBI_SetCount (WBI_Count b + 1) b;
          b = b\<lparr>wb_rep := push_tag cf kTypeBlobIndex kTypeColumnFamilyBlobIndex (wb_rep b)\<rparr>;
          b = b\<lparr>wb_rep := PutLengthPrefixedSlice (wb_rep b) key\<rparr>;
          b = b\<lparr>wb_rep := PutLengthPrefixedSlice (wb_rep b) value\<rparr>;
          b = or_flags HAS_BLOB_INDEX b;
          b = add_protection (ProtectC hash (ProtectKVO hash 0 key value kTypeBlobIndex) cf) b
      in commit save b)"

definition PutLogData :: "slice \<Rightarrow> WriteBatch \<Rightarrow> status \<times> WriteBatch" where
  "PutLogData blob b =
     (let save = LocalSavePoint b;
          b = b\<lparr>wb_rep := wb_rep b @ [kTypeLogData]\<rparr>;
          b = b\<lparr>wb_rep := PutLengthPrefixedSlice (wb_rep b) blob\<rparr>
      in commit save b)"

section \<open>Transaction markers\<close>

definition InsertNoop :: "WriteBatch \<Rightarrow> status \<times> WriteBatch" where
  "InsertNoop b = (Status_OK, b\<lparr>wb_rep := wb_rep b @ [kTypeNoop]\<rparr>)"

definition WBI_MarkEndPrepare :: "slice \<Rightarrow> bool \<Rightarrow> bool \<Rightarrow> WriteBatch \<Rightarrow> status \<times> WriteBatch" where
  "WBI_MarkEndPrepare xid write_after_commit unprepared_batch b =
     (let b = b\<lparr>wb_save_points := []\<rparr>;
          b = b\<lparr>wb_rep := (wb_rep b)[12 := if write_after_commit then kTypeBeginPrepareXID
             else if unprepared_batch then kTypeBeginUnprepareXID else kTypeBeginPersistedPrepareXID]\<rparr>;
          b = b\<lparr>wb_rep := wb_rep b @ [kTypeEndPrepareXID]\<rparr>;
          b = b\<lparr>wb_rep := PutLengthPrefixedSlice (wb_rep b) xid\<rparr>;
          b = or_flags (HAS_END_PREPARE OR HAS_BEGIN_PREPARE) b;
          b = (if unprepared_batch then or_flags HAS_BEGIN_UNPREPARE b else b)
      in (Status_OK, b))"

definition WBI_MarkCommit :: "slice \<Rightarrow> WriteBatch \<Rightarrow> status \<times> WriteBatch" where
  "WBI_MarkCommit xid b =
     (Status_OK, or_flags HAS_COMMIT (b\<lparr>wb_rep := PutLengthPrefixedSlice (wb_rep b @ [kTypeCommitXID]) xid\<rparr>))"

definition WBI_MarkCommitWithTimestamp :: "slice \<Rightarrow> slice \<Rightarrow> WriteBatch \<Rightarrow> status \<times> WriteBatch" where
  "WBI_MarkCommitWithTimestamp xid commit_ts b =
     (Status_OK, or_flags HAS_COMMIT (b\<lparr>wb_rep :=
        PutLengthPrefixedSlice (PutLengthPrefixedSlice (wb_rep b @ [kTypeCommitXIDAndTimestamp]) commit_ts) xid\<rparr>))"

definition WBI_MarkRollback :: "slice \<Rightarrow> WriteBatch \<Rightarrow> status \<times> WriteBatch" where
  "WBI_MarkRollback xid b =
     (Status_OK, or_flags HAS_ROLLBACK (b\<lparr>wb_rep := PutLengthPrefixedSlice (wb_rep b @ [kTypeRollbackXID]) xid\<rparr>))"

section \<open>The interface with column family handles\<close>

text \<open>
  A handle has an id and the timestamp size of its comparator (\<open>None\<close>: no comparator, the case
  \<^verbatim>\<open>GetColumnFamilyIdAndTimestampSize\<close> guards against; \<^verbatim>\<open>CheckColumnFamilyTimestampSize\<close> asserts it away); no handle stands for the default column family.
\<close>

record ColumnFamilyHandle =
  cfh_id :: u32
  cfh_timestamp_size :: "nat option"

definition GetColumnFamilyID :: "ColumnFamilyHandle option \<Rightarrow> u32" where
  "GetColumnFamilyID column_family = (case column_family of None \<Rightarrow> 0 | Some h \<Rightarrow> cfh_id h)"

definition GetColumnFamilyIdAndTimestampSize :: "WriteBatch \<Rightarrow> ColumnFamilyHandle option \<Rightarrow> status \<times> u32 \<times> nat" where
  "GetColumnFamilyIdAndTimestampSize b column_family =
     (let cf_id = GetColumnFamilyID column_family in
      case column_family of
        Some h \<Rightarrow>
          (case cfh_timestamp_size h of
             None \<Rightarrow> (Status_OK, cf_id, 0)
           | Some ts_sz \<Rightarrow>
               if 0 = cf_id \<and> wb_default_cf_ts_sz b \<noteq> ts_sz
               then (Status_InvalidArgument ''Default cf timestamp size mismatch'', cf_id, ts_sz)
               else (Status_OK, cf_id, ts_sz))
      | None \<Rightarrow> (Status_OK, cf_id, wb_default_cf_ts_sz b))"

definition CheckColumnFamilyTimestampSize :: "ColumnFamilyHandle option \<Rightarrow> slice \<Rightarrow> status" where
  "CheckColumnFamilyTimestampSize column_family ts =
     (case column_family of
        None \<Rightarrow> Status_InvalidArgument ''column family handle cannot be null''
      | Some h \<Rightarrow>
          (case cfh_timestamp_size h of
             None \<Rightarrow> Status_InvalidArgument ''timestamp disabled''
           | Some cf_ts_sz \<Rightarrow>
               if 0 = cf_ts_sz then Status_InvalidArgument ''timestamp disabled''
               else if cf_ts_sz \<noteq> length ts then Status_InvalidArgument ''timestamp size mismatch''
               else Status_OK))"

abbreviation (input) no_parts_with_ts :: status where
  "no_parts_with_ts \<equiv> Status_InvalidArgument ''Cannot call this method on column family enabling timestamp''"

abbreviation (input) expect_ts :: "WriteBatch \<Rightarrow> WriteBatch" where
  "expect_ts b \<equiv> b\<lparr>wb_needs_in_place_update_ts := True, wb_has_key_with_ts := True\<rparr>"

definition WB_Put :: "np_hash \<Rightarrow> ColumnFamilyHandle option \<Rightarrow> slice \<Rightarrow> slice \<Rightarrow> WriteBatch \<Rightarrow> status \<times> WriteBatch" where
  "WB_Put hash column_family key value b =
     (case GetColumnFamilyIdAndTimestampSize b column_family of (s, cf_id, ts_sz) \<Rightarrow>
        if \<not> ok s then (s, b)
        else if 0 = ts_sz then WBI_Put hash cf_id key value b
        else WBI_Put_parts hash cf_id [key, replicate ts_sz 0] [value] (expect_ts b))"

definition WB_Put_ts :: "np_hash \<Rightarrow> ColumnFamilyHandle option \<Rightarrow> slice \<Rightarrow> slice \<Rightarrow> slice \<Rightarrow> WriteBatch \<Rightarrow> status \<times> WriteBatch" where
  "WB_Put_ts hash column_family key ts value b =
     (let s = CheckColumnFamilyTimestampSize column_family ts in
      if \<not> ok s then (s, b)
      else WBI_Put_parts hash (GetColumnFamilyID column_family) [key, ts] [value] (b\<lparr>wb_has_key_with_ts := True\<rparr>))"

definition WB_Put_parts :: "np_hash \<Rightarrow> ColumnFamilyHandle option \<Rightarrow> slice list \<Rightarrow> slice list \<Rightarrow> WriteBatch \<Rightarrow> status \<times> WriteBatch" where
  "WB_Put_parts hash column_family key value b =
     (case GetColumnFamilyIdAndTimestampSize b column_family of (s, cf_id, ts_sz) \<Rightarrow>
        if \<not> ok s then (s, b)
        else if 0 = ts_sz then WBI_Put_parts hash cf_id key value b
        else (no_parts_with_ts, b))"

definition WB_PutEntity :: "np_hash \<Rightarrow> ColumnFamilyHandle option \<Rightarrow> slice \<Rightarrow> WideColumn list \<Rightarrow> WriteBatch \<Rightarrow> status \<times> WriteBatch" where
  "WB_PutEntity hash column_family key columns b =
     (if column_family = None
      then (Status_InvalidArgument ''Cannot call this method without a column family handle'', b)
      else case GetColumnFamilyIdAndTimestampSize b column_family of (s, cf_id, ts_sz) \<Rightarrow>
        if \<not> ok s then (s, b)
        else if ts_sz \<noteq> 0 then (no_parts_with_ts, b)
        else WBI_PutEntity hash cf_id key columns b)"

definition WB_Delete :: "np_hash \<Rightarrow> ColumnFamilyHandle option \<Rightarrow> slice \<Rightarrow> WriteBatch \<Rightarrow> status \<times> WriteBatch" where
  "WB_Delete hash column_family key b =
     (case GetColumnFamilyIdAndTimestampSize b column_family of (s, cf_id, ts_sz) \<Rightarrow>
        if \<not> ok s then (s, b)
        else if 0 = ts_sz then WBI_Delete hash cf_id key b
        else WBI_Delete_parts hash cf_id [key, replicate ts_sz 0] (expect_ts b))"

definition WB_Delete_ts :: "np_hash \<Rightarrow> ColumnFamilyHandle option \<Rightarrow> slice \<Rightarrow> slice \<Rightarrow> WriteBatch \<Rightarrow> status \<times> WriteBatch" where
  "WB_Delete_ts hash column_family key ts b =
     (let s = CheckColumnFamilyTimestampSize column_family ts in
      if \<not> ok s then (s, b)
      else WBI_Delete_parts hash (GetColumnFamilyID column_family) [key, ts] (b\<lparr>wb_has_key_with_ts := True\<rparr>))"

definition WB_Delete_parts :: "np_hash \<Rightarrow> ColumnFamilyHandle option \<Rightarrow> slice list \<Rightarrow> WriteBatch \<Rightarrow> status \<times> WriteBatch" where
  "WB_Delete_parts hash column_family key b =
     (case GetColumnFamilyIdAndTimestampSize b column_family of (s, cf_id, ts_sz) \<Rightarrow>
        if \<not> ok s then (s, b)
        else if 0 = ts_sz then WBI_Delete_parts hash cf_id key b
        else (no_parts_with_ts, b))"

definition WB_SingleDelete :: "np_hash \<Rightarrow> ColumnFamilyHandle option \<Rightarrow> slice \<Rightarrow> WriteBatch \<Rightarrow> status \<times> WriteBatch" where
  "WB_SingleDelete hash column_family key b =
     (case GetColumnFamilyIdAndTimestampSize b column_family of (s, cf_id, ts_sz) \<Rightarrow>
        if \<not> ok s then (s, b)
        else if 0 = ts_sz then WBI_SingleDelete hash cf_id key b
        else WBI_SingleDelete_parts hash cf_id [key, replicate ts_sz 0] (expect_ts b))"

definition WB_SingleDelete_ts :: "np_hash \<Rightarrow> ColumnFamilyHandle option \<Rightarrow> slice \<Rightarrow> slice \<Rightarrow> WriteBatch \<Rightarrow> status \<times> WriteBatch" where
  "WB_SingleDelete_ts hash column_family key ts b =
     (let s = CheckColumnFamilyTimestampSize column_family ts in
      if \<not> ok s then (s, b)
      else WBI_SingleDelete_parts hash (GetColumnFamilyID column_family) [key, ts] (b\<lparr>wb_has_key_with_ts := True\<rparr>))"

definition WB_SingleDelete_parts :: "np_hash \<Rightarrow> ColumnFamilyHandle option \<Rightarrow> slice list \<Rightarrow> WriteBatch \<Rightarrow> status \<times> WriteBatch" where
  "WB_SingleDelete_parts hash column_family key b =
     (case GetColumnFamilyIdAndTimestampSize b column_family of (s, cf_id, ts_sz) \<Rightarrow>
        if \<not> ok s then (s, b)
        else if 0 = ts_sz then WBI_SingleDelete_parts hash cf_id key b
        else (no_parts_with_ts, b))"

definition WB_DeleteRange :: "np_hash \<Rightarrow> ColumnFamilyHandle option \<Rightarrow> slice \<Rightarrow> slice \<Rightarrow> WriteBatch \<Rightarrow> status \<times> WriteBatch" where
  "WB_DeleteRange hash column_family begin_key end_key b =
     (case GetColumnFamilyIdAndTimestampSize b column_family of (s, cf_id, ts_sz) \<Rightarrow>
        if \<not> ok s then (s, b)
        else if 0 = ts_sz then WBI_DeleteRange hash cf_id begin_key end_key b
        else WBI_DeleteRange_parts hash cf_id [begin_key, replicate ts_sz 0] [end_key, replicate ts_sz 0] (expect_ts b))"

definition WB_DeleteRange_ts :: "np_hash \<Rightarrow> ColumnFamilyHandle option \<Rightarrow> slice \<Rightarrow> slice \<Rightarrow> slice \<Rightarrow> WriteBatch \<Rightarrow> status \<times> WriteBatch" where
  "WB_DeleteRange_ts hash column_family begin_key end_key ts b =
     (let s = CheckColumnFamilyTimestampSize column_family ts in
      if \<not> ok s then (s, b)
      else WBI_DeleteRange_parts hash (GetColumnFamilyID column_family) [begin_key, ts] [end_key, ts]
        (b\<lparr>wb_has_key_with_ts := True\<rparr>))"

definition WB_DeleteRange_parts :: "np_hash \<Rightarrow> ColumnFamilyHandle option \<Rightarrow> slice list \<Rightarrow> slice list \<Rightarrow> WriteBatch \<Rightarrow> status \<times> WriteBatch" where
  "WB_DeleteRange_parts hash column_family begin_key end_key b =
     (case GetColumnFamilyIdAndTimestampSize b column_family of (s, cf_id, ts_sz) \<Rightarrow>
        if \<not> ok s then (s, b)
        else if 0 = ts_sz then WBI_DeleteRange_parts hash cf_id begin_key end_key b
        else (no_parts_with_ts, b))"

definition WB_Merge :: "np_hash \<Rightarrow> ColumnFamilyHandle option \<Rightarrow> slice \<Rightarrow> slice \<Rightarrow> WriteBatch \<Rightarrow> status \<times> WriteBatch" where
  "WB_Merge hash column_family key value b =
     (case GetColumnFamilyIdAndTimestampSize b column_family of (s, cf_id, ts_sz) \<Rightarrow>
        if \<not> ok s then (s, b)
        else if 0 = ts_sz then WBI_Merge hash cf_id key value b
        else WBI_Merge_parts hash cf_id [key, replicate ts_sz 0] [value] (expect_ts b))"

definition WB_Merge_ts :: "np_hash \<Rightarrow> ColumnFamilyHandle option \<Rightarrow> slice \<Rightarrow> slice \<Rightarrow> slice \<Rightarrow> WriteBatch \<Rightarrow> status \<times> WriteBatch" where
  "WB_Merge_ts hash column_family key ts value b =
     (let s = CheckColumnFamilyTimestampSize column_family ts in
      if \<not> ok s then (s, b)
      else WBI_Merge_parts hash (GetColumnFamilyID column_family) [key, ts] [value] (b\<lparr>wb_has_key_with_ts := True\<rparr>))"

definition WB_Merge_parts :: "np_hash \<Rightarrow> ColumnFamilyHandle option \<Rightarrow> slice list \<Rightarrow> slice list \<Rightarrow> WriteBatch \<Rightarrow> status \<times> WriteBatch" where
  "WB_Merge_parts hash column_family key value b =
     (case GetColumnFamilyIdAndTimestampSize b column_family of (s, cf_id, ts_sz) \<Rightarrow>
        if \<not> ok s then (s, b)
        else if 0 = ts_sz then WBI_Merge_parts hash cf_id key value b
        else (no_parts_with_ts, b))"

section \<open>Save points and whole batches\<close>

definition SetSavePoint :: "WriteBatch \<Rightarrow> WriteBatch" where
  "SetSavePoint b = b\<lparr>wb_save_points :=
     \<lparr>sp_size = GetDataSize b, sp_count = WBI_Count b, sp_content_flags = wb_content_flags b\<rparr> # wb_save_points b\<rparr>"

definition RollbackToSavePoint :: "WriteBatch \<Rightarrow> status \<times> WriteBatch" where
  "RollbackToSavePoint b =
     (case wb_save_points b of
        [] \<Rightarrow> (Status_NotFound [], b)
      | savepoint # rest \<Rightarrow>
          let b = b\<lparr>wb_save_points := rest\<rparr> in
          if sp_size savepoint = length (wb_rep b) then (Status_OK, b)
          else if sp_size savepoint = 0 then (Status_OK, WB_Clear b)
          else
            let b = b\<lparr>wb_rep := resize (sp_size savepoint) (wb_rep b)\<rparr>;
                b = b\<lparr>wb_prot_info := map_option (resize (unat (sp_count savepoint))) (wb_prot_info b)\<rparr>;
                b = WBI_SetCount (sp_count savepoint) b
            in (Status_OK, b\<lparr>wb_content_flags := sp_content_flags savepoint\<rparr>))"

definition PopSavePoint :: "WriteBatch \<Rightarrow> status \<times> WriteBatch" where
  "PopSavePoint b =
     (case wb_save_points b of [] \<Rightarrow> (Status_NotFound [], b) | _ # rest \<Rightarrow> (Status_OK, b\<lparr>wb_save_points := rest\<rparr>))"

definition SetContents :: "slice \<Rightarrow> WriteBatch \<Rightarrow> status \<times> WriteBatch" where
  "SetContents contents b = (Status_OK, b\<lparr>wb_rep := contents, wb_content_flags := DEFERRED\<rparr>)"

definition WBI_Append :: "WriteBatch \<Rightarrow> WriteBatch \<Rightarrow> bool \<Rightarrow> status \<times> WriteBatch" where
  "WBI_Append dst src wal_only =
     (if (case wb_prot_info src of None \<Rightarrow> False | Some es \<Rightarrow> length es \<noteq> unat (WBI_Count src)) \<or>
         (case wb_prot_info dst of None \<Rightarrow> False | Some es \<Rightarrow> length es \<noteq> unat (WBI_Count dst))
      then (Status_Corruption ''Write batch has inconsistent count and number of checksums'', dst)
      else
        let batch_end = wb_wal_term_point src;
            partial = wal_only \<and> \<not> SavePoint_is_cleared batch_end;
            src_len = (if partial then sp_size batch_end - kHeader else length (wb_rep src) - kHeader);
            src_count = (if partial then sp_count batch_end else WBI_Count src);
            src_flags = (if partial then sp_content_flags batch_end else wb_content_flags src);
            dst = (case wb_prot_info src of
                Some es \<Rightarrow> dst\<lparr>wb_prot_info :=
                  Some ((case wb_prot_info dst of None \<Rightarrow> [] | Some ds \<Rightarrow> ds) @ take (unat src_count) es)\<rparr>
              | None \<Rightarrow> dst\<lparr>wb_prot_info := None\<rparr>);
            dst = WBI_SetCount (WBI_Count dst + src_count) dst;
            dst = dst\<lparr>wb_rep := wb_rep dst @ take src_len (drop kHeader (wb_rep src))\<rparr>
        in (Status_OK, or_flags src_flags dst))"

definition AppendedByteSize :: "nat \<Rightarrow> nat \<Rightarrow> nat" where
  "AppendedByteSize leftByteSize rightByteSize =
     (if leftByteSize = 0 \<or> rightByteSize = 0 then leftByteSize + rightByteSize
      else leftByteSize + rightByteSize - kHeader)"

end
