(* ===== verification/Write_Batch_Iterate.thy ===== *)
theory Write_Batch_Iterate
  imports Write_Batch
begin

text \<open>
  Reading a batch back: \<^verbatim>\<open>ReadRecordFromWriteBatch\<close> decodes one record, \<^verbatim>\<open>WriteBatchInternal::Iterate\<close> feeds the
  records to a \<^verbatim>\<open>Handler\<close>, and the handlers of \<^verbatim>\<open>db/write_batch.cc\<close> that classify the content and rebuild the
  checksums. A handler is a record of functions on a state of its own type, one per virtual function.
\<close>

section \<open>Decoding one record\<close>

text \<open>The output arguments of \<^verbatim>\<open>ReadRecordFromWriteBatch\<close>: what a record does not have keeps its old value.\<close>

record batch_fields =
  bf_tag :: ValueType
  bf_column_family :: u32
  bf_key :: slice
  bf_value :: slice
  bf_blob :: slice
  bf_xid :: slice

type_synonym read_cont = "slice \<Rightarrow> batch_fields \<Rightarrow> status + slice \<times> batch_fields"

definition read_done :: read_cont where
  "read_done input f = Inr (input, f)"

definition read_cf :: "string \<Rightarrow> read_cont \<Rightarrow> read_cont" where
  "read_cf msg k input f = (case GetVarint32 input of None \<Rightarrow> Inl (Status_Corruption msg)
     | Some (cf, input) \<Rightarrow> k input (f\<lparr>bf_column_family := cf\<rparr>))"

definition read_key :: "string \<Rightarrow> read_cont \<Rightarrow> read_cont" where
  "read_key msg k input f = (case GetLengthPrefixedSlice input of None \<Rightarrow> Inl (Status_Corruption msg)
     | Some (key, input) \<Rightarrow> k input (f\<lparr>bf_key := key\<rparr>))"

definition read_value :: "string \<Rightarrow> read_cont \<Rightarrow> read_cont" where
  "read_value msg k input f = (case GetLengthPrefixedSlice input of None \<Rightarrow> Inl (Status_Corruption msg)
     | Some (value, input) \<Rightarrow> k input (f\<lparr>bf_value := value\<rparr>))"

definition read_blob :: "string \<Rightarrow> read_cont \<Rightarrow> read_cont" where
  "read_blob msg k input f = (case GetLengthPrefixedSlice input of None \<Rightarrow> Inl (Status_Corruption msg)
     | Some (blob, input) \<Rightarrow> k input (f\<lparr>bf_blob := blob\<rparr>))"

definition read_xid :: "string \<Rightarrow> read_cont \<Rightarrow> read_cont" where
  "read_xid msg k input f = (case GetLengthPrefixedSlice input of None \<Rightarrow> Inl (Status_Corruption msg)
     | Some (xid, input) \<Rightarrow> k input (f\<lparr>bf_xid := xid\<rparr>))"

text \<open>The switch on the tag; the input is not empty.\<close>

definition ReadRecordFromWriteBatch :: read_cont where
  "ReadRecordFromWriteBatch input f =
     (let tag = hd input; input = tl input; f = f\<lparr>bf_tag := tag, bf_column_family := 0\<rparr>;
          put = ''bad WriteBatch Put''; del = ''bad WriteBatch Delete''; range = ''bad WriteBatch DeleteRange'';
          merge = ''bad WriteBatch Merge''; blob = ''bad WriteBatch BlobIndex''; entity = ''bad WriteBatch PutEntity''
      in
      if tag = kTypeColumnFamilyValue then read_cf put (read_key put (read_value put read_done)) input f
      else if tag = kTypeValue then read_key put (read_value put read_done) input f
      else if tag = kTypeColumnFamilyDeletion \<or> tag = kTypeColumnFamilySingleDeletion
        then read_cf del (read_key del read_done) input f
      else if tag = kTypeDeletion \<or> tag = kTypeSingleDeletion then read_key del read_done input f
      else if tag = kTypeColumnFamilyRangeDeletion
        then read_cf range (read_key range (read_value range read_done)) input f
      else if tag = kTypeRangeDeletion then read_key range (read_value range read_done) input f
      else if tag = kTypeColumnFamilyMerge then read_cf merge (read_key merge (read_value merge read_done)) input f
      else if tag = kTypeMerge then read_key merge (read_value merge read_done) input f
      else if tag = kTypeColumnFamilyBlobIndex then read_cf blob (read_key blob (read_value blob read_done)) input f
      else if tag = kTypeBlobIndex then read_key blob (read_value blob read_done) input f
      else if tag = kTypeLogData then read_blob ''bad WriteBatch Blob'' read_done input f
      else if tag = kTypeNoop \<or> tag = kTypeBeginPrepareXID \<or> tag = kTypeBeginPersistedPrepareXID \<or>
          tag = kTypeBeginUnprepareXID then read_done input f
      else if tag = kTypeEndPrepareXID then read_xid ''bad EndPrepare XID'' read_done input f
      else if tag = kTypeCommitXIDAndTimestamp
        then read_key ''bad commit timestamp'' (read_xid ''bad Commit XID'' read_done) input f
      else if tag = kTypeCommitXID then read_xid ''bad Commit XID'' read_done input f
      else if tag = kTypeRollbackXID then read_xid ''bad Rollback XID'' read_done input f
      else if tag = kTypeColumnFamilyWideColumnEntity
        then read_cf entity (read_key entity (read_value entity read_done)) input f
      else if tag = kTypeWideColumnEntity then read_key entity (read_value entity read_done) input f
      else Inl (Status_Corruption ''unknown WriteBatch tag''))"

definition ReadKeyFromWriteBatchEntry :: "slice \<Rightarrow> bool \<Rightarrow> (slice \<times> slice) option" where
  "ReadKeyFromWriteBatchEntry input cf_record =
     (let input = drop 1 input in
      if cf_record then (case GetVarint32 input of None \<Rightarrow> None | Some (cf, input) \<Rightarrow> GetLengthPrefixedSlice input)
      else GetLengthPrefixedSlice input)"

section \<open>Handlers\<close>

datatype OptionState = kUnknown | kDisabled | kEnabled

record 'h Handler =
  h_PutCF :: "u32 \<Rightarrow> slice \<Rightarrow> slice \<Rightarrow> 'h \<Rightarrow> status \<times> 'h"
  h_PutEntityCF :: "u32 \<Rightarrow> slice \<Rightarrow> slice \<Rightarrow> 'h \<Rightarrow> status \<times> 'h"
  h_DeleteCF :: "u32 \<Rightarrow> slice \<Rightarrow> 'h \<Rightarrow> status \<times> 'h"
  h_SingleDeleteCF :: "u32 \<Rightarrow> slice \<Rightarrow> 'h \<Rightarrow> status \<times> 'h"
  h_DeleteRangeCF :: "u32 \<Rightarrow> slice \<Rightarrow> slice \<Rightarrow> 'h \<Rightarrow> status \<times> 'h"
  h_MergeCF :: "u32 \<Rightarrow> slice \<Rightarrow> slice \<Rightarrow> 'h \<Rightarrow> status \<times> 'h"
  h_PutBlobIndexCF :: "u32 \<Rightarrow> slice \<Rightarrow> slice \<Rightarrow> 'h \<Rightarrow> status \<times> 'h"
  h_LogData :: "slice \<Rightarrow> 'h \<Rightarrow> 'h"
  h_MarkBeginPrepare :: "bool \<Rightarrow> 'h \<Rightarrow> status \<times> 'h"
  h_MarkEndPrepare :: "slice \<Rightarrow> 'h \<Rightarrow> status \<times> 'h"
  h_MarkNoop :: "bool \<Rightarrow> 'h \<Rightarrow> status \<times> 'h"
  h_MarkRollback :: "slice \<Rightarrow> 'h \<Rightarrow> status \<times> 'h"
  h_MarkCommit :: "slice \<Rightarrow> 'h \<Rightarrow> status \<times> 'h"
  h_MarkCommitWithTimestamp :: "slice \<Rightarrow> slice \<Rightarrow> 'h \<Rightarrow> status \<times> 'h"
  h_Continue :: "'h \<Rightarrow> bool \<times> 'h"
  h_WriteAfterCommit :: "'h \<Rightarrow> OptionState"
  h_WriteBeforePrepare :: "'h \<Rightarrow> OptionState"

text \<open>The default implementations; the void \<^verbatim>\<open>Put\<close>, \<^verbatim>\<open>Delete\<close>, \<^verbatim>\<open>SingleDelete\<close>, \<^verbatim>\<open>Merge\<close> they call do nothing.\<close>

definition Handler_default :: "'h Handler" where
  "Handler_default =
     (let invalid = (\<lambda>msg h. (Status_InvalidArgument msg, h));
          default_cf = (\<lambda>cf msg h. if cf = 0 then (Status_OK, h) else (Status_InvalidArgument msg, h)) in
      \<lparr>h_PutCF = \<lambda>cf key value. default_cf cf ''non-default column family and PutCF not implemented'',
       h_PutEntityCF = \<lambda>cf key entity h. (Status_NotSupported ''PutEntityCF not implemented'', h),
       h_DeleteCF = \<lambda>cf key. default_cf cf ''non-default column family and DeleteCF not implemented'',
       h_SingleDeleteCF = \<lambda>cf key. default_cf cf ''non-default column family and SingleDeleteCF not implemented'',
       h_DeleteRangeCF = \<lambda>cf begin_key end_key. invalid ''DeleteRangeCF not implemented'',
       h_MergeCF = \<lambda>cf key value. default_cf cf ''non-default column family and MergeCF not implemented'',
       h_PutBlobIndexCF = \<lambda>cf key value. invalid ''PutBlobIndexCF not implemented'',
       h_LogData = \<lambda>blob h. h,
       h_MarkBeginPrepare = \<lambda>unprepare. invalid ''MarkBeginPrepare() handler not defined.'',
       h_MarkEndPrepare = \<lambda>xid. invalid ''MarkEndPrepare() handler not defined.'',
       h_MarkNoop = \<lambda>empty_batch. invalid ''MarkNoop() handler not defined.'',
       h_MarkRollback = \<lambda>xid. invalid ''MarkRollbackPrepare() handler not defined.'',
       h_MarkCommit = \<lambda>xid. invalid ''MarkCommit() handler not defined.'',
       h_MarkCommitWithTimestamp = \<lambda>xid commit_ts. invalid ''MarkCommitWithTimestamp() handler not defined.'',
       h_Continue = \<lambda>h. (True, h),
       h_WriteAfterCommit = \<lambda>h. kUnknown,
       h_WriteBeforePrepare = \<lambda>h. kUnknown\<rparr>)"

definition BatchContentClassifier :: "ContentFlags Handler" where
  "BatchContentClassifier =
     (let add = (\<lambda>flag flags. (Status_OK, flags OR flag)) in
      Handler_default
      \<lparr>h_PutCF := \<lambda>cf key value. add HAS_PUT,
       h_PutEntityCF := \<lambda>cf key entity. add HAS_PUT_ENTITY,
       h_DeleteCF := \<lambda>cf key. add HAS_DELETE,
       h_SingleDeleteCF := \<lambda>cf key. add HAS_SINGLE_DELETE,
       h_DeleteRangeCF := \<lambda>cf begin_key end_key. add HAS_DELETE_RANGE,
       h_MergeCF := \<lambda>cf key value. add HAS_MERGE,
       h_PutBlobIndexCF := \<lambda>cf key value. add HAS_BLOB_INDEX,
       h_MarkBeginPrepare := \<lambda>unprepare flags. add (if unprepare then HAS_BEGIN_UNPREPARE else 0) (flags OR HAS_BEGIN_PREPARE),
       h_MarkEndPrepare := \<lambda>xid. add HAS_END_PREPARE,
       h_MarkCommit := \<lambda>xid. add HAS_COMMIT,
       h_MarkCommitWithTimestamp := \<lambda>xid commit_ts. add HAS_COMMIT,
       h_MarkRollback := \<lambda>xid. add HAS_ROLLBACK\<rparr>)"

text \<open>The handler state of \<^verbatim>\<open>ProtectionInfoUpdater\<close> is the list of entries it fills.\<close>

definition UpdateProtInfo :: "np_hash \<Rightarrow> u32 \<Rightarrow> slice \<Rightarrow> slice \<Rightarrow> ValueType \<Rightarrow> u64 list \<Rightarrow> status \<times> u64 list" where
  "UpdateProtInfo hash cf key val op_type entries =
     (Status_OK, entries @ [ProtectC hash (ProtectKVO hash 0 key val op_type) cf])"

definition ProtectionInfoUpdater :: "np_hash \<Rightarrow> u64 list Handler" where
  "ProtectionInfoUpdater hash =
     Handler_default
     \<lparr>h_PutCF := \<lambda>cf key val. UpdateProtInfo hash cf key val kTypeValue,
      h_PutEntityCF := \<lambda>cf key entity. UpdateProtInfo hash cf key entity kTypeWideColumnEntity,
      h_DeleteCF := \<lambda>cf key. UpdateProtInfo hash cf key [] kTypeDeletion,
      h_SingleDeleteCF := \<lambda>cf key. UpdateProtInfo hash cf key [] kTypeSingleDeletion,
      h_DeleteRangeCF := \<lambda>cf begin_key end_key. UpdateProtInfo hash cf begin_key end_key kTypeRangeDeletion,
      h_MergeCF := \<lambda>cf key val. UpdateProtInfo hash cf key val kTypeMerge,
      h_PutBlobIndexCF := \<lambda>cf key val. UpdateProtInfo hash cf key val kTypeBlobIndex,
      h_MarkBeginPrepare := \<lambda>unprepare h. (Status_OK, h),
      h_MarkEndPrepare := \<lambda>xid h. (Status_OK, h),
      h_MarkCommit := \<lambda>xid h. (Status_OK, h),
      h_MarkCommitWithTimestamp := \<lambda>xid ts h. (Status_OK, h),
      h_MarkRollback := \<lambda>xid h. (Status_OK, h),
      h_MarkNoop := \<lambda>empty_batch h. (Status_OK, h)\<rparr>"

section \<open>Iterating over a batch\<close>

definition IsTryAgain :: "status \<Rightarrow> bool" where
  "IsTryAgain s \<longleftrightarrow> st_code s = kTryAgain"

record iter_vars =
  iv_s :: status
  iv_input :: slice
  iv_fields :: batch_fields
  iv_empty_batch :: bool
  iv_found :: u32
  iv_last_was_try_again :: bool

definition iter_init :: "slice \<Rightarrow> iter_vars" where
  "iter_init input =
     \<lparr>iv_s = Status_OK, iv_input = input,
      iv_fields = \<lparr>bf_tag = 0, bf_column_family = 0, bf_key = [], bf_value = [], bf_blob = [], bf_xid = []\<rparr>,
      iv_empty_batch = True, iv_found = 0, iv_last_was_try_again = False\<rparr>"

text \<open>The first half of the loop body: read the next record, or keep the fields of the one to try again.\<close>

definition next_record :: "iter_vars \<Rightarrow> status + iter_vars" where
  "next_record v =
     (if \<not> IsTryAgain (iv_s v) then
        (case ReadRecordFromWriteBatch (iv_input v) (iv_fields v) of
           Inl s \<Rightarrow> Inl s
         | Inr (input, f) \<Rightarrow>
             Inr (v\<lparr>iv_last_was_try_again := False, iv_s := Status_OK, iv_input := input, iv_fields := f\<rparr>))
      else if iv_last_was_try_again v then
        Inl (Status_Corruption (''two consecutive TryAgain in WriteBatch handler; this is either a '' @
          ''software bug or data corruption.''))
      else Inr (v\<lparr>iv_last_was_try_again := True, iv_s := Status_OK\<rparr>))"

definition counted_update :: "iter_vars \<Rightarrow> status \<times> 'h \<Rightarrow> iter_vars \<times> 'h" where
  "counted_update v = (\<lambda>(s, h).
     (if ok s then v\<lparr>iv_s := s, iv_empty_batch := False, iv_found := iv_found v + 1\<rparr> else v\<lparr>iv_s := s\<rparr>, h))"

definition not_supported :: "string \<Rightarrow> bool \<Rightarrow> iter_vars \<Rightarrow> iter_vars" where
  "not_supported msg cond v = (if cond then v\<lparr>iv_s := Status_NotSupported msg\<rparr> else v)"

definition msg_committed_disabled :: string where
  "msg_committed_disabled = ''WriteCommitted txn tag when write_after_commit_ is disabled (in '' @
     ''WritePrepared/WriteUnprepared mode). If it is not due to '' @
     ''corruption, the WAL must be emptied before changing the WritePolicy.''"

definition msg_committed_before_prepare :: string where
  "msg_committed_before_prepare = ''WriteCommitted txn tag when write_before_prepare_ is enabled '' @
     ''(in WriteUnprepared mode). If it is not due to corruption, the '' @
     ''WAL must be emptied before changing the WritePolicy.''"

definition msg_prepared_enabled :: string where
  "msg_prepared_enabled = ''WritePrepared/WriteUnprepared txn tag when write_after_commit_ '' @
     ''is enabled (in default WriteCommitted mode). If it is not due '' @
     ''to corruption, the WAL must be emptied before changing the WritePolicy.''"

definition msg_unprepared_enabled :: string where
  "msg_unprepared_enabled = ''WriteUnprepared txn tag when write_after_commit_ is enabled (in '' @
     ''default WriteCommitted mode). If it is not due to corruption, '' @
     ''the WAL must be emptied before changing the WritePolicy.''"

definition msg_unprepared_before_prepare :: string where
  "msg_unprepared_before_prepare = ''WriteUnprepared txn tag when write_before_prepare_ is disabled '' @
     ''(in WriteCommitted/WritePrepared mode). If it is not due to '' @
     ''corruption, the WAL must be emptied before changing the WritePolicy.''"

text \<open>The second half: the switch that calls the handler.\<close>

definition dispatch :: "'h Handler \<Rightarrow> iter_vars \<Rightarrow> 'h \<Rightarrow> status + iter_vars \<times> 'h" where
  "dispatch H v h =
     (let f = iv_fields v; tag = bf_tag f; cf = bf_column_family f; key = bf_key f; value = bf_value f;
          mark = (\<lambda>empty (s, h). (v\<lparr>iv_s := s, iv_empty_batch := empty\<rparr>, h)) in
      if tag = kTypeColumnFamilyValue \<or> tag = kTypeValue then Inr (counted_update v (h_PutCF H cf key value h))
      else if tag = kTypeColumnFamilyDeletion \<or> tag = kTypeDeletion then Inr (counted_update v (h_DeleteCF H cf key h))
      else if tag = kTypeColumnFamilySingleDeletion \<or> tag = kTypeSingleDeletion
        then Inr (counted_update v (h_SingleDeleteCF H cf key h))
      else if tag = kTypeColumnFamilyRangeDeletion \<or> tag = kTypeRangeDeletion
        then Inr (counted_update v (h_DeleteRangeCF H cf key value h))
      else if tag = kTypeColumnFamilyMerge \<or> tag = kTypeMerge then Inr (counted_update v (h_MergeCF H cf key value h))
      else if tag = kTypeColumnFamilyBlobIndex \<or> tag = kTypeBlobIndex then
        (case h_PutBlobIndexCF H cf key value h of (s, h) \<Rightarrow>
           Inr (if ok s then v\<lparr>iv_s := s, iv_found := iv_found v + 1\<rparr> else v\<lparr>iv_s := s\<rparr>, h))
      else if tag = kTypeLogData then Inr (v\<lparr>iv_empty_batch := False\<rparr>, h_LogData H (bf_blob f) h)
      else if tag = kTypeBeginPrepareXID then
        (case mark False (h_MarkBeginPrepare H False h) of (v, h) \<Rightarrow>
           let v = not_supported msg_committed_disabled (h_WriteAfterCommit H h = kDisabled) v;
               v = not_supported msg_committed_before_prepare (h_WriteBeforePrepare H h = kEnabled) v
           in Inr (v, h))
      else if tag = kTypeBeginPersistedPrepareXID then
        (case mark False (h_MarkBeginPrepare H False h) of (v, h) \<Rightarrow>
           Inr (not_supported msg_prepared_enabled (h_WriteAfterCommit H h = kEnabled) v, h))
      else if tag = kTypeBeginUnprepareXID then
        (case mark False (h_MarkBeginPrepare H True h) of (v, h) \<Rightarrow>
           let v = not_supported msg_unprepared_enabled (h_WriteAfterCommit H h = kEnabled) v;
               v = not_supported msg_unprepared_before_prepare (h_WriteBeforePrepare H h = kDisabled) v
           in Inr (v, h))
      else if tag = kTypeEndPrepareXID then Inr (mark True (h_MarkEndPrepare H (bf_xid f) h))
      else if tag = kTypeCommitXID then Inr (mark True (h_MarkCommit H (bf_xid f) h))
      else if tag = kTypeCommitXIDAndTimestamp then
        (case h_MarkCommitWithTimestamp H (bf_xid f) key h of (s, h) \<Rightarrow>
           Inr (if ok s then v\<lparr>iv_s := s, iv_empty_batch := True\<rparr> else v\<lparr>iv_s := s\<rparr>, h))
      else if tag = kTypeRollbackXID then Inr (mark True (h_MarkRollback H (bf_xid f) h))
      else if tag = kTypeNoop then Inr (mark True (h_MarkNoop H (iv_empty_batch v) h))
      else if tag = kTypeWideColumnEntity \<or> tag = kTypeColumnFamilyWideColumnEntity
        then Inr (counted_update v (h_PutEntityCF H cf key value h))
      else Inl (Status_Corruption ''unknown WriteBatch tag''))"

definition shrinking :: "read_cont \<Rightarrow> bool" where
  "shrinking k \<longleftrightarrow> (\<forall>i f i' f'. k i f = Inr (i', f') \<longrightarrow> length i' \<le> length i)"

lemma shrinkingD: "k i f = Inr (i', f') \<Longrightarrow> shrinking k \<Longrightarrow> length i' \<le> length i"
  unfolding shrinking_def by blast

lemma shrinking_read [intro]:
  "shrinking read_done" "shrinking k \<Longrightarrow> shrinking (read_cf m k)" "shrinking k \<Longrightarrow> shrinking (read_key m k)"
  "shrinking k \<Longrightarrow> shrinking (read_value m k)" "shrinking k \<Longrightarrow> shrinking (read_blob m k)"
  "shrinking k \<Longrightarrow> shrinking (read_xid m k)"
  unfolding shrinking_def read_done_def read_cf_def read_key_def read_value_def read_blob_def read_xid_def
  by (auto split: option.splits dest!: lprefixed.dec_length varint32.dec_length) (meson le_less_trans less_imp_le_nat)+

lemma ReadRecord_shorter:
  assumes "ReadRecordFromWriteBatch input f = Inr (input', f')" and "input \<noteq> []"
  shows "length input' < length input"
proof -
  have "length input' \<le> length (tl input)"
    using assms(1) unfolding ReadRecordFromWriteBatch_def Let_def
    by (auto split: if_splits elim!: shrinkingD simp del: length_tl)
  then show ?thesis using assms(2) by (cases input) auto
qed

lemma counted_update_keeps [simp]:
  "iv_input (fst (counted_update v p)) = iv_input v"
  "iv_last_was_try_again (fst (counted_update v p)) = iv_last_was_try_again v"
  "iv_fields (fst (counted_update v p)) = iv_fields v"
  by (simp_all add: counted_update_def case_prod_beta)

lemma not_supported_keeps [simp]:
  "iv_input (not_supported m c v) = iv_input v"
  "iv_last_was_try_again (not_supported m c v) = iv_last_was_try_again v"
  "iv_fields (not_supported m c v) = iv_fields v"
  by (simp_all add: not_supported_def)

lemma dispatch_keeps:
  assumes "dispatch H v h = Inr p"
  shows "iv_input (fst p) = iv_input v \<and> iv_last_was_try_again (fst p) = iv_last_was_try_again v \<and>
    iv_fields (fst p) = iv_fields v"
  using assms unfolding dispatch_def Let_def case_prod_beta
  by (simp only: split: if_split_asm; auto)

definition iter_left :: "iter_vars \<Rightarrow> nat" where
  "iter_left v = 2 * length (iv_input v) + (if iv_last_was_try_again v then 0 else 1)"

lemma next_record_progress:
  assumes "next_record v = Inr v'" and "ok (iv_s v) \<and> iv_input v \<noteq> [] \<or> IsTryAgain (iv_s v)"
  shows "iter_left v' < iter_left v"
proof (cases "IsTryAgain (iv_s v)")
  case True
  then show ?thesis using assms(1) by (auto simp: next_record_def iter_left_def split: if_splits)
next
  case False
  then obtain input f where "ReadRecordFromWriteBatch (iv_input v) (iv_fields v) = Inr (input, f)"
    and v': "v' = v\<lparr>iv_last_was_try_again := False, iv_s := Status_OK, iv_input := input, iv_fields := f\<rparr>"
    using assms(1) by (auto simp: next_record_def split: sum.splits)
  with ReadRecord_shorter [of "iv_input v"] assms(2) False have "length input < length (iv_input v)" by blast
  then show ?thesis by (simp add: v' iter_left_def)
qed

text \<open>
  The loop. \<open>Inl\<close> is a return from inside it; \<open>Inr\<close> leaves it with the last status, whether the handler
  wanted to continue, and the number of updates found.
\<close>

function Iterate_loop :: "'h Handler \<Rightarrow> iter_vars \<Rightarrow> 'h \<Rightarrow> (status + status \<times> bool \<times> u32) \<times> 'h" where
  "Iterate_loop H v h =
     (if ok (iv_s v) \<and> iv_input v \<noteq> [] \<or> IsTryAgain (iv_s v) then
        (case h_Continue H h of (handler_continue, h) \<Rightarrow>
         if \<not> handler_continue then (Inr (iv_s v, False, iv_found v), h)
         else case next_record v of
           Inl s \<Rightarrow> (Inl s, h)
         | Inr v \<Rightarrow> (case dispatch H v h of
             Inl s \<Rightarrow> (Inl s, h)
           | Inr (v, h) \<Rightarrow> Iterate_loop H v h))
      else (Inr (iv_s v, True, iv_found v), h))"
  by pat_completeness auto

termination
proof (relation "measure (\<lambda>(H, v, h). iter_left v)")
  fix H :: "'h Handler" and v h p c h1 v1 q v2 h2
  assume "ok (iv_s v) \<and> iv_input v \<noteq> [] \<or> IsTryAgain (iv_s v)" "next_record v = Inr v1" "dispatch H v1 h1 = Inr q"
    "(v2, h2) = q"
  then show "((H, v2, h2), (H, v, h)) \<in> measure (\<lambda>(H, v, h). iter_left v)"
    using next_record_progress [of v v1] dispatch_keeps [of H v1 h1 q] by (auto simp: iter_left_def)
qed simp

declare Iterate_loop.simps [simp del]

definition WBI_Iterate :: "'h Handler \<Rightarrow> WriteBatch \<Rightarrow> nat \<Rightarrow> nat \<Rightarrow> 'h \<Rightarrow> status \<times> 'h" where
  "WBI_Iterate H wb begin_off end_off h =
     (if begin_off > length (wb_rep wb) \<or> end_off > length (wb_rep wb) \<or> end_off < begin_off
      then (Status_Corruption ''Invalid start/end bounds for Iterate'', h)
      else
        let input = take (end_off - begin_off) (drop begin_off (wb_rep wb));
            whole_batch = (begin_off = kHeader \<and> end_off = length (wb_rep wb)) in
        case Iterate_loop H (iter_init input) h of
          (Inl s, h) \<Rightarrow> (s, h)
        | (Inr (s, handler_continue, found), h) \<Rightarrow>
            if \<not> ok s then (s, h)
            else if handler_continue \<and> whole_batch \<and> found \<noteq> WBI_Count wb
            then (Status_Corruption ''WriteBatch has wrong count'', h)
            else (Status_OK, h))"

definition WB_Iterate :: "'h Handler \<Rightarrow> WriteBatch \<Rightarrow> 'h \<Rightarrow> status \<times> 'h" where
  "WB_Iterate H wb h =
     (if length (wb_rep wb) < kHeader then (Status_Corruption ''malformed WriteBatch (too small)'', h)
      else WBI_Iterate H wb kHeader (length (wb_rep wb)) h)"

section \<open>What iteration is used for\<close>

text \<open>The lazily computed content flags; the status of the iteration is dropped.\<close>

definition ComputeContentFlags :: "WriteBatch \<Rightarrow> ContentFlags \<times> WriteBatch" where
  "ComputeContentFlags b =
     (let rv = wb_content_flags b in
      if rv AND DEFERRED \<noteq> 0 then
        (let rv = snd (WB_Iterate BatchContentClassifier b 0) in (rv, b\<lparr>wb_content_flags := rv\<rparr>))
      else (rv, b))"

definition HasContent :: "ContentFlags \<Rightarrow> WriteBatch \<Rightarrow> bool" where
  "HasContent flag b \<longleftrightarrow> fst (ComputeContentFlags b) AND flag \<noteq> 0"

definition UpdateProtectionInfo :: "np_hash \<Rightarrow> nat \<Rightarrow> WriteBatch \<Rightarrow> status \<times> WriteBatch" where
  "UpdateProtectionInfo hash bytes_per_key wb =
     (if bytes_per_key = 0 then (Status_OK, wb\<lparr>wb_prot_info := None\<rparr>)
      else if bytes_per_key = 8 then
        (case wb_prot_info wb of
           Some _ \<Rightarrow> (Status_OK, wb)
         | None \<Rightarrow> (case WB_Iterate (ProtectionInfoUpdater hash) wb [] of
             (s, entries) \<Rightarrow> (s, wb\<lparr>wb_prot_info := Some entries\<rparr>)))
      else (Status_NotSupported ''WriteBatch protection info must be zero or eight bytes/key'', wb))"

text \<open>The tag under which a record is protected, \<open>None\<close> for those that are not; \<open>Inl\<close> is an unknown tag.\<close>

definition protected_tag :: "ValueType \<Rightarrow> status + ValueType option" where
  "protected_tag tag =
     (if tag = kTypeColumnFamilyValue \<or> tag = kTypeValue then Inr (Some kTypeValue)
      else if tag = kTypeColumnFamilyDeletion \<or> tag = kTypeDeletion then Inr (Some kTypeDeletion)
      else if tag = kTypeColumnFamilySingleDeletion \<or> tag = kTypeSingleDeletion then Inr (Some kTypeSingleDeletion)
      else if tag = kTypeColumnFamilyRangeDeletion \<or> tag = kTypeRangeDeletion then Inr (Some kTypeRangeDeletion)
      else if tag = kTypeColumnFamilyMerge \<or> tag = kTypeMerge then Inr (Some kTypeMerge)
      else if tag = kTypeColumnFamilyBlobIndex \<or> tag = kTypeBlobIndex then Inr (Some kTypeBlobIndex)
      else if tag \<in> {kTypeLogData, kTypeBeginPrepareXID, kTypeEndPrepareXID, kTypeCommitXID, kTypeRollbackXID,
          kTypeNoop, kTypeBeginPersistedPrepareXID, kTypeBeginUnprepareXID, kTypeDeletionWithTimestamp,
          kTypeCommitXIDAndTimestamp} then Inr None
      else if tag = kTypeColumnFamilyWideColumnEntity \<or> tag = kTypeWideColumnEntity then Inr (Some kTypeWideColumnEntity)
      else Inl (Status_Corruption ''unknown WriteBatch tag''))"

function verify_loop :: "np_hash \<Rightarrow> slice \<Rightarrow> batch_fields \<Rightarrow> u64 list \<Rightarrow> nat \<Rightarrow> status + nat" where
  "verify_loop hash input f entries idx =
     (if input \<noteq> [] \<and> idx < length entries then
        (case ReadRecordFromWriteBatch input (f\<lparr>bf_key := [], bf_value := [], bf_column_family := 0\<rparr>) of
           Inl s \<Rightarrow> Inl s
         | Inr (input, f) \<Rightarrow>
             (case protected_tag (bf_tag f) of
                Inl s \<Rightarrow> Inl s
              | Inr None \<Rightarrow> verify_loop hash input f entries idx
              | Inr (Some tag) \<Rightarrow>
                  let s = ProtectionInfo_GetStatus
                    (StripKVO hash (StripC hash (entries ! idx) (bf_column_family f)) (bf_key f) (bf_value f) tag) in
                  if \<not> ok s then Inl s else verify_loop hash input f entries (idx + 1)))
      else Inr idx)"
  by pat_completeness auto
termination
  by (relation "measure (\<lambda>(hash, input, f, entries, idx). length input)") (auto dest: ReadRecord_shorter)

declare verify_loop.simps [simp del]

definition VerifyChecksum :: "np_hash \<Rightarrow> WriteBatch \<Rightarrow> status" where
  "VerifyChecksum hash b =
     (case wb_prot_info b of
        None \<Rightarrow> Status_OK
      | Some entries \<Rightarrow>
          (case verify_loop hash (drop kHeader (wb_rep b)) (iv_fields (iter_init [])) entries 0 of
             Inl s \<Rightarrow> s
           | Inr prot_info_idx \<Rightarrow>
               if prot_info_idx \<noteq> unat (WBI_Count b) then Status_Corruption ''WriteBatch has wrong count''
               else Status_OK))"

end
