(* ===== verification/Write_Batch_Props.thy ===== *)
theory Write_Batch_Props
  imports Write_Batch_Iterate
begin

text \<open>
  The write batch against its specification: a list of records. The byte string of a batch is the
  concatenation of its records behind the header; every operation appends one record or leaves the batch as
  it was; iteration visits exactly the records, in order; save points cut the list.
\<close>

section \<open>Records\<close>

datatype batch_record =
    RecPut u32 slice slice
  | RecPutEntity u32 slice slice
  | RecDelete u32 slice
  | RecSingleDelete u32 slice
  | RecDeleteRange u32 slice slice
  | RecMerge u32 slice slice
  | RecBlobIndex u32 slice slice
  | RecLogData slice
  | RecNoop
  | RecBeginPrepare
  | RecBeginPersistedPrepare
  | RecBeginUnprepare
  | RecEndPrepare slice
  | RecCommit slice
  | RecCommitTimestamp slice slice
  | RecRollback slice

fun rec_enc :: "batch_record \<Rightarrow> slice" where
  "rec_enc (RecPut cf k v) = push_tag cf kTypeValue kTypeColumnFamilyValue [] @ EncodeLengthPrefixed k @ EncodeLengthPrefixed v"
| "rec_enc (RecPutEntity cf k v) =
     push_tag cf kTypeWideColumnEntity kTypeColumnFamilyWideColumnEntity [] @ EncodeLengthPrefixed k @ EncodeLengthPrefixed v"
| "rec_enc (RecDelete cf k) = push_tag cf kTypeDeletion kTypeColumnFamilyDeletion [] @ EncodeLengthPrefixed k"
| "rec_enc (RecSingleDelete cf k) =
     push_tag cf kTypeSingleDeletion kTypeColumnFamilySingleDeletion [] @ EncodeLengthPrefixed k"
| "rec_enc (RecDeleteRange cf k v) =
     push_tag cf kTypeRangeDeletion kTypeColumnFamilyRangeDeletion [] @ EncodeLengthPrefixed k @ EncodeLengthPrefixed v"
| "rec_enc (RecMerge cf k v) = push_tag cf kTypeMerge kTypeColumnFamilyMerge [] @ EncodeLengthPrefixed k @ EncodeLengthPrefixed v"
| "rec_enc (RecBlobIndex cf k v) =
     push_tag cf kTypeBlobIndex kTypeColumnFamilyBlobIndex [] @ EncodeLengthPrefixed k @ EncodeLengthPrefixed v"
| "rec_enc (RecLogData b) = kTypeLogData # EncodeLengthPrefixed b"
| "rec_enc RecNoop = [kTypeNoop]"
| "rec_enc RecBeginPrepare = [kTypeBeginPrepareXID]"
| "rec_enc RecBeginPersistedPrepare = [kTypeBeginPersistedPrepareXID]"
| "rec_enc RecBeginUnprepare = [kTypeBeginUnprepareXID]"
| "rec_enc (RecEndPrepare x) = kTypeEndPrepareXID # EncodeLengthPrefixed x"
| "rec_enc (RecCommit x) = kTypeCommitXID # EncodeLengthPrefixed x"
| "rec_enc (RecCommitTimestamp ts x) = kTypeCommitXIDAndTimestamp # EncodeLengthPrefixed ts @ EncodeLengthPrefixed x"
| "rec_enc (RecRollback x) = kTypeRollbackXID # EncodeLengthPrefixed x"

fun rec_slices :: "batch_record \<Rightarrow> slice list" where
  "rec_slices (RecPut cf k v) = [k, v]"
| "rec_slices (RecPutEntity cf k v) = [k, v]"
| "rec_slices (RecDelete cf k) = [k]"
| "rec_slices (RecSingleDelete cf k) = [k]"
| "rec_slices (RecDeleteRange cf k v) = [k, v]"
| "rec_slices (RecMerge cf k v) = [k, v]"
| "rec_slices (RecBlobIndex cf k v) = [k, v]"
| "rec_slices (RecLogData b) = [b]"
| "rec_slices (RecEndPrepare x) = [x]"
| "rec_slices (RecCommit x) = [x]"
| "rec_slices (RecCommitTimestamp ts x) = [ts, x]"
| "rec_slices (RecRollback x) = [x]"
| "rec_slices _ = []"

definition rec_ok :: "batch_record \<Rightarrow> bool" where
  "rec_ok r \<longleftrightarrow> (\<forall>x \<in> set (rec_slices r). length x < 2 ^ 32)"

fun rec_fields :: "batch_record \<Rightarrow> batch_fields \<Rightarrow> batch_fields" where
  "rec_fields (RecPut cf k v) f = f\<lparr>bf_tag := if cf = 0 then kTypeValue else kTypeColumnFamilyValue,
     bf_column_family := cf, bf_key := k, bf_value := v\<rparr>"
| "rec_fields (RecPutEntity cf k v) f = f\<lparr>bf_tag := if cf = 0 then kTypeWideColumnEntity else kTypeColumnFamilyWideColumnEntity,
     bf_column_family := cf, bf_key := k, bf_value := v\<rparr>"
| "rec_fields (RecDelete cf k) f = f\<lparr>bf_tag := if cf = 0 then kTypeDeletion else kTypeColumnFamilyDeletion,
     bf_column_family := cf, bf_key := k\<rparr>"
| "rec_fields (RecSingleDelete cf k) f = f\<lparr>bf_tag := if cf = 0 then kTypeSingleDeletion else kTypeColumnFamilySingleDeletion,
     bf_column_family := cf, bf_key := k\<rparr>"
| "rec_fields (RecDeleteRange cf k v) f = f\<lparr>bf_tag := if cf = 0 then kTypeRangeDeletion else kTypeColumnFamilyRangeDeletion,
     bf_column_family := cf, bf_key := k, bf_value := v\<rparr>"
| "rec_fields (RecMerge cf k v) f = f\<lparr>bf_tag := if cf = 0 then kTypeMerge else kTypeColumnFamilyMerge,
     bf_column_family := cf, bf_key := k, bf_value := v\<rparr>"
| "rec_fields (RecBlobIndex cf k v) f = f\<lparr>bf_tag := if cf = 0 then kTypeBlobIndex else kTypeColumnFamilyBlobIndex,
     bf_column_family := cf, bf_key := k, bf_value := v\<rparr>"
| "rec_fields (RecLogData b) f = f\<lparr>bf_tag := kTypeLogData, bf_column_family := 0, bf_blob := b\<rparr>"
| "rec_fields RecNoop f = f\<lparr>bf_tag := kTypeNoop, bf_column_family := 0\<rparr>"
| "rec_fields RecBeginPrepare f = f\<lparr>bf_tag := kTypeBeginPrepareXID, bf_column_family := 0\<rparr>"
| "rec_fields RecBeginPersistedPrepare f = f\<lparr>bf_tag := kTypeBeginPersistedPrepareXID, bf_column_family := 0\<rparr>"
| "rec_fields RecBeginUnprepare f = f\<lparr>bf_tag := kTypeBeginUnprepareXID, bf_column_family := 0\<rparr>"
| "rec_fields (RecEndPrepare x) f = f\<lparr>bf_tag := kTypeEndPrepareXID, bf_column_family := 0, bf_xid := x\<rparr>"
| "rec_fields (RecCommit x) f = f\<lparr>bf_tag := kTypeCommitXID, bf_column_family := 0, bf_xid := x\<rparr>"
| "rec_fields (RecCommitTimestamp ts x) f = f\<lparr>bf_tag := kTypeCommitXIDAndTimestamp, bf_column_family := 0, bf_key := ts, bf_xid := x\<rparr>"
| "rec_fields (RecRollback x) f = f\<lparr>bf_tag := kTypeRollbackXID, bf_column_family := 0, bf_xid := x\<rparr>"

lemmas read_defs = read_done_def read_cf_def read_key_def read_value_def read_blob_def read_xid_def

lemma push_tag_eq: "push_tag cf t u rep = rep @ push_tag cf t u []"
  by (simp add: push_tag_def PutVarint32_def)

lemma push_tag_Nil: "push_tag cf t u [] = (if cf = 0 then [t] else u # EncodeVarint32 cf)"
  by (simp add: push_tag_def PutVarint32_def)

lemmas read_rec_simps = ReadRecordFromWriteBatch_def read_defs push_tag_Nil codec_simps rec_ok_def

lemma read_enc:
  assumes "rec_ok r"
  shows "ReadRecordFromWriteBatch (rec_enc r @ rest) f = Inr (rest, rec_fields r f)"
proof (cases r)
  case (RecPut cf k v)
  then show ?thesis using assms by (cases "cf = 0") (simp_all add: read_rec_simps)
next
  case (RecPutEntity cf k v)
  then show ?thesis using assms by (cases "cf = 0") (simp_all add: read_rec_simps)
next
  case (RecDelete cf k)
  then show ?thesis using assms by (cases "cf = 0") (simp_all add: read_rec_simps)
next
  case (RecSingleDelete cf k)
  then show ?thesis using assms by (cases "cf = 0") (simp_all add: read_rec_simps)
next
  case (RecDeleteRange cf k v)
  then show ?thesis using assms by (cases "cf = 0") (simp_all add: read_rec_simps)
next
  case (RecMerge cf k v)
  then show ?thesis using assms by (cases "cf = 0") (simp_all add: read_rec_simps)
next
  case (RecBlobIndex cf k v)
  then show ?thesis using assms by (cases "cf = 0") (simp_all add: read_rec_simps)
qed (use assms in \<open>simp_all add: read_rec_simps\<close>)

section \<open>Visiting records\<close>

text \<open>The specification of iteration: which handler function a record reaches, and what it does to the loop's variables.\<close>

definition checked :: "(bool \<times> string) list \<Rightarrow> status \<Rightarrow> status" where
  "checked conds s = fold (\<lambda>(c, msg) s. if c then Status_NotSupported msg else s) conds s"

fun rec_apply :: "'h Handler \<Rightarrow> batch_record \<Rightarrow> bool \<Rightarrow> 'h \<Rightarrow> status \<times> 'h" where
  "rec_apply H (RecPut cf k v) e h = h_PutCF H cf k v h"
| "rec_apply H (RecPutEntity cf k v) e h = h_PutEntityCF H cf k v h"
| "rec_apply H (RecDelete cf k) e h = h_DeleteCF H cf k h"
| "rec_apply H (RecSingleDelete cf k) e h = h_SingleDeleteCF H cf k h"
| "rec_apply H (RecDeleteRange cf k v) e h = h_DeleteRangeCF H cf k v h"
| "rec_apply H (RecMerge cf k v) e h = h_MergeCF H cf k v h"
| "rec_apply H (RecBlobIndex cf k v) e h = h_PutBlobIndexCF H cf k v h"
| "rec_apply H (RecLogData b) e h = (Status_OK, h_LogData H b h)"
| "rec_apply H RecNoop e h = h_MarkNoop H e h"
| "rec_apply H RecBeginPrepare e h = (case h_MarkBeginPrepare H False h of (s, h) \<Rightarrow>
     (checked [(h_WriteAfterCommit H h = kDisabled, msg_committed_disabled),
               (h_WriteBeforePrepare H h = kEnabled, msg_committed_before_prepare)] s, h))"
| "rec_apply H RecBeginPersistedPrepare e h = (case h_MarkBeginPrepare H False h of (s, h) \<Rightarrow>
     (checked [(h_WriteAfterCommit H h = kEnabled, msg_prepared_enabled)] s, h))"
| "rec_apply H RecBeginUnprepare e h = (case h_MarkBeginPrepare H True h of (s, h) \<Rightarrow>
     (checked [(h_WriteAfterCommit H h = kEnabled, msg_unprepared_enabled),
               (h_WriteBeforePrepare H h = kDisabled, msg_unprepared_before_prepare)] s, h))"
| "rec_apply H (RecEndPrepare x) e h = h_MarkEndPrepare H x h"
| "rec_apply H (RecCommit x) e h = h_MarkCommit H x h"
| "rec_apply H (RecCommitTimestamp ts x) e h = h_MarkCommitWithTimestamp H x ts h"
| "rec_apply H (RecRollback x) e h = h_MarkRollback H x h"

fun rec_counted :: "batch_record \<Rightarrow> bool" where
  "rec_counted (RecPut _ _ _) = True" | "rec_counted (RecPutEntity _ _ _) = True"
| "rec_counted (RecDelete _ _) = True" | "rec_counted (RecSingleDelete _ _) = True"
| "rec_counted (RecDeleteRange _ _ _) = True" | "rec_counted (RecMerge _ _ _) = True"
| "rec_counted (RecBlobIndex _ _ _) = True" | "rec_counted _ = False"

text \<open>Whether the sub-batch counts as empty after a record that succeeded (\<open>ok\<close>) or failed.\<close>

fun rec_empty :: "batch_record \<Rightarrow> bool \<Rightarrow> bool \<Rightarrow> bool" where
  "rec_empty (RecBlobIndex _ _ _) succ e = e"
| "rec_empty (RecLogData _) succ e = False"
| "rec_empty RecNoop succ e = True"
| "rec_empty RecBeginPrepare succ e = False"
| "rec_empty RecBeginPersistedPrepare succ e = False"
| "rec_empty RecBeginUnprepare succ e = False"
| "rec_empty (RecEndPrepare _) succ e = True"
| "rec_empty (RecCommit _) succ e = True"
| "rec_empty (RecCommitTimestamp _ _) succ e = (succ \<or> e)"
| "rec_empty (RecRollback _) succ e = True"
| "rec_empty _ succ e = (\<not> succ \<and> e)"

lemma counted_update_rec:
  "counted_update v p = (v\<lparr>iv_s := fst p, iv_empty_batch := \<not> ok (fst p) \<and> iv_empty_batch v,
     iv_found := iv_found v + of_bool (ok (fst p))\<rparr>, snd p)"
  by (simp add: counted_update_def case_prod_beta)

lemma not_supported_checked:
  "not_supported m c (v\<lparr>iv_s := s, iv_empty_batch := e\<rparr>) = v\<lparr>iv_s := checked [(c, m)] s, iv_empty_batch := e\<rparr>"
  "checked [(c2, m2)] (checked [(c, m)] s) = checked [(c, m), (c2, m2)] s"
  by (simp_all add: not_supported_def checked_def)

lemma dispatch_rec:
  assumes "iv_fields v = rec_fields r f" and "iv_s v = Status_OK"
  shows "dispatch H v h = (case rec_apply H r (iv_empty_batch v) h of (s, h) \<Rightarrow>
    Inr (v\<lparr>iv_s := s, iv_empty_batch := rec_empty r (ok s) (iv_empty_batch v),
      iv_found := iv_found v + of_bool (rec_counted r \<and> ok s)\<rparr>, h))"
  using assms
  by (cases r) (simp_all add: dispatch_def Let_def counted_update_rec not_supported_checked case_prod_beta)

type_synonym 'h iter_result = "(status + status \<times> bool \<times> u32) \<times> 'h"

abbreviation (input) two_try_again :: status where
  "two_try_again \<equiv> Status_Corruption (''two consecutive TryAgain in WriteBatch handler; this is either a '' @
     ''software bug or data corruption.'')"

fun rec_visit :: "'h Handler \<Rightarrow> batch_record list \<Rightarrow> bool \<Rightarrow> u32 \<Rightarrow> status \<Rightarrow> 'h \<Rightarrow> 'h iter_result" where
  "rec_visit H [] e n s h = (Inr (s, True, n), h)"
| "rec_visit H (r # rs) e n s h =
     (case h_Continue H h of (c, h) \<Rightarrow> if \<not> c then (Inr (s, False, n), h) else
      case rec_apply H r e h of (s, h) \<Rightarrow>
        if ok s then rec_visit H rs (rec_empty r True e) (n + of_bool (rec_counted r)) s h
        else if \<not> IsTryAgain s then (Inr (s, True, n), h)
        else
          case h_Continue H h of (c, h) \<Rightarrow> if \<not> c then (Inr (s, False, n), h) else
          case rec_apply H r (rec_empty r False e) h of (s, h) \<Rightarrow>
            if ok s then rec_visit H rs (rec_empty r True (rec_empty r False e)) (n + of_bool (rec_counted r)) s h
            else if \<not> IsTryAgain s then (Inr (s, True, n), h)
            else case h_Continue H h of (c, h) \<Rightarrow> if \<not> c then (Inr (s, False, n), h) else (Inl two_try_again, h))"

lemma ok_not_TryAgain: "ok s \<Longrightarrow> \<not> IsTryAgain s"
  by (simp add: ok_def IsTryAgain_def)

lemma rec_enc_nonempty: "rec_enc r \<noteq> []"
  by (cases r) (simp_all add: push_tag_Nil)

text \<open>One turn of the loop on a fresh record, and on a record to try again.\<close>

lemma loop_fresh:
  assumes "rec_ok r" and "ok (iv_s v)" and "iv_input v = rec_enc r @ rest"
  shows "Iterate_loop H v h =
    (case h_Continue H h of (c, h) \<Rightarrow> if \<not> c then (Inr (iv_s v, False, iv_found v), h) else
     case rec_apply H r (iv_empty_batch v) h of (s, h) \<Rightarrow>
       Iterate_loop H (v\<lparr>iv_last_was_try_again := False, iv_input := rest, iv_fields := rec_fields r (iv_fields v),
         iv_s := s, iv_empty_batch := rec_empty r (ok s) (iv_empty_batch v),
         iv_found := iv_found v + of_bool (rec_counted r \<and> ok s)\<rparr>) h)"
proof -
  let ?v = "v\<lparr>iv_last_was_try_again := False, iv_s := Status_OK, iv_input := rest, iv_fields := rec_fields r (iv_fields v)\<rparr>"
  have "next_record v = Inr ?v"
    using ok_not_TryAgain [OF assms(2)] read_enc [OF assms(1)] by (simp add: next_record_def assms(3))
  moreover have "dispatch H ?v h = (case rec_apply H r (iv_empty_batch v) h of (s, h) \<Rightarrow>
      Inr (?v\<lparr>iv_s := s, iv_empty_batch := rec_empty r (ok s) (iv_empty_batch v),
        iv_found := iv_found v + of_bool (rec_counted r \<and> ok s)\<rparr>, h))" for h
    using dispatch_rec [of ?v r "iv_fields v" H h] by simp
  ultimately show ?thesis
    using assms(2,3) rec_enc_nonempty [of r] by (subst Iterate_loop.simps) (simp add: case_prod_beta)
qed

lemma loop_again:
  assumes "IsTryAgain (iv_s v)" and "\<not> iv_last_was_try_again v" and "iv_fields v = rec_fields r f"
  shows "Iterate_loop H v h =
    (case h_Continue H h of (c, h) \<Rightarrow> if \<not> c then (Inr (iv_s v, False, iv_found v), h) else
     case rec_apply H r (iv_empty_batch v) h of (s, h) \<Rightarrow>
       Iterate_loop H (v\<lparr>iv_last_was_try_again := True, iv_s := s,
         iv_empty_batch := rec_empty r (ok s) (iv_empty_batch v),
         iv_found := iv_found v + of_bool (rec_counted r \<and> ok s)\<rparr>) h)"
proof -
  let ?v = "v\<lparr>iv_last_was_try_again := True, iv_s := Status_OK\<rparr>"
  have "next_record v = Inr ?v" using assms(1,2) by (simp add: next_record_def)
  moreover have "dispatch H ?v h = (case rec_apply H r (iv_empty_batch v) h of (s, h) \<Rightarrow>
      Inr (?v\<lparr>iv_s := s, iv_empty_batch := rec_empty r (ok s) (iv_empty_batch v),
        iv_found := iv_found v + of_bool (rec_counted r \<and> ok s)\<rparr>, h))" for h
    using dispatch_rec [of ?v r f H h] assms(3) by simp
  ultimately show ?thesis
    using assms(1) by (subst Iterate_loop.simps) (simp add: case_prod_beta)
qed

lemma loop_twice:
  assumes "IsTryAgain (iv_s v)" and "iv_last_was_try_again v"
  shows "Iterate_loop H v h =
    (case h_Continue H h of (c, h) \<Rightarrow> if \<not> c then (Inr (iv_s v, False, iv_found v), h) else (Inl two_try_again, h))"
proof -
  have "next_record v = Inl two_try_again" using assms by (simp add: next_record_def)
  then show ?thesis using assms(1) by (subst Iterate_loop.simps) (simp add: case_prod_beta)
qed

lemma loop_ends:
  assumes "\<not> ok (iv_s v) \<or> iv_input v = []" and "\<not> IsTryAgain (iv_s v)"
  shows "Iterate_loop H v h = (Inr (iv_s v, True, iv_found v), h)"
  using assms by (subst Iterate_loop.simps) auto

lemma loop_visit:
  assumes "\<forall>r \<in> set rs. rec_ok r" and "ok (iv_s v)" and "iv_input v = concat (map rec_enc rs)"
  shows "Iterate_loop H v h = rec_visit H rs (iv_empty_batch v) (iv_found v) (iv_s v) h"
  using assms
proof (induction rs arbitrary: v h)
  case Nil
  then show ?case by (simp add: loop_ends ok_not_TryAgain)
next
  case (Cons r rs)
  show ?case
    using Cons.prems
    by (auto simp: loop_fresh [of r v "concat (map rec_enc rs)"] loop_again [of _ r "iv_fields v"] loop_twice loop_ends
        ok_not_TryAgain Cons.IH split: prod.splits)
qed

section \<open>What a batch holds\<close>

fun rec_flags :: "batch_record \<Rightarrow> ContentFlags" where
  "rec_flags (RecPut _ _ _) = HAS_PUT" | "rec_flags (RecPutEntity _ _ _) = HAS_PUT_ENTITY"
| "rec_flags (RecDelete _ _) = HAS_DELETE" | "rec_flags (RecSingleDelete _ _) = HAS_SINGLE_DELETE"
| "rec_flags (RecDeleteRange _ _ _) = HAS_DELETE_RANGE" | "rec_flags (RecMerge _ _ _) = HAS_MERGE"
| "rec_flags (RecBlobIndex _ _ _) = HAS_BLOB_INDEX"
| "rec_flags RecBeginPrepare = HAS_BEGIN_PREPARE" | "rec_flags RecBeginPersistedPrepare = HAS_BEGIN_PREPARE"
| "rec_flags RecBeginUnprepare = HAS_BEGIN_PREPARE OR HAS_BEGIN_UNPREPARE"
| "rec_flags (RecEndPrepare _) = HAS_END_PREPARE" | "rec_flags (RecCommit _) = HAS_COMMIT"
| "rec_flags (RecCommitTimestamp _ _) = HAS_COMMIT" | "rec_flags (RecRollback _) = HAS_ROLLBACK"
| "rec_flags _ = 0"

definition all_flags :: "batch_record list \<Rightarrow> ContentFlags" where
  "all_flags rs = fold (\<lambda>r fl. fl OR rec_flags r) rs 0"

fun rec_prot :: "np_hash \<Rightarrow> batch_record \<Rightarrow> u64" where
  "rec_prot hash (RecPut cf k v) = ProtectC hash (ProtectKVO hash 0 k v kTypeValue) cf"
| "rec_prot hash (RecPutEntity cf k v) = ProtectC hash (ProtectKVO hash 0 k v kTypeWideColumnEntity) cf"
| "rec_prot hash (RecDelete cf k) = ProtectC hash (ProtectKVO hash 0 k [] kTypeDeletion) cf"
| "rec_prot hash (RecSingleDelete cf k) = ProtectC hash (ProtectKVO hash 0 k [] kTypeSingleDeletion) cf"
| "rec_prot hash (RecDeleteRange cf k v) = ProtectC hash (ProtectKVO hash 0 k v kTypeRangeDeletion) cf"
| "rec_prot hash (RecMerge cf k v) = ProtectC hash (ProtectKVO hash 0 k v kTypeMerge) cf"
| "rec_prot hash (RecBlobIndex cf k v) = ProtectC hash (ProtectKVO hash 0 k v kTypeBlobIndex) cf"
| "rec_prot hash _ = 0"

definition rec_bytes :: "batch_record list \<Rightarrow> slice" where
  "rec_bytes rs = concat (map rec_enc rs)"

definition rec_count :: "batch_record list \<Rightarrow> nat" where
  "rec_count rs = length (filter rec_counted rs)"

definition rec_prots :: "np_hash \<Rightarrow> batch_record list \<Rightarrow> u64 list" where
  "rec_prots hash rs = map (rec_prot hash) (filter rec_counted rs)"

definition save_at :: "batch_record list \<Rightarrow> nat \<Rightarrow> SavePoint" where
  "save_at rs k = \<lparr>sp_size = 12 + length (rec_bytes (take k rs)), sp_count = word_of_nat (rec_count (take k rs)),
     sp_content_flags = all_flags (take k rs)\<rparr>"

text \<open>The bytes of a batch spell a list of records with its count in the header.\<close>

definition rep_holds :: "slice \<Rightarrow> batch_record list \<Rightarrow> bool" where
  "rep_holds rep rs \<longleftrightarrow> (\<exists>hdr. length hdr = 8 \<and> rep = hdr @ EncodeFixed32 (word_of_nat (rec_count rs)) @ rec_bytes rs) \<and>
     (\<forall>r \<in> set rs. rec_ok r) \<and> rec_count rs < 2 ^ 32"

text \<open>
  Everything else the batch keeps agrees with that list: content flags, checksums, and save points, which
  are prefixes of the list, innermost first.
\<close>

definition batch_holds :: "np_hash \<Rightarrow> WriteBatch \<Rightarrow> batch_record list \<Rightarrow> nat list \<Rightarrow> bool" where
  "batch_holds hash b rs marks \<longleftrightarrow> rep_holds (wb_rep b) rs \<and> wb_content_flags b = all_flags rs \<and>
     (\<forall>es. wb_prot_info b = Some es \<longrightarrow> es = rec_prots hash rs) \<and>
     wb_save_points b = map (save_at rs) marks \<and> (\<forall>k \<in> set marks. k \<le> length rs) \<and> sorted_wrt (\<ge>) marks"

definition add_record :: "np_hash \<Rightarrow> batch_record \<Rightarrow> WriteBatch \<Rightarrow> status \<times> WriteBatch" where
  "add_record hash r b =
     (let b1 = (if rec_counted r then WBI_SetCount (WBI_Count b + 1) b else b) in
      commit (LocalSavePoint b)
        (b1\<lparr>wb_rep := wb_rep b1 @ rec_enc r, wb_content_flags := wb_content_flags b1 OR rec_flags r,
            wb_prot_info := (if rec_counted r then map_option (\<lambda>es. es @ [rec_prot hash r]) (wb_prot_info b1)
                             else wb_prot_info b1)\<rparr>))"

lemma fold_append_parts: "fold (\<lambda>part d. d @ part) parts d = d @ concat parts"
  by (induction parts arbitrary: d) simp_all

lemma fold_length_parts: "fold (\<lambda>part n. n + length part) parts n = n + length (concat parts)"
  by (induction parts arbitrary: n) simp_all

lemma PutParts_eq: "PutLengthPrefixedSliceParts dst parts = dst @ EncodeLengthPrefixed (concat parts)"
  by (simp add: PutLengthPrefixedSliceParts_def PutLengthPrefixedSliceParts_from_def fold_append_parts fold_length_parts
      EncodeLengthPrefixed_def PutLengthPrefixedSlice_def PutVarint32_def)

lemmas add_simps = add_record_def Let_def or_flags_def add_protection_def PutLengthPrefixedSlice_append PutParts_eq
  parts_eq WBI_SetCount_def

lemma WBI_adds:
  "WBI_Put hash cf k v b =
     (if length k > u32_max then (Status_InvalidArgument ''key is too large'', b)
      else if length v > u32_max then (Status_InvalidArgument ''value is too large'', b)
      else add_record hash (RecPut cf k v) b)"
  "WBI_Merge hash cf k v b =
     (if length k > u32_max then (Status_InvalidArgument ''key is too large'', b)
      else if length v > u32_max then (Status_InvalidArgument ''value is too large'', b)
      else add_record hash (RecMerge cf k v) b)"
  "WBI_Delete hash cf k b = add_record hash (RecDelete cf k) b"
  "WBI_SingleDelete hash cf k b = add_record hash (RecSingleDelete cf k) b"
  "WBI_DeleteRange hash cf k v b = add_record hash (RecDeleteRange cf k v) b"
  "WBI_PutBlobIndex hash cf k v b = add_record hash (RecBlobIndex cf k v) b"
  "PutLogData x b = add_record hash (RecLogData x) b"
  unfolding WBI_Put_def WBI_Merge_def WBI_Delete_def WBI_SingleDelete_def WBI_DeleteRange_def WBI_PutBlobIndex_def
    PutLogData_def add_simps
  by (simp_all add: push_tag_eq [of _ _ _ "_ @ _"])

lemma WBI_adds_parts:
  "WBI_Put_parts hash cf ks vs b =
     (if ok (CheckSlicePartsLength ks vs) then add_record hash (RecPut cf (concat ks) (concat vs)) b
      else (CheckSlicePartsLength ks vs, b))"
  "WBI_Merge_parts hash cf ks vs b =
     (if ok (CheckSlicePartsLength ks vs) then add_record hash (RecMerge cf (concat ks) (concat vs)) b
      else (CheckSlicePartsLength ks vs, b))"
  "WBI_Delete_parts hash cf ks b = add_record hash (RecDelete cf (concat ks)) b"
  "WBI_SingleDelete_parts hash cf ks b = add_record hash (RecSingleDelete cf (concat ks)) b"
  "WBI_DeleteRange_parts hash cf ks vs b = add_record hash (RecDeleteRange cf (concat ks) (concat vs)) b"
  unfolding WBI_Put_parts_def WBI_Merge_parts_def WBI_Delete_parts_def WBI_SingleDelete_parts_def
    WBI_DeleteRange_parts_def add_simps
  by (simp_all add: push_tag_eq [of _ _ _ "_ @ _"])

lemma WBI_PutEntity_adds:
  "WBI_PutEntity hash cf k columns b =
     (if length k > u32_max then (Status_InvalidArgument ''key is too large'', b)
      else case Serialize (sort_columns columns) [] of (s, entity) \<Rightarrow>
        if \<not> ok s then (s, b)
        else if length entity > u32_max then (Status_InvalidArgument ''wide column entity is too large'', b)
        else add_record hash (RecPutEntity cf k entity) b)"
  unfolding WBI_PutEntity_def add_simps case_prod_beta by (simp add: push_tag_eq [of _ _ _ "_ @ _"])

lemma rec_lists_simps [simp]:
  "rec_bytes [] = []" "rec_bytes (rs @ rs') = rec_bytes rs @ rec_bytes rs'" "rec_bytes [r] = rec_enc r"
  "rec_count [] = 0" "rec_count (rs @ rs') = rec_count rs + rec_count rs'" "rec_count [r] = of_bool (rec_counted r)"
  "rec_prots hash [] = []" "rec_prots hash (rs @ rs') = rec_prots hash rs @ rec_prots hash rs'"
  "rec_prots hash [r] = (if rec_counted r then [rec_prot hash r] else [])" "length (rec_prots hash rs) = rec_count rs"
  by (simp_all add: rec_bytes_def rec_count_def rec_prots_def)

lemma all_flags_append [simp]: "all_flags [] = 0" "all_flags (rs @ rs') = all_flags rs OR all_flags rs'" "all_flags [r] = rec_flags r"
proof -
  have "fold (\<lambda>r fl. fl OR rec_flags r) xs f = f OR fold (\<lambda>r fl. fl OR rec_flags r) xs 0" for xs f
  proof (induction xs arbitrary: f)
    case (Cons x xs)
    show ?case using Cons [of "f OR rec_flags x"] Cons [of "rec_flags x"] by (simp add: or.assoc)
  qed simp
  from this [of rs' "all_flags rs"] show "all_flags (rs @ rs') = all_flags rs OR all_flags rs'"
    by (simp add: all_flags_def)
qed (simp_all add: all_flags_def)

lemma rep_holdsE:
  assumes "rep_holds rep rs"
  obtains hdr where "length hdr = 8" "rep = hdr @ EncodeFixed32 (word_of_nat (rec_count rs)) @ rec_bytes rs"
    "rec_count rs < 2 ^ 32" "\<forall>r \<in> set rs. rec_ok r"
  using assms unfolding rep_holds_def by blast

lemma rep_holds_count:
  assumes "rep_holds rep rs"
  shows "DecodeFixed32 (drop 8 rep) = word_of_nat (rec_count rs)" and "length rep = 12 + length (rec_bytes rs)"
    and "drop 12 rep = rec_bytes rs"
proof -
  obtain hdr where h: "length hdr = 8" "rep = hdr @ EncodeFixed32 (word_of_nat (rec_count rs)) @ rec_bytes rs"
    using assms by (rule rep_holdsE)
  show "DecodeFixed32 (drop 8 rep) = word_of_nat (rec_count rs)" using h by (simp add: Decode_EncodeFixed32)
  show "length rep = 12 + length (rec_bytes rs)" "drop 12 rep = rec_bytes rs" using h by simp_all
qed

lemma resize_take [simp]: "n \<le> length xs \<Longrightarrow> resize n xs = take n xs"
  by (simp add: resize_def)

text \<open>Writing the count of a prefix into the header of a cut batch.\<close>

lemma rep_holds_cut:
  assumes "rep_holds rep (rs @ rs')"
  shows "rep_holds (take 8 rep @ EncodeFixed32 (word_of_nat (rec_count rs)) @ take (length (rec_bytes rs)) (drop 12 rep)) rs"
proof -
  obtain hdr where h: "length hdr = 8" "rep = hdr @ EncodeFixed32 (word_of_nat (rec_count (rs @ rs'))) @ rec_bytes (rs @ rs')"
    "rec_count (rs @ rs') < 2 ^ 32" "\<forall>r \<in> set (rs @ rs'). rec_ok r"
    using assms by (rule rep_holdsE)
  then have "take 8 rep = hdr" "take (length (rec_bytes rs)) (drop 12 rep) = rec_bytes rs" by simp_all
  then show ?thesis using h by (simp add: rep_holds_def)
qed

lemma rep_holds_snoc:
  assumes "rep_holds rep rs" and "rec_ok r" and "rec_count (rs @ [r]) < 2 ^ 32"
  shows "rep_holds (take 8 rep @ EncodeFixed32 (word_of_nat (rec_count (rs @ [r]))) @ drop 12 rep @ rec_enc r) (rs @ [r])"
proof -
  obtain hdr where h: "length hdr = 8" "rep = hdr @ EncodeFixed32 (word_of_nat (rec_count rs)) @ rec_bytes rs"
    "rec_count rs < 2 ^ 32" "\<forall>r \<in> set rs. rec_ok r"
    using assms(1) by (rule rep_holdsE)
  then have "take 8 rep = hdr" "drop 12 rep = rec_bytes rs" by simp_all
  then show ?thesis using h assms(2,3) by (simp add: rep_holds_def)
qed

lemma rep_split:
  assumes "rep_holds rep rs"
  shows "take 8 rep @ EncodeFixed32 (word_of_nat (rec_count rs)) @ drop 12 rep = rep"
proof -
  obtain hdr where h: "length hdr = 8" "rep = hdr @ EncodeFixed32 (word_of_nat (rec_count rs)) @ rec_bytes rs"
    using assms(1) by (rule rep_holdsE)
  then show ?thesis by simp
qed

lemma save_at_snoc: "k \<le> length rs \<Longrightarrow> save_at (rs @ rs') k = save_at rs k"
  by (simp add: save_at_def)

definition same_settings :: "WriteBatch \<Rightarrow> WriteBatch \<Rightarrow> bool" where
  "same_settings b b' \<longleftrightarrow> wb_default_cf_ts_sz b' = wb_default_cf_ts_sz b \<and> wb_max_bytes b' = wb_max_bytes b \<and>
     (wb_prot_info b' = None \<longleftrightarrow> wb_prot_info b = None)"

lemma add_record_holds:
  assumes b: "batch_holds hash b rs marks" and r: "rec_ok r" and n: "rec_count (rs @ [r]) < 2 ^ 32"
  shows "add_record hash r b = (Status_MemoryLimit, b) \<or>
    (\<exists>b'. add_record hash r b = (Status_OK, b') \<and> batch_holds hash b' (rs @ [r]) marks \<and> same_settings b b')"
proof -
  have rep: "rep_holds (wb_rep b) rs" using b by (simp add: batch_holds_def)
  note cnt = rep_holds_count [OF rep]
  define rep' where "rep' = take 8 (wb_rep b) @ EncodeFixed32 (word_of_nat (rec_count (rs @ [r]))) @ drop 12 (wb_rep b) @ rec_enc r"
  have rep': "rep_holds rep' (rs @ [r])" unfolding rep'_def by (rule rep_holds_snoc [OF rep r n])
  define b' where "b' = b\<lparr>wb_rep := rep', wb_content_flags := wb_content_flags b OR rec_flags r,
      wb_prot_info := (if rec_counted r then map_option (\<lambda>es. es @ [rec_prot hash r]) (wb_prot_info b) else wb_prot_info b)\<rparr>"
  have eq: "add_record hash r b = commit (LocalSavePoint b) b'"
  proof (cases "rec_counted r")
    case True
    then show ?thesis using cnt(1) by (simp add: add_record_def b'_def rep'_def WBI_SetCount_def WBI_Count_def add.commute)
  next
    case False
    then have "rep' = (take 8 (wb_rep b) @ EncodeFixed32 (word_of_nat (rec_count rs)) @ drop 12 (wb_rep b)) @ rec_enc r"
      by (simp add: rep'_def)
    then have "rep' = wb_rep b @ rec_enc r" unfolding rep_split [OF rep] .
    then show ?thesis using False by (simp add: add_record_def b'_def)
  qed
  have len: "length rep' = length (wb_rep b) + length (rec_enc r)"
    using rep_holds_count(2) [OF rep'] cnt(2) by simp
  have cut: "take 8 rep' @ EncodeFixed32 (word_of_nat (rec_count rs)) @ take (length (wb_rep b) - 12) (drop 12 rep') = wb_rep b"
    using cnt(2) rep_split [OF rep] by (simp add: rep'_def)
  have prot: "map_option (resize (rec_count rs)) (wb_prot_info b') = wb_prot_info b"
    using b by (cases "wb_prot_info b") (auto simp: b'_def batch_holds_def)
  have u: "unat (word_of_nat (rec_count rs) :: u32) = rec_count rs" using n by simp
  have b'_fields: "wb_rep b' = rep'" "wb_max_bytes b' = wb_max_bytes b" by (simp_all add: b'_def)
  show ?thesis
  proof (cases "wb_max_bytes b \<noteq> 0 \<and> length rep' > wb_max_bytes b")
    case True
    have "commit (LocalSavePoint b) b' = (Status_MemoryLimit, b'\<lparr>wb_rep := wb_rep b, wb_prot_info := wb_prot_info b,
        wb_content_flags := wb_content_flags b\<rparr>)"
      using True cut prot len cnt u
      by (simp add: commit_def Let_def LocalSavePoint_def WBI_SetCount_def GetDataSize_def WBI_Count_def
          b'_fields drop_take)
    moreover have "b'\<lparr>wb_rep := wb_rep b, wb_prot_info := wb_prot_info b, wb_content_flags := wb_content_flags b\<rparr> = b"
      by (cases b) (simp add: b'_def)
    ultimately show ?thesis using eq by simp
  next
    case False
    then have "commit (LocalSavePoint b) b' = (Status_OK, b')" by (auto simp: commit_def b'_def)
    moreover have "batch_holds hash b' (rs @ [r]) marks"
      using b rep' by (auto simp: batch_holds_def b'_def save_at_snoc)
    moreover have "same_settings b b'" by (simp add: same_settings_def b'_def)
    ultimately show ?thesis using eq by auto
  qed
qed

lemma mark_record_holds:
  assumes "batch_holds hash b rs marks" and "rec_ok r" and "\<not> rec_counted r"
    and "b' = b\<lparr>wb_rep := wb_rep b @ rec_enc r, wb_content_flags := wb_content_flags b OR rec_flags r\<rparr>"
  shows "batch_holds hash b' (rs @ [r]) marks"
proof -
  have rep: "rep_holds (wb_rep b) rs" and n: "rec_count (rs @ [r]) < 2 ^ 32"
    using assms(1,3) by (auto simp: batch_holds_def rep_holds_def)
  have "take 8 (wb_rep b) @ EncodeFixed32 (word_of_nat (rec_count (rs @ [r]))) @ drop 12 (wb_rep b) @ rec_enc r =
      (take 8 (wb_rep b) @ EncodeFixed32 (word_of_nat (rec_count rs)) @ drop 12 (wb_rep b)) @ rec_enc r"
    using assms(3) by simp
  also have "\<dots> = wb_rep b @ rec_enc r" unfolding rep_split [OF rep] ..
  finally have "rep_holds (wb_rep b @ rec_enc r) (rs @ [r])" using rep_holds_snoc [OF rep assms(2) n] by (simp only:)
  then show ?thesis using assms by (auto simp: batch_holds_def save_at_snoc)
qed

lemma rec_bytes_Nil_iff: "rec_bytes rs = [] \<longleftrightarrow> rs = []"
  using rec_enc_nonempty by (cases rs) (simp_all add: rec_bytes_def)

lemma rollback_holds:
  assumes "batch_holds hash b rs (k # marks)"
  shows "\<exists>b'. RollbackToSavePoint b = (Status_OK, b') \<and> batch_holds hash b' (take k rs) marks \<and> same_settings b b' \<and>
    take 8 (wb_rep b') = take 8 (wb_rep b)"
proof -
  have rep: "rep_holds (wb_rep b) (take k rs @ drop k rs)" and sp: "wb_save_points b = save_at rs k # map (save_at rs) marks"
    and le: "\<forall>j \<in> set marks. j \<le> k" "k \<le> length rs" and fl: "wb_content_flags b = all_flags rs"
    and prot: "\<And>es. wb_prot_info b = Some es \<Longrightarrow> es = rec_prots hash (take k rs @ drop k rs)"
    using assms by (auto simp: batch_holds_def)
  have size: "length (wb_rep b) = 12 + length (rec_bytes (take k rs)) + length (rec_bytes (drop k rs))"
    using rep_holds_count(2) [OF rep] by (simp only: rec_lists_simps length_append add.assoc)
  have marks: "map (save_at rs) marks = map (save_at (take k rs)) marks"
    using le by (auto simp: save_at_def min_def)
  show ?thesis
  proof (cases "drop k rs = []")
    case True
    then have "take k rs = rs" by simp
    moreover have "sp_size (save_at rs k) = length (wb_rep b)" using size True by (simp add: save_at_def)
    ultimately show ?thesis
      using assms sp by (auto simp: RollbackToSavePoint_def batch_holds_def same_settings_def)
  next
    case False
    then have ne: "length (rec_bytes (drop k rs)) \<noteq> 0" by (simp add: rec_bytes_Nil_iff)
    let ?rep = "take 8 (wb_rep b) @ EncodeFixed32 (word_of_nat (rec_count (take k rs))) @
        take (length (rec_bytes (take k rs))) (drop 12 (wb_rep b))"
    define b' where "b' = b\<lparr>wb_save_points := map (save_at rs) marks, wb_rep := ?rep,
        wb_prot_info := map_option (resize (rec_count (take k rs))) (wb_prot_info b),
        wb_content_flags := all_flags (take k rs)\<rparr>"
    have "rec_count (take k rs @ drop k rs) < 2 ^ 32" using rep unfolding rep_holds_def by blast
    then have "rec_count (take k rs) < 2 ^ 32" unfolding rec_lists_simps by linarith
    then have u: "unat (word_of_nat (rec_count (take k rs)) :: u32) = rec_count (take k rs)" by simp
    have "RollbackToSavePoint b = (Status_OK, b')"
      using sp size ne u
      by (simp add: RollbackToSavePoint_def save_at_def WBI_SetCount_def b'_def Let_def drop_take)
    moreover have pr: "resize (rec_count (take k rs)) (rec_prots hash rs) = rec_prots hash (take k rs)"
    proof -
      have "rec_prots hash rs = rec_prots hash (take k rs) @ rec_prots hash (drop k rs)"
        unfolding rec_lists_simps [symmetric] by simp
      then show ?thesis by simp
    qed
    moreover have "batch_holds hash b' (take k rs) marks"
      unfolding batch_holds_def b'_def
      using rep_holds_cut [OF rep] marks le assms pr by (auto simp: batch_holds_def)
    moreover have "take 8 (wb_rep b') = take 8 (wb_rep b)" using size by (simp add: b'_def)
    ultimately show ?thesis by (auto simp: same_settings_def b'_def)
  qed
qed

section \<open>Calls on a batch\<close>

datatype wb_call =
    CallPut "ColumnFamilyHandle option" slice slice
  | CallPutTs "ColumnFamilyHandle option" slice slice slice
  | CallPutParts "ColumnFamilyHandle option" "slice list" "slice list"
  | CallPutEntity "ColumnFamilyHandle option" slice "WideColumn list"
  | CallDelete "ColumnFamilyHandle option" slice
  | CallDeleteTs "ColumnFamilyHandle option" slice slice
  | CallDeleteParts "ColumnFamilyHandle option" "slice list"
  | CallSingleDelete "ColumnFamilyHandle option" slice
  | CallSingleDeleteTs "ColumnFamilyHandle option" slice slice
  | CallSingleDeleteParts "ColumnFamilyHandle option" "slice list"
  | CallDeleteRange "ColumnFamilyHandle option" slice slice
  | CallDeleteRangeTs "ColumnFamilyHandle option" slice slice slice
  | CallDeleteRangeParts "ColumnFamilyHandle option" "slice list" "slice list"
  | CallMerge "ColumnFamilyHandle option" slice slice
  | CallMergeTs "ColumnFamilyHandle option" slice slice slice
  | CallMergeParts "ColumnFamilyHandle option" "slice list" "slice list"
  | CallPutBlobIndex u32 slice slice
  | CallPutLogData slice
  | CallInsertNoop
  | CallMarkCommit slice
  | CallMarkCommitWithTimestamp slice slice
  | CallMarkRollback slice
  | CallSetSavePoint
  | CallRollbackToSavePoint
  | CallPopSavePoint
  | CallClear

fun wb_run :: "np_hash \<Rightarrow> wb_call \<Rightarrow> WriteBatch \<Rightarrow> status \<times> WriteBatch" where
  "wb_run hash (CallPut h k v) b = WB_Put hash h k v b"
| "wb_run hash (CallPutTs h k ts v) b = WB_Put_ts hash h k ts v b"
| "wb_run hash (CallPutParts h k v) b = WB_Put_parts hash h k v b"
| "wb_run hash (CallPutEntity h k c) b = WB_PutEntity hash h k c b"
| "wb_run hash (CallDelete h k) b = WB_Delete hash h k b"
| "wb_run hash (CallDeleteTs h k ts) b = WB_Delete_ts hash h k ts b"
| "wb_run hash (CallDeleteParts h k) b = WB_Delete_parts hash h k b"
| "wb_run hash (CallSingleDelete h k) b = WB_SingleDelete hash h k b"
| "wb_run hash (CallSingleDeleteTs h k ts) b = WB_SingleDelete_ts hash h k ts b"
| "wb_run hash (CallSingleDeleteParts h k) b = WB_SingleDelete_parts hash h k b"
| "wb_run hash (CallDeleteRange h k v) b = WB_DeleteRange hash h k v b"
| "wb_run hash (CallDeleteRangeTs h k v ts) b = WB_DeleteRange_ts hash h k v ts b"
| "wb_run hash (CallDeleteRangeParts h k v) b = WB_DeleteRange_parts hash h k v b"
| "wb_run hash (CallMerge h k v) b = WB_Merge hash h k v b"
| "wb_run hash (CallMergeTs h k ts v) b = WB_Merge_ts hash h k ts v b"
| "wb_run hash (CallMergeParts h k v) b = WB_Merge_parts hash h k v b"
| "wb_run hash (CallPutBlobIndex cf k v) b = WBI_PutBlobIndex hash cf k v b"
| "wb_run hash (CallPutLogData x) b = PutLogData x b"
| "wb_run hash CallInsertNoop b = InsertNoop b"
| "wb_run hash (CallMarkCommit x) b = WBI_MarkCommit x b"
| "wb_run hash (CallMarkCommitWithTimestamp x ts) b = WBI_MarkCommitWithTimestamp x ts b"
| "wb_run hash (CallMarkRollback x) b = WBI_MarkRollback x b"
| "wb_run hash CallSetSavePoint b = (Status_OK, SetSavePoint b)"
| "wb_run hash CallRollbackToSavePoint b = RollbackToSavePoint b"
| "wb_run hash CallPopSavePoint b = PopSavePoint b"
| "wb_run hash CallClear b = (Status_OK, WB_Clear b)"

text \<open>
  The specification. The record a call stands for depends on the timestamp size of the column family (\<open>d\<close> for
  the default one): a key without a timestamp gets one of zeros, to be filled in later.
\<close>

definition handle_ts :: "nat \<Rightarrow> ColumnFamilyHandle option \<Rightarrow> nat" where
  "handle_ts d h = (case h of None \<Rightarrow> d | Some x \<Rightarrow> (case cfh_timestamp_size x of None \<Rightarrow> 0 | Some ts_sz \<Rightarrow> ts_sz))"

definition ts_key :: "nat \<Rightarrow> ColumnFamilyHandle option \<Rightarrow> slice \<Rightarrow> slice" where
  "ts_key d h k = k @ replicate (handle_ts d h) 0"

fun call_record :: "nat \<Rightarrow> wb_call \<Rightarrow> batch_record option" where
  "call_record d (CallPut h k v) = Some (RecPut (GetColumnFamilyID h) (ts_key d h k) v)"
| "call_record d (CallPutTs h k ts v) = Some (RecPut (GetColumnFamilyID h) (k @ ts) v)"
| "call_record d (CallPutParts h k v) = Some (RecPut (GetColumnFamilyID h) (concat k) (concat v))"
| "call_record d (CallPutEntity h k c) = Some (RecPutEntity (GetColumnFamilyID h) k (snd (Serialize (sort_columns c) [])))"
| "call_record d (CallDelete h k) = Some (RecDelete (GetColumnFamilyID h) (ts_key d h k))"
| "call_record d (CallDeleteTs h k ts) = Some (RecDelete (GetColumnFamilyID h) (k @ ts))"
| "call_record d (CallDeleteParts h k) = Some (RecDelete (GetColumnFamilyID h) (concat k))"
| "call_record d (CallSingleDelete h k) = Some (RecSingleDelete (GetColumnFamilyID h) (ts_key d h k))"
| "call_record d (CallSingleDeleteTs h k ts) = Some (RecSingleDelete (GetColumnFamilyID h) (k @ ts))"
| "call_record d (CallSingleDeleteParts h k) = Some (RecSingleDelete (GetColumnFamilyID h) (concat k))"
| "call_record d (CallDeleteRange h k v) = Some (RecDeleteRange (GetColumnFamilyID h) (ts_key d h k) (ts_key d h v))"
| "call_record d (CallDeleteRangeTs h k v ts) = Some (RecDeleteRange (GetColumnFamilyID h) (k @ ts) (v @ ts))"
| "call_record d (CallDeleteRangeParts h k v) = Some (RecDeleteRange (GetColumnFamilyID h) (concat k) (concat v))"
| "call_record d (CallMerge h k v) = Some (RecMerge (GetColumnFamilyID h) (ts_key d h k) v)"
| "call_record d (CallMergeTs h k ts v) = Some (RecMerge (GetColumnFamilyID h) (k @ ts) v)"
| "call_record d (CallMergeParts h k v) = Some (RecMerge (GetColumnFamilyID h) (concat k) (concat v))"
| "call_record d (CallPutBlobIndex cf k v) = Some (RecBlobIndex cf k v)"
| "call_record d (CallPutLogData x) = Some (RecLogData x)"
| "call_record d CallInsertNoop = Some RecNoop"
| "call_record d (CallMarkCommit x) = Some (RecCommit x)"
| "call_record d (CallMarkCommitWithTimestamp x ts) = Some (RecCommitTimestamp ts x)"
| "call_record d (CallMarkRollback x) = Some (RecRollback x)"
| "call_record d _ = None"

fun call_next :: "nat \<Rightarrow> wb_call \<Rightarrow> batch_record list \<times> nat list \<Rightarrow> batch_record list \<times> nat list" where
  "call_next d CallSetSavePoint (rs, marks) = (rs, length rs # marks)"
| "call_next d CallRollbackToSavePoint (rs, marks) = (take (hd marks) rs, tl marks)"
| "call_next d CallPopSavePoint (rs, marks) = (rs, tl marks)"
| "call_next d CallClear (rs, marks) = ([], [])"
| "call_next d c (rs, marks) = (case call_record d c of None \<Rightarrow> (rs, marks) | Some r \<Rightarrow> (rs @ [r], marks))"

definition call_fits :: "nat \<Rightarrow> wb_call \<Rightarrow> batch_record list \<Rightarrow> bool" where
  "call_fits d c rs \<longleftrightarrow> (case call_record d c of None \<Rightarrow> True | Some r \<Rightarrow> rec_ok r \<and> rec_count (rs @ [r]) < 2 ^ 32)"

text \<open>The outcome of a call that is to append \<open>r\<close>: the record is there, or the bytes are as they were.\<close>

definition appends :: "np_hash \<Rightarrow> WriteBatch \<Rightarrow> batch_record list \<Rightarrow> nat list \<Rightarrow> batch_record \<Rightarrow> status \<times> WriteBatch \<Rightarrow> bool" where
  "appends hash b rs marks r res \<longleftrightarrow>
     (if ok (fst res) then batch_holds hash (snd res) (rs @ [r]) marks
      else batch_holds hash (snd res) rs marks \<and> wb_rep (snd res) = wb_rep b)"

lemma ok_MemoryLimit [simp]: "\<not> ok Status_MemoryLimit"
  by (simp add: ok_def Status_MemoryLimit_def)

lemma appends_add_record:
  assumes "rec_ok r" and "rec_count (rs @ [r]) < 2 ^ 32" and "batch_holds hash b' rs marks" and "wb_rep b' = wb_rep b"
  shows "appends hash b rs marks r (add_record hash r b')"
  using add_record_holds [OF assms(3,1,2)] assms(3,4) unfolding appends_def by auto

lemma appends_error:
  "batch_holds hash b' rs marks \<Longrightarrow> wb_rep b' = wb_rep b \<Longrightarrow> \<not> ok s \<Longrightarrow> appends hash b rs marks r (s, b')"
  by (simp add: appends_def)

lemma appends_if:
  "(c \<Longrightarrow> appends hash b rs marks r x) \<Longrightarrow> (\<not> c \<Longrightarrow> appends hash b rs marks r y) \<Longrightarrow>
     appends hash b rs marks r (if c then x else y)"
  by simp

lemma appends_mark:
  assumes "batch_holds hash b rs marks" and "rec_ok r" and "\<not> rec_counted r"
    and "b' = b\<lparr>wb_rep := wb_rep b @ rec_enc r, wb_content_flags := wb_content_flags b OR rec_flags r\<rparr>"
  shows "appends hash b rs marks r (Status_OK, b')"
  using mark_record_holds [OF assms] by (simp add: appends_def)

lemma batch_holds_flags [simp]:
  "batch_holds hash (b\<lparr>wb_needs_in_place_update_ts := y\<rparr>) rs marks \<longleftrightarrow> batch_holds hash b rs marks"
  "batch_holds hash (b\<lparr>wb_has_key_with_ts := y\<rparr>) rs marks \<longleftrightarrow> batch_holds hash b rs marks"
  by (simp_all add: batch_holds_def)

lemma GetColumnFamily_eq:
  "GetColumnFamilyIdAndTimestampSize b h =
     (fst (GetColumnFamilyIdAndTimestampSize b h), GetColumnFamilyID h, handle_ts (wb_default_cf_ts_sz b) h)"
  by (auto simp: GetColumnFamilyIdAndTimestampSize_def handle_ts_def Let_def split: option.splits)

lemma CheckSlicePartsLength_ok: "ok (CheckSlicePartsLength ks vs) \<longleftrightarrow> length (concat ks) < u32_max \<and> length (concat vs) < u32_max"
  by (simp add: CheckSlicePartsLength_def fold_length_parts not_le del: length_concat)

lemmas call_defs = WB_Put_def WB_Put_ts_def WB_Put_parts_def WB_PutEntity_def WB_Delete_def WB_Delete_ts_def WB_Delete_parts_def
  WB_SingleDelete_def WB_SingleDelete_ts_def WB_SingleDelete_parts_def WB_DeleteRange_def WB_DeleteRange_ts_def
  WB_DeleteRange_parts_def WB_Merge_def WB_Merge_ts_def WB_Merge_parts_def

lemma wb_run_appends:
  assumes b: "batch_holds hash b rs marks" and c: "call_record (wb_default_cf_ts_sz b) c = Some r"
    and r: "rec_ok r" "rec_count (rs @ [r]) < 2 ^ 32"
  shows "appends hash b rs marks r (wb_run hash c b)"
proof -
  obtain S where "S = (\<lambda>h. fst (GetColumnFamilyIdAndTimestampSize b h))" by blast
  then have G: "GetColumnFamilyIdAndTimestampSize b h = (S h, GetColumnFamilyID h, handle_ts (wb_default_cf_ts_sz b) h)" for h
    using GetColumnFamily_eq [of b h] by simp
  have add: "appends hash b rs marks r (add_record hash r' b')"
    if "r' = r" "batch_holds hash b' rs marks" "wb_rep b' = wb_rep b" for b' r'
    unfolding that(1) by (rule appends_add_record [OF r that(2,3)])
  have fine: "length x \<le> u32_max" if "x \<in> set (rec_slices r)" for x
    using r(1) that unfolding rec_ok_def by auto
  note intros = appends_if add appends_error
  show ?thesis
  proof (cases "rec_counted r \<or> (\<exists>x. c = CallPutLogData x)")
    case True
    then show ?thesis using c b
      by (cases c; (simp only: wb_run.simps call_record.simps option.inject option.distinct)?;
          (unfold call_defs G WBI_adds(1-6) WBI_adds(7) [of _ _ hash] WBI_adds_parts WBI_PutEntity_adds case_prod_beta Let_def)?;
          (intro intros)?; force simp: ts_key_def)
  next
    case False
    have "wb_run hash c b = (Status_OK, b\<lparr>wb_rep := wb_rep b @ rec_enc r, wb_content_flags := wb_content_flags b OR rec_flags r\<rparr>)"
      using False c by (cases c) (auto simp: InsertNoop_def WBI_MarkCommit_def WBI_MarkCommitWithTimestamp_def
          WBI_MarkRollback_def or_flags_def PutLengthPrefixedSlice_append)
    then show ?thesis using appends_mark [OF b r(1) _ refl] False by simp
  qed
qed

section \<open>Reachable batches\<close>

text \<open>
  A batch is reached from an empty one by calls and by closing a prepare section; the second and third
  component are the specification's state: the records, and the length of the prefix at each save point.
\<close>

definition begin_record :: "bool \<Rightarrow> bool \<Rightarrow> batch_record" where
  "begin_record write_after_commit unprepared_batch =
     (if write_after_commit then RecBeginPrepare
      else if unprepared_batch then RecBeginUnprepare else RecBeginPersistedPrepare)"

inductive batch_reach :: "np_hash \<Rightarrow> WriteBatch \<Rightarrow> batch_record list \<Rightarrow> nat list \<Rightarrow> bool" for hash where
  reach_init: "batch_reach hash (WriteBatch_init max_bytes prot d) [] []"
| reach_ok: "batch_reach hash b rs marks \<Longrightarrow> call_fits (wb_default_cf_ts_sz b) c rs \<Longrightarrow> wb_run hash c b = (s, b') \<Longrightarrow> ok s \<Longrightarrow>
    batch_reach hash b' (fst (call_next (wb_default_cf_ts_sz b) c (rs, marks))) (snd (call_next (wb_default_cf_ts_sz b) c (rs, marks)))"
| reach_error: "batch_reach hash b rs marks \<Longrightarrow> call_fits (wb_default_cf_ts_sz b) c rs \<Longrightarrow> wb_run hash c b = (s, b') \<Longrightarrow>
    \<not> ok s \<Longrightarrow> batch_reach hash b' rs marks"
| reach_prepare: "batch_reach hash b (RecNoop # rs) marks \<Longrightarrow> length xid < 2 ^ 32 \<Longrightarrow> \<not> (w \<and> u) \<Longrightarrow>
    WBI_MarkEndPrepare xid w u b = (s, b') \<Longrightarrow> batch_reach hash b' (begin_record w u # rs @ [RecEndPrepare xid]) []"

lemma init_holds: "batch_holds hash (WriteBatch_init max_bytes prot d) [] []"
proof -
  have "replicate 12 0 = (replicate 8 0 :: slice) @ EncodeFixed32 0"
    by (simp add: EncodeFixed32_def le_bytes_def numeral_eq_Suc)
  then have "rep_holds (replicate 12 0) []" unfolding rep_holds_def by (intro conjI exI [of _ "replicate 8 0"]) simp_all
  then show ?thesis by (simp add: batch_holds_def WriteBatch_init_def)
qed

lemma call_holds:
  assumes b: "batch_holds hash b rs marks" and fits: "call_fits (wb_default_cf_ts_sz b) c rs"
    and run: "wb_run hash c b = (s, b')"
  shows "if ok s then batch_holds hash b' (fst (call_next (wb_default_cf_ts_sz b) c (rs, marks)))
      (snd (call_next (wb_default_cf_ts_sz b) c (rs, marks)))
    else batch_holds hash b' rs marks \<and> wb_rep b' = wb_rep b"
proof (cases "call_record (wb_default_cf_ts_sz b) c")
  case (Some r)
  then have "call_next (wb_default_cf_ts_sz b) c (rs, marks) = (rs @ [r], marks)" by (cases c) simp_all
  moreover have "appends hash b rs marks r (s, b')"
    using wb_run_appends [OF b Some] fits Some run by (simp add: call_fits_def)
  ultimately show ?thesis by (cases "ok s") (simp_all add: appends_def)
next
  case None
  have rep: "rep_holds (wb_rep b) rs" using b by (simp add: batch_holds_def)
  from None consider "c = CallSetSavePoint" | "c = CallRollbackToSavePoint" | "c = CallPopSavePoint" | "c = CallClear"
    by (cases c) auto
  then show ?thesis
  proof cases
    case 1
    have "save_at rs (length rs) = \<lparr>sp_size = length (wb_rep b), sp_count = WBI_Count b, sp_content_flags = wb_content_flags b\<rparr>"
      using rep_holds_count [OF rep] b by (simp add: save_at_def WBI_Count_def batch_holds_def)
    then show ?thesis using 1 b run by (auto simp: SetSavePoint_def batch_holds_def GetDataSize_def)
  next
    case 2
    show ?thesis
    proof (cases marks)
      case Nil
      then show ?thesis using 2 b run by (auto simp: RollbackToSavePoint_def batch_holds_def)
    next
      case (Cons k ks)
      then show ?thesis using 2 rollback_holds [of hash b rs k ks] b run by auto
    qed
  next
    case 3
    then show ?thesis using b run by (cases marks) (auto simp: PopSavePoint_def batch_holds_def)
  next
    case 4
    have "b' = WB_Clear b" "ok s" using 4 run by auto
    then show ?thesis using 4 init_holds [of hash 0 0 0]
      by (auto simp: WB_Clear_def batch_holds_def WriteBatch_init_def)
  qed
qed

lemma prepare_holds:
  assumes b: "batch_holds hash b (RecNoop # rs) marks" and "length xid < 2 ^ 32" and "\<not> (w \<and> u)"
    and run: "WBI_MarkEndPrepare xid w u b = (s, b')"
  shows "batch_holds hash b' (begin_record w u # rs @ [RecEndPrepare xid]) []"
proof -
  let ?r = "begin_record w u"
  have r: "rec_ok ?r" "\<not> rec_counted ?r" "rec_enc ?r = [if w then kTypeBeginPrepareXID
      else if u then kTypeBeginUnprepareXID else kTypeBeginPersistedPrepareXID]"
    by (simp_all add: begin_record_def rec_ok_def)
  have rep: "rep_holds (wb_rep b) (RecNoop # rs)" using b by (simp add: batch_holds_def)
  obtain hdr where h: "length hdr = 8" "wb_rep b = hdr @ EncodeFixed32 (word_of_nat (rec_count (RecNoop # rs))) @ rec_bytes (RecNoop # rs)"
    using rep by (rule rep_holdsE)
  let ?b1 = "b\<lparr>wb_save_points := [], wb_rep := (wb_rep b)[12 := hd (rec_enc ?r)], wb_content_flags := wb_content_flags b OR rec_flags ?r\<rparr>"
  have cnt: "rec_count (?r # rs) = rec_count (RecNoop # rs)" "rec_prots hash (?r # rs) = rec_prots hash (RecNoop # rs)"
    using r(2) by (simp_all add: rec_count_def rec_prots_def)
  have fl: "all_flags (?r # rs) = all_flags (RecNoop # rs) OR rec_flags ?r"
    using all_flags_append(2) [of "[?r]" rs] all_flags_append(2) [of "[RecNoop]" rs] by (simp add: or.commute)
  have "(wb_rep b)[12 := hd (rec_enc ?r)] = hdr @ EncodeFixed32 (word_of_nat (rec_count (?r # rs))) @ rec_bytes (?r # rs)"
    unfolding h(2) cnt using h(1) r(3) by (simp add: list_update_append rec_bytes_def)
  then have "rep_holds ((wb_rep b)[12 := hd (rec_enc ?r)]) (?r # rs)"
    using rep r(1) h(1) cnt unfolding rep_holds_def by auto
  then have b1: "batch_holds hash ?b1 (?r # rs) []"
    using b fl cnt by (auto simp: batch_holds_def)
  have "b' = ?b1\<lparr>wb_rep := wb_rep ?b1 @ rec_enc (RecEndPrepare xid),
      wb_content_flags := wb_content_flags ?b1 OR rec_flags (RecEndPrepare xid)\<rparr>"
    using run assms(3) r(3)
    by (auto simp: WBI_MarkEndPrepare_def or_flags_def PutLengthPrefixedSlice_append begin_record_def Let_def or.assoc or.commute or.left_commute)
  from mark_record_holds [OF b1 _ _ this] assms(2) show ?thesis by (simp add: rec_ok_def)
qed

lemma reach_holds: "batch_reach hash b rs marks \<Longrightarrow> batch_holds hash b rs marks"
proof (induction rule: batch_reach.induct)
  case (reach_ok b rs marks c s b')
  then show ?case using call_holds [OF reach_ok.IH reach_ok.hyps(2,3)] by simp
next
  case (reach_error b rs marks c s b')
  then show ?case using call_holds [OF reach_error.IH reach_error.hyps(2,3)] by simp
next
  case (reach_prepare b rs marks xid w u s b')
  then show ?case using prepare_holds by blast
qed (rule init_holds)

lemma visit_count:
  "rec_visit H rs e n s h = (Inr (s', True, n'), h') \<Longrightarrow> ok s \<Longrightarrow> ok s' \<Longrightarrow> n' = n + word_of_nat (rec_count rs)"
proof (induction rs arbitrary: e n s h)
  case (Cons r rs)
  have c: "n + of_bool (rec_counted r) + word_of_nat (rec_count rs) = (n + word_of_nat (rec_count (r # rs)) :: u32)"
    by (simp add: rec_count_def)
  from Cons.prems(1,3) obtain e1 s1 h1 where "rec_visit H rs e1 (n + of_bool (rec_counted r)) s1 h1 = (Inr (s', True, n'), h')" "ok s1"
    unfolding rec_visit.simps(2) by (auto split: prod.splits if_splits)
  from Cons.IH [OF this Cons.prems(3)] show ?case unfolding c .
qed (simp add: rec_count_def)

lemma iterate_visit:
  assumes "rep_holds (wb_rep b) rs"
  shows "WB_Iterate H b h =
    (case rec_visit H rs True 0 Status_OK h of
       (Inl s, h) \<Rightarrow> (s, h)
     | (Inr (s, _, _), h) \<Rightarrow> (if ok s then Status_OK else s, h))"
proof -
  note cnt = rep_holds_count [OF assms]
  have "Iterate_loop H (iter_init (rec_bytes rs)) h = rec_visit H rs True 0 Status_OK h"
    using loop_visit [of rs "iter_init (rec_bytes rs)" H h] assms
    by (simp add: iter_init_def rec_bytes_def rep_holds_def)
  moreover have "take (length (wb_rep b) - 12) (drop 12 (wb_rep b)) = rec_bytes rs" using cnt by simp
  ultimately have eq: "WB_Iterate H b h =
      (case rec_visit H rs True 0 Status_OK h of
         (Inl s, h) \<Rightarrow> (s, h)
       | (Inr (s, handler_continue, found), h) \<Rightarrow>
           if \<not> ok s then (s, h)
           else if handler_continue \<and> found \<noteq> word_of_nat (rec_count rs) then (Status_Corruption ''WriteBatch has wrong count'', h)
           else (Status_OK, h))"
    using cnt by (simp add: WB_Iterate_def WBI_Iterate_def Let_def WBI_Count_def split: prod.split sum.split)
  show ?thesis
    unfolding eq using visit_count [of H rs True 0 Status_OK h] by (auto split: prod.split sum.split)
qed

text \<open>A handler that writes down what it is called with.\<close>

definition recorder :: "batch_record list Handler" where
  "recorder = (let note = (\<lambda>r l. (Status_OK, l @ [r])) in
     \<lparr>h_PutCF = \<lambda>cf k v. note (RecPut cf k v), h_PutEntityCF = \<lambda>cf k v. note (RecPutEntity cf k v),
      h_DeleteCF = \<lambda>cf k. note (RecDelete cf k), h_SingleDeleteCF = \<lambda>cf k. note (RecSingleDelete cf k),
      h_DeleteRangeCF = \<lambda>cf k v. note (RecDeleteRange cf k v), h_MergeCF = \<lambda>cf k v. note (RecMerge cf k v),
      h_PutBlobIndexCF = \<lambda>cf k v. note (RecBlobIndex cf k v), h_LogData = \<lambda>x l. l @ [RecLogData x],
      h_MarkBeginPrepare = \<lambda>u. note (if u then RecBeginUnprepare else RecBeginPrepare),
      h_MarkEndPrepare = \<lambda>x. note (RecEndPrepare x), h_MarkNoop = \<lambda>e. note RecNoop,
      h_MarkRollback = \<lambda>x. note (RecRollback x), h_MarkCommit = \<lambda>x. note (RecCommit x),
      h_MarkCommitWithTimestamp = \<lambda>x ts. note (RecCommitTimestamp ts x), h_Continue = \<lambda>l. (True, l),
      h_WriteAfterCommit = \<lambda>l. kUnknown, h_WriteBeforePrepare = \<lambda>l. kUnknown\<rparr>)"

text \<open>The handler interface does not tell a persisted prepare section from a plain one.\<close>

definition seen_as :: "batch_record \<Rightarrow> batch_record" where
  "seen_as r = (if r = RecBeginPersistedPrepare then RecBeginPrepare else r)"

lemma visit_recorder: "rec_visit recorder rs e n Status_OK l = (Inr (Status_OK, True, n + word_of_nat (rec_count rs)), l @ map seen_as rs)"
proof (induction rs arbitrary: e n l)
  case (Cons r rs)
  have "rec_apply recorder r e l = (Status_OK, l @ [seen_as r])"
    by (cases r) (simp_all add: recorder_def seen_as_def checked_def Let_def)
  moreover have "h_Continue recorder l = (True, l)" for l by (simp add: recorder_def Let_def)
  moreover have "n + of_bool (rec_counted r) + word_of_nat (rec_count rs) = (n + word_of_nat (rec_count (r # rs)) :: u32)"
    by (simp add: rec_count_def)
  ultimately show ?case using Cons [of _ "n + of_bool (rec_counted r)" "l @ [seen_as r]"] by simp
qed (simp add: rec_count_def)

text \<open>
  C18. The write batch implements its specification, a list of records: in every state reached from an empty
  batch by calls (with keys, values and counts that fit 32 bits), the bytes are exactly the records
  appended by the calls that succeeded, minus those cut off by rollbacks; the count, the content flags,
  the checksums and the save points agree with that list, and a call that failed left the bytes alone.
  \<^verbatim>\<open>Iterate\<close> shows a handler exactly these records, in order.
\<close>

theorem batch_refines_records:
  assumes "batch_reach hash b rs marks"
  shows "batch_holds hash b rs marks \<and> WBI_Count b = word_of_nat (rec_count rs) \<and>
    WB_Iterate recorder b [] = (Status_OK, map seen_as rs) \<and>
    (call_fits (wb_default_cf_ts_sz b) c rs \<and> \<not> ok (fst (wb_run hash c b)) \<longrightarrow> wb_rep (snd (wb_run hash c b)) = wb_rep b)"
proof -
  note b = reach_holds [OF assms]
  then have rep: "rep_holds (wb_rep b) rs" by (simp add: batch_holds_def)
  have "WB_Iterate recorder b [] = (Status_OK, map seen_as rs)"
    by (simp add: iterate_visit [OF rep] visit_recorder)
  moreover have "WBI_Count b = word_of_nat (rec_count rs)" using rep_holds_count [OF rep] by (simp add: WBI_Count_def)
  moreover have "wb_rep (snd (wb_run hash c b)) = wb_rep b"
    if "call_fits (wb_default_cf_ts_sz b) c rs" "\<not> ok (fst (wb_run hash c b))"
    using call_holds [OF b that(1), of "fst (wb_run hash c b)" "snd (wb_run hash c b)"] that(2) by simp
  ultimately show ?thesis using b by blast
qed

theorem batch_refines_records_witness:
  "WB_Iterate recorder (snd (wb_run (\<lambda>_ _. 0) (CallDelete None [2]) (snd (wb_run (\<lambda>_ _. 0) (CallPut None [1] [5]) (WriteBatch_init 0 8 0))))) [] =
     (Status_OK, [RecPut 0 [1] [5], RecDelete 0 [2]])"
proof -
  let ?b0 = "WriteBatch_init 0 8 0" and ?c1 = "CallPut None [1] [5]" and ?c2 = "CallDelete None [2]"
  let ?b1 = "snd (wb_run (\<lambda>_ _. 0) ?c1 ?b0)"
  let ?b2 = "snd (wb_run (\<lambda>_ _. 0) ?c2 ?b1)"
  have d: "wb_default_cf_ts_sz ?b0 = 0" "wb_default_cf_ts_sz ?b1 = 0" "wb_max_bytes ?b1 = 0"
    by (simp_all add: WriteBatch_init_def WB_Put_def GetColumnFamilyIdAndTimestampSize_def GetColumnFamilyID_def WBI_adds
        add_record_def commit_def Let_def WBI_SetCount_def)
  have ok: "ok (fst (wb_run (\<lambda>_ _. 0) ?c1 ?b0))" "ok (fst (wb_run (\<lambda>_ _. 0) ?c2 ?b1))"
    using d by (simp_all add: WB_Put_def WB_Delete_def GetColumnFamilyIdAndTimestampSize_def GetColumnFamilyID_def WBI_adds
        add_record_def commit_def Let_def WBI_SetCount_def WriteBatch_init_def)
  have fits: "call_fits 0 ?c1 []" "call_fits 0 ?c2 [RecPut 0 [1] [5]]"
    by (simp_all add: call_fits_def rec_ok_def ts_key_def handle_ts_def rec_count_def)
  have "batch_reach (\<lambda>_ _. 0) ?b1 [RecPut 0 [1] [5]] []"
    using reach_ok [OF reach_init [where max_bytes = 0 and prot = 8 and d = 0], where hash = "\<lambda>_ _. 0" and c = ?c1 and b' = ?b1 and s = "fst (wb_run (\<lambda>_ _. 0) ?c1 ?b0)"] d ok fits
    by (simp add: ts_key_def handle_ts_def GetColumnFamilyID_def)
  from reach_ok [OF this, where c = ?c2 and s = "fst (wb_run (\<lambda>_ _. 0) ?c2 ?b1)" and b' = ?b2] d ok fits
  have "batch_reach (\<lambda>_ _. 0) ?b2 [RecPut 0 [1] [5], RecDelete 0 [2]] []"
    by (simp add: ts_key_def handle_ts_def GetColumnFamilyID_def)
  from batch_refines_records [OF this] show ?thesis by (simp add: seen_as_def)
qed

text \<open>
  C19. Iteration is visiting: for every handler, with any status it returns, any point at which it asks to
  stop and any retry it asks for with \<^verbatim>\<open>TryAgain\<close>, \<^verbatim>\<open>Iterate\<close> on the bytes of a list of records behaves as
  visiting the list; the byte loop terminates, and the count check never fails on such bytes.
\<close>

theorem iterate_refines_visit:
  assumes "rep_holds (wb_rep b) rs"
  shows "WB_Iterate H b h =
    (case rec_visit H rs True 0 Status_OK h of
       (Inl s, h) \<Rightarrow> (s, h)
     | (Inr (s, _, _), h) \<Rightarrow> (if ok s then Status_OK else s, h))"
  using assms by (rule iterate_visit)

theorem iterate_refines_visit_witness:
  "WB_Iterate BatchContentClassifier (WriteBatch_init 0 0 0) 0 = (Status_OK, 0)"
proof -
  have "rep_holds (wb_rep (WriteBatch_init 0 0 0)) []"
    using init_holds [of "\<lambda>_ _. 0" 0 0 0] by (simp add: batch_holds_def)
  from iterate_refines_visit [OF this] show ?thesis by simp
qed

section \<open>Save points\<close>

fun wb_runs :: "np_hash \<Rightarrow> wb_call list \<Rightarrow> WriteBatch \<Rightarrow> WriteBatch" where
  "wb_runs hash [] b = b"
| "wb_runs hash (c # cs) b = wb_runs hash cs (snd (wb_run hash c b))"

fun calls_fit :: "np_hash \<Rightarrow> wb_call list \<Rightarrow> WriteBatch \<Rightarrow> batch_record list \<Rightarrow> bool" where
  "calls_fit hash [] b rs = True"
| "calls_fit hash (c # cs) b rs =
     (call_record (wb_default_cf_ts_sz b) c \<noteq> None \<and> call_fits (wb_default_cf_ts_sz b) c rs \<and>
      calls_fit hash cs (snd (wb_run hash c b))
        (if ok (fst (wb_run hash c b)) then rs @ [the (call_record (wb_default_cf_ts_sz b) c)] else rs))"

lemma SetCount_head: "12 \<le> length (wb_rep b) \<Longrightarrow> take 8 (wb_rep (WBI_SetCount n b)) = take 8 (wb_rep b)"
  by (simp add: WBI_SetCount_def)

text \<open>The sequence number at the head of the bytes is left alone by every call that appends.\<close>

lemma commit_head: "sp_size sp \<ge> 12 \<Longrightarrow> 12 \<le> length (wb_rep b) \<Longrightarrow> sp_size sp \<le> length (wb_rep b) \<Longrightarrow>
    take 8 (wb_rep (snd (commit sp b))) = take 8 (wb_rep b)"
  by (simp add: commit_def Let_def WBI_SetCount_def min_def)

lemma add_record_head:
  assumes "12 \<le> length (wb_rep b)"
  shows "take 8 (wb_rep (snd (add_record hash r b))) = take 8 (wb_rep b)"
proof -
  have "take 8 (wb_rep (WBI_SetCount n b) @ x) = take 8 (wb_rep b)" "length (wb_rep (WBI_SetCount n b)) = length (wb_rep b)" for n x
    using assms by (simp_all add: WBI_SetCount_def)
  then show ?thesis
    using assms by (simp add: add_record_def Let_def commit_head LocalSavePoint_def GetDataSize_def)
qed

lemma wb_run_head:
  assumes "12 \<le> length (wb_rep b)" and c: "call_record (wb_default_cf_ts_sz b) c = Some r"
  shows "take 8 (wb_rep (snd (wb_run hash c b))) = take 8 (wb_rep b)"
proof -
  obtain S where "S = (\<lambda>h. fst (GetColumnFamilyIdAndTimestampSize b h))" by blast
  then have G: "GetColumnFamilyIdAndTimestampSize b h = (S h, GetColumnFamilyID h, handle_ts (wb_default_cf_ts_sz b) h)" for h
    using GetColumnFamily_eq [of b h] by simp
  show ?thesis
    using assms
    by (cases c; (simp only: wb_run.simps call_record.simps option.distinct)?;
        (unfold call_defs G WBI_adds(1-6) WBI_adds(7) [of _ _ hash] WBI_adds_parts WBI_PutEntity_adds case_prod_beta Let_def)?;
        simp add: add_record_head InsertNoop_def WBI_MarkCommit_def WBI_MarkCommitWithTimestamp_def WBI_MarkRollback_def
          or_flags_def PutLengthPrefixedSlice_append)
qed

lemma runs_hold:
  assumes "batch_holds hash b (rs @ rs') marks" and "calls_fit hash cs b (rs @ rs')"
  shows "\<exists>rs''. batch_holds hash (wb_runs hash cs b) (rs @ rs'') marks \<and> take 8 (wb_rep (wb_runs hash cs b)) = take 8 (wb_rep b)"
  using assms
proof (induction cs arbitrary: b rs')
  case (Cons c cs)
  let ?b = "snd (wb_run hash c b)" and ?s = "fst (wb_run hash c b)"
  from Cons.prems(2) obtain r where r: "call_record (wb_default_cf_ts_sz b) c = Some r" by auto
  have app: "appends hash b (rs @ rs') marks r (wb_run hash c b)"
    using wb_run_appends [OF Cons.prems(1) r] Cons.prems(2) r by (simp add: call_fits_def)
  have "rep_holds (wb_rep b) (rs @ rs')" using Cons.prems(1) unfolding batch_holds_def by blast
  then have len: "12 \<le> length (wb_rep b)" using rep_holds_count(2) by simp
  note hd = wb_run_head [OF len r, of hash]
  show ?case
  proof (cases "ok ?s")
    case True
    then have "batch_holds hash ?b (rs @ rs' @ [r]) marks" using app by (simp add: appends_def)
    moreover have "calls_fit hash cs ?b (rs @ rs' @ [r])" using Cons.prems(2) True r by simp
    ultimately show ?thesis using Cons.IH [of ?b "rs' @ [r]"] hd by auto
  next
    case False
    then have "batch_holds hash ?b (rs @ rs') marks" using app by (simp add: appends_def)
    moreover have "calls_fit hash cs ?b (rs @ rs')" using Cons.prems(2) False r by simp
    ultimately show ?thesis using Cons.IH [of ?b rs'] hd by auto
  qed
qed auto

lemma holds_unique:
  assumes "batch_holds hash b rs marks" and "batch_holds hash b' rs marks" and "take 8 (wb_rep b') = take 8 (wb_rep b)"
  shows "wb_rep b' = wb_rep b" and "wb_content_flags b' = wb_content_flags b" and "wb_save_points b' = wb_save_points b"
proof -
  have "rep_holds (wb_rep b) rs" "rep_holds (wb_rep b') rs" using assms by (simp_all add: batch_holds_def)
  from rep_split [OF this(1)] rep_split [OF this(2)] rep_holds_count(3) [OF this(1)] rep_holds_count(3) [OF this(2)] assms(3)
  show "wb_rep b' = wb_rep b" by simp
  show "wb_content_flags b' = wb_content_flags b" "wb_save_points b' = wb_save_points b"
    using assms by (simp_all add: batch_holds_def)
qed

text \<open>
  C20. \<^verbatim>\<open>RollbackToSavePoint\<close> undoes everything since \<^verbatim>\<open>SetSavePoint\<close>: after any calls that append records, some
  of which may fail, the bytes, the content flags and the outer save points are those before the save
  point was set.
\<close>

theorem rollback_restores:
  assumes "batch_reach hash b rs marks" and "calls_fit hash cs (SetSavePoint b) rs"
  shows "\<exists>b'. RollbackToSavePoint (wb_runs hash cs (SetSavePoint b)) = (Status_OK, b') \<and>
    wb_rep b' = wb_rep b \<and> wb_content_flags b' = wb_content_flags b \<and> wb_save_points b' = wb_save_points b"
proof -
  note b = reach_holds [OF assms(1)]
  have "batch_holds hash (SetSavePoint b) (rs @ []) (length rs # marks)"
    using call_holds [OF b, of CallSetSavePoint Status_OK "SetSavePoint b"] by (simp add: call_fits_def)
  from runs_hold [OF this] assms(2) obtain rs'' where
    h: "batch_holds hash (wb_runs hash cs (SetSavePoint b)) (rs @ rs'') (length rs # marks)"
      "take 8 (wb_rep (wb_runs hash cs (SetSavePoint b))) = take 8 (wb_rep (SetSavePoint b))"
    by auto
  from rollback_holds [OF h(1)] obtain b' where b': "RollbackToSavePoint (wb_runs hash cs (SetSavePoint b)) = (Status_OK, b')"
    "batch_holds hash b' rs marks" "take 8 (wb_rep b') = take 8 (wb_rep b)"
    using h(2) by (auto simp: SetSavePoint_def)
  then show ?thesis using holds_unique [OF b b'(2,3)] by blast
qed

theorem rollback_restores_witness:
  "\<exists>b'. RollbackToSavePoint (wb_runs (\<lambda>_ _. 0) [CallPutLogData [7], CallInsertNoop] (SetSavePoint (WriteBatch_init 13 0 0))) =
     (Status_OK, b') \<and> wb_rep b' = replicate 12 0"
proof -
  let ?b = "WriteBatch_init 13 0 0"
  have "calls_fit (\<lambda>_ _. 0) [CallPutLogData [7], CallInsertNoop] (SetSavePoint ?b) []"
    by (simp add: call_fits_def rec_ok_def rec_count_def)
  from rollback_restores [OF reach_init this] show ?thesis by (auto simp: WriteBatch_init_def)
qed

section \<open>Content flags\<close>

lemma classifier_apply:
  "rec_apply BatchContentClassifier r e fl =
     (if r = RecNoop then (Status_InvalidArgument ''MarkNoop() handler not defined.'', fl) else (Status_OK, fl OR rec_flags r))"
  by (cases r) (simp_all add: BatchContentClassifier_def Handler_default_def Let_def checked_def or.assoc)

lemma classifier_visit:
  "snd (rec_visit BatchContentClassifier rs e n s fl) = fl OR all_flags (takeWhile (\<lambda>r. r \<noteq> RecNoop) rs)"
proof (induction rs arbitrary: e n s fl)
  case (Cons r rs)
  have c: "h_Continue BatchContentClassifier fl = (True, fl)" for fl
    by (simp add: BatchContentClassifier_def Handler_default_def Let_def)
  have i: "\<not> IsTryAgain (Status_InvalidArgument m)" for m by (simp add: IsTryAgain_def Status_InvalidArgument_def)
  have a: "all_flags (r # rs') = rec_flags r OR all_flags rs'" for rs'
    using all_flags_append(2) [of "[r]" rs'] by simp
  show ?case by (simp add: c i classifier_apply Cons a or.assoc)
qed (simp add: all_flags_def)

lemma all_flags_not_deferred: "all_flags rs AND 1 = 0"
proof (induction rs)
  case (Cons r rs)
  have "rec_flags r AND 1 = 0" by (cases r) (simp_all add: and.commute bit.conj_disj_distrib)
  then show ?case using Cons all_flags_append(2) [of "[r]" rs] by (simp add: bit.conj_disj_distrib2)
qed simp

text \<open>
  C21. The content flags a batch collects while it is built answer the \<^verbatim>\<open>Has...\<close> questions exactly: a flag is set
  if and only if a record of that kind is in the batch. The flags computed from the bytes of a batch that
  was received as a string agree only up to the first \<^verbatim>\<open>Noop\<close> record: the classifier has no \<^verbatim>\<open>MarkNoop\<close>, the
  iteration fails there and the failure is ignored.
\<close>

theorem content_flags:
  assumes "batch_reach hash b rs marks"
  shows "(HasContent flag b \<longleftrightarrow> all_flags rs AND flag \<noteq> 0) \<and>
    (HasContent flag (WriteBatch_of_rep (wb_rep b)) \<longleftrightarrow> all_flags (takeWhile (\<lambda>r. r \<noteq> RecNoop) rs) AND flag \<noteq> 0)"
proof -
  have b: "rep_holds (wb_rep b) rs" "wb_content_flags b = all_flags rs"
    using reach_holds [OF assms] by (simp_all add: batch_holds_def)
  have rep: "rep_holds (wb_rep (WriteBatch_of_rep (wb_rep b))) rs" using b by (simp add: WriteBatch_of_rep_def)
  have "snd (WB_Iterate BatchContentClassifier (WriteBatch_of_rep (wb_rep b)) 0) = all_flags (takeWhile (\<lambda>r. r \<noteq> RecNoop) rs)"
    using classifier_visit [of rs True 0 Status_OK 0] unfolding iterate_visit [OF rep] by (auto split: prod.split sum.split)
  then show ?thesis using b
    by (simp add: HasContent_def ComputeContentFlags_def WriteBatch_of_rep_def all_flags_not_deferred Let_def)
qed

text \<open>The case in point: a batch \<open>[Noop, Put]\<close> sent as a string denies having a \<^verbatim>\<open>Put\<close>.\<close>

theorem content_flags_witness:
  "\<exists>b. batch_reach (\<lambda>_ _. 0) b [RecNoop, RecPut 0 [1] [5]] [] \<and> HasContent HAS_PUT b \<and>
    \<not> HasContent HAS_PUT (WriteBatch_of_rep (wb_rep b))"
proof -
  let ?b1 = "snd (wb_run (\<lambda>_ _. 0) CallInsertNoop (WriteBatch_init 0 0 0))"
  let ?c = "CallPut None [1] [5]"
  let ?p = "wb_run (\<lambda>_ _. 0) ?c ?b1"
  have d: "wb_default_cf_ts_sz ?b1 = 0" "wb_max_bytes ?b1 = 0" by (simp_all add: InsertNoop_def WriteBatch_init_def)
  have "batch_reach (\<lambda>_ _. 0) ?b1 [RecNoop] []"
    using reach_ok [OF reach_init [where max_bytes = 0 and prot = 0 and d = 0], where hash = "\<lambda>_ _. 0" and c = CallInsertNoop
        and b' = ?b1 and s = Status_OK]
    by (simp add: call_fits_def rec_ok_def rec_count_def InsertNoop_def)
  moreover have "ok (fst ?p)" using d
    by (simp add: WB_Put_def GetColumnFamilyIdAndTimestampSize_def GetColumnFamilyID_def WBI_adds
        add_record_def commit_def Let_def WBI_SetCount_def)
  moreover have "call_fits 0 ?c [RecNoop]" by (simp add: call_fits_def rec_ok_def ts_key_def handle_ts_def rec_count_def)
  ultimately have "batch_reach (\<lambda>_ _. 0) (snd ?p) [RecNoop, RecPut 0 [1] [5]] []"
    using reach_ok [where hash = "\<lambda>_ _. 0" and b = ?b1 and rs = "[RecNoop]" and marks = "[]" and c = ?c and s = "fst ?p" and b' = "snd ?p"] d
    by (simp add: ts_key_def handle_ts_def GetColumnFamilyID_def)
  moreover from content_flags [OF this, of HAS_PUT]
  have "HasContent HAS_PUT (snd ?p)" "\<not> HasContent HAS_PUT (WriteBatch_of_rep (wb_rep (snd ?p)))"
    by (simp_all add: all_flags_def)
  ultimately show ?thesis by blast
qed

section \<open>Checksums\<close>

definition clear_fields :: "batch_fields \<Rightarrow> batch_fields" where
  "clear_fields f = f\<lparr>bf_key := [], bf_value := [], bf_column_family := 0\<rparr>"

lemma verify_rec:
  assumes "rec_ok r"
  shows "verify_loop hash (rec_enc r @ rest) f entries idx =
    (if idx < length entries then
       if \<not> rec_counted r then verify_loop hash rest (rec_fields r (clear_fields f)) entries idx
       else if entries ! idx = rec_prot hash r then verify_loop hash rest (rec_fields r (clear_fields f)) entries (idx + 1)
       else Inl (Status_Corruption ''ProtectionInfo mismatch'')
     else Inr idx)"
proof -
  let ?f = "rec_fields r (clear_fields f)"
  have strip: "StripKVO hash (StripC hash e cf) k v t = 0 \<longleftrightarrow> e = ProtectC hash (ProtectKVO hash 0 k v t) cf" for e cf k v t
  proof -
    have "StripKVO hash (StripC hash e cf) k v t = e XOR ProtectC hash (ProtectKVO hash 0 k v t) cf"
      by (simp add: protect_defs xor_ac)
    then show ?thesis by (simp add: xor_eq_0_iff_eq)
  qed
  have tag: "protected_tag (bf_tag ?f) = Inr None" if "\<not> rec_counted r"
    using that by (cases r) (simp_all add: protected_tag_def)
  have counted: "\<exists>t. protected_tag (bf_tag ?f) = Inr (Some t) \<and>
      (StripKVO hash (StripC hash e (bf_column_family ?f)) (bf_key ?f) (bf_value ?f) t = 0 \<longleftrightarrow> e = rec_prot hash r)"
    if "rec_counted r" for e
    using that by (cases r) (simp_all add: protected_tag_def strip clear_fields_def)
  have read: "ReadRecordFromWriteBatch (rec_enc r @ rest) (f\<lparr>bf_key := [], bf_value := [], bf_column_family := 0\<rparr>) = Inr (rest, ?f)"
    using read_enc [OF assms] by (simp add: clear_fields_def)
  show ?thesis
  proof (cases "rec_counted r \<and> idx < length entries")
    case True
    with counted [of "entries ! idx"] obtain t where "protected_tag (bf_tag ?f) = Inr (Some t)"
      "StripKVO hash (StripC hash (entries ! idx) (bf_column_family ?f)) (bf_key ?f) (bf_value ?f) t = 0 \<longleftrightarrow> entries ! idx = rec_prot hash r"
      by blast
    then show ?thesis using True read rec_enc_nonempty [of r]
      by (subst verify_loop.simps) (simp add: Let_def ProtectionInfo_GetStatus_def)
  next
    case False
    then show ?thesis using read rec_enc_nonempty [of r] tag by (subst verify_loop.simps) auto
  qed
qed

lemma verify_recs:
  assumes "\<forall>r \<in> set rs. rec_ok r" and "idx \<le> length entries"
  shows "if take (rec_count rs) (drop idx entries) = rec_prots hash rs
    then verify_loop hash (rec_bytes rs) f entries idx = Inr (idx + rec_count rs)
    else (\<exists>s. verify_loop hash (rec_bytes rs) f entries idx = Inl s \<and> \<not> ok s) \<or>
      (\<exists>n < idx + rec_count rs. verify_loop hash (rec_bytes rs) f entries idx = Inr n)"
  using assms
proof (induction rs arbitrary: f idx)
  case Nil
  then show ?case by (subst verify_loop.simps) simp
next
  case (Cons r rs)
  have b: "rec_bytes (r # rs) = rec_enc r @ rec_bytes rs" "rec_count (r # rs) = of_bool (rec_counted r) + rec_count rs"
    "rec_prots hash (r # rs) = (if rec_counted r then [rec_prot hash r] else []) @ rec_prots hash rs"
    by (simp_all add: rec_bytes_def rec_count_def rec_prots_def)
  note v = verify_rec [of r hash "rec_bytes rs" f entries idx]
  show ?case
  proof (cases "rec_counted r")
    case False
    show ?thesis
    proof (cases "idx < length entries")
      case True
      then show ?thesis using Cons.IH [of idx "rec_fields r (clear_fields f)"] Cons.prems v False by (simp add: b)
    next
      case no: False
      then have "drop idx entries = []" by simp
      then show ?thesis using v Cons.prems no False by (auto simp: b rec_count_def rec_prots_def split: if_splits)
    qed
  next
    case True
    show ?thesis
    proof (cases "idx < length entries")
      case idx: True
      then have "drop idx entries = entries ! idx # drop (Suc idx) entries" by (simp add: Cons_nth_drop_Suc)
      then show ?thesis
        using Cons.IH [of "Suc idx" "rec_fields r (clear_fields f)"] Cons.prems v True idx
        by (auto simp: b split: if_splits)
    next
      case False
      then show ?thesis using v Cons.prems True by (auto simp: b)
    qed
  qed
qed

lemma updater_apply:
  "rec_apply (ProtectionInfoUpdater hash) r e es = (Status_OK, es @ rec_prots hash [r])"
  by (cases r) (simp_all add: ProtectionInfoUpdater_def Handler_default_def Let_def checked_def UpdateProtInfo_def)

lemma updater_visit:
  "rec_visit (ProtectionInfoUpdater hash) rs e n Status_OK es =
     (Inr (Status_OK, True, n + word_of_nat (rec_count rs)), es @ rec_prots hash rs)"
proof (induction rs arbitrary: e n es)
  case (Cons r rs)
  have c: "h_Continue (ProtectionInfoUpdater hash) es = (True, es)" for es
    by (simp add: ProtectionInfoUpdater_def Handler_default_def Let_def)
  have "rec_prots hash (r # rs) = rec_prots hash [r] @ rec_prots hash rs" "rec_count (r # rs) = of_bool (rec_counted r) + rec_count rs"
    by (simp_all add: rec_prots_def rec_count_def)
  then show ?case by (simp add: c updater_apply Cons add.assoc del: rec_lists_simps)
qed (simp add: rec_count_def rec_prots_def)



section \<open>Appending a batch\<close>

lemma rec_count_less_unat: "rec_count rs < 2 ^ 32 \<Longrightarrow> unat (word_of_nat (rec_count rs) :: u32) = rec_count rs"
  by simp

lemma rep_holds_append:
  assumes "rep_holds rep rs" and "\<forall>r \<in> set rs'. rec_ok r" and "rec_count (rs @ rs') < 2 ^ 32"
  shows "rep_holds ((take 8 rep @ EncodeFixed32 (word_of_nat (rec_count (rs @ rs'))) @ drop 12 rep) @ rec_bytes rs') (rs @ rs')"
proof -
  obtain hdr where h: "length hdr = 8" "rep = hdr @ EncodeFixed32 (word_of_nat (rec_count rs)) @ rec_bytes rs"
    "\<forall>r \<in> set rs. rec_ok r"
    using assms(1) by (rule rep_holdsE)
  then have "take 8 rep = hdr" "drop 12 rep = rec_bytes rs" by simp_all
  then show ?thesis using h assms(2,3) by (auto simp: rep_holds_def)
qed



section \<open>Keys beyond the length prefix\<close>

text \<open>
  C24. \<^verbatim>\<open>Put\<close> and \<^verbatim>\<open>Merge\<close> refuse a key that does not fit its 32-bit length prefix. \<^verbatim>\<open>Delete\<close> and \<^verbatim>\<open>SingleDelete\<close> have no
  such check: the call succeeds, and reading the record back yields only the first \<open>length key mod 2 ^ 32\<close> bytes of
  the key and leaves the others in the input, to be taken for records.
\<close>

theorem delete_oversized_key:
  assumes "2 ^ 32 \<le> length key" and "wb_max_bytes b = 0"
  shows "\<not> ok (fst (WBI_Put hash 0 key value b)) \<and>
    (\<exists>b'. WBI_Delete hash 0 key b = (Status_OK, b') \<and>
      wb_rep b' = wb_rep (WBI_SetCount (WBI_Count b + 1) b) @ rec_enc (RecDelete 0 key) \<and>
      ReadRecordFromWriteBatch (rec_enc (RecDelete 0 key) @ rest) f =
        Inr (drop (length key mod 2 ^ 32) key @ rest,
          f\<lparr>bf_tag := kTypeDeletion, bf_column_family := 0, bf_key := take (length key mod 2 ^ 32) key\<rparr>))"
proof -
  have u: "unat (word_of_nat (length key) :: u32) = length key mod 2 ^ 32" by (simp add: unat_of_nat)
  have m: "length key mod 2 ^ 32 \<le> length key" by simp
  have "GetLengthPrefixedSlice (EncodeLengthPrefixed key @ rest) =
      Some (take (length key mod 2 ^ 32) key, drop (length key mod 2 ^ 32) key @ rest)"
    using u m by (simp add: GetLengthPrefixedSlice_def EncodeLengthPrefixed_def PutLengthPrefixedSlice_def PutVarint32_def
        GetVarint32_Encode)
  then have "ReadRecordFromWriteBatch (rec_enc (RecDelete 0 key) @ rest) f =
        Inr (drop (length key mod 2 ^ 32) key @ rest,
          f\<lparr>bf_tag := kTypeDeletion, bf_column_family := 0, bf_key := take (length key mod 2 ^ 32) key\<rparr>)"
    by (simp add: ReadRecordFromWriteBatch_def read_defs push_tag_Nil)
  moreover have "\<exists>b'. WBI_Delete hash 0 key b = (Status_OK, b') \<and>
      wb_rep b' = wb_rep (WBI_SetCount (WBI_Count b + 1) b) @ rec_enc (RecDelete 0 key)"
    using assms(2) by (simp add: WBI_adds add_record_def commit_def WBI_SetCount_def)
  moreover have "\<not> ok (fst (WBI_Put hash 0 key value b))" using assms(1) by (simp add: WBI_Put_def)
  ultimately show ?thesis by blast
qed

theorem delete_oversized_key_witness:
  "\<exists>key f'. length key = 2 ^ 32 + 1 \<and> bf_key f' = [5] \<and>
     ReadRecordFromWriteBatch (rec_enc (RecDelete 0 key)) (iv_fields (iter_init [])) = Inr (drop 1 key, f')"
proof -
  obtain key :: slice where key: "key = replicate (2 ^ 32 + 1) 5" by blast
  have len: "length key = 2 ^ 32 + 1" unfolding key by (rule length_replicate)
  then have m: "length key mod 2 ^ 32 = 1" by simp
  have "take 1 key = [5]" unfolding key by (simp add: take_replicate)
  moreover have "wb_max_bytes (WriteBatch_init 0 0 0) = 0" by (simp add: WriteBatch_init_def)
  ultimately show ?thesis
    using delete_oversized_key [of key "WriteBatch_init 0 0 0" "\<lambda>_ _. 0" "[]" "[]" "iv_fields (iter_init [])", unfolded m] len
    by (intro exI [of _ key]) (auto simp del: rec_enc.simps)
qed

end
