(* ===== verification/Binary_Heap.thy ===== *)
theory Binary_Heap
  imports Dbformat "HOL-Library.Multiset"
begin

text \<open>
  \<^verbatim>\<open>util/heap.h\<close>: the binary heap behind the merging iterators, with the cached choice of the larger
  child of the root (\<^verbatim>\<open>root_cmp_cache_\<close>), and the comparators of \<^verbatim>\<open>table/iter_heap.h\<close>. \<^verbatim>\<open>upheap\<close> and \<^verbatim>\<open>downheap\<close>
  hold the moved value aside and write it flip at the end, as the code does; the loop of \<^verbatim>\<open>downheap\<close> is a
  partial function, because a cache that named the root itself would make it spin. An operation that
  the code asserts is not called on an empty heap gives \<open>None\<close> there.

  Under a strict weak order (locale \<open>heap_order\<close>) every operation keeps the heap order and the validity of
  the cache, and acts on the multiset of elements as its name says; the locale \<open>priority_queue\<close> is what a
  merging client needs of that, and its lemma says that popping until empty sorts.
\<close>

section \<open>The code\<close>

definition npos :: nat where
  "npos = 2 ^ 64 - 1"

record 'a BinaryHeap =
  heap_data :: "'a list"
  root_cmp_cache :: nat

definition BinaryHeap_init :: "'a BinaryHeap" where
  "BinaryHeap_init = \<lparr>heap_data = [], root_cmp_cache = npos\<rparr>"

definition reset_root_cmp_cache :: "'a BinaryHeap \<Rightarrow> 'a BinaryHeap" where
  "reset_root_cmp_cache h = h\<lparr>root_cmp_cache := npos\<rparr>"

definition get_root :: nat where
  "get_root = 0"

definition get_parent :: "nat \<Rightarrow> nat" where
  "get_parent index = (index - 1) div 2"

definition get_left :: "nat \<Rightarrow> nat" where
  "get_left index = 2 * index + 1"

definition get_right :: "nat \<Rightarrow> nat" where
  "get_right index = 2 * index + 2"

function upheap_loop :: "('a \<Rightarrow> 'a \<Rightarrow> bool) \<Rightarrow> 'a \<Rightarrow> 'a list \<Rightarrow> nat \<Rightarrow> 'a list \<times> nat" where
  "upheap_loop cmp v data index =
     (if get_root < index then
        let parent = get_parent index in
        if \<not> cmp (data ! parent) v then (data, index)
        else upheap_loop cmp v (data[index := data ! parent]) parent
      else (data, index))"
  by pat_completeness auto
termination by (relation "measure (\<lambda>(_, _, _, i). i)") (auto simp: get_parent_def get_root_def)

declare upheap_loop.simps [simp del]

definition upheap :: "('a \<Rightarrow> 'a \<Rightarrow> bool) \<Rightarrow> 'a BinaryHeap \<Rightarrow> nat \<Rightarrow> 'a BinaryHeap" where
  "upheap cmp h index =
     (let v = heap_data h ! index;
          (data, index) = upheap_loop cmp v (heap_data h) index
      in reset_root_cmp_cache (h\<lparr>heap_data := data[index := v]\<rparr>))"

partial_function (option) downheap_loop ::
  "('a \<Rightarrow> 'a \<Rightarrow> bool) \<Rightarrow> nat \<Rightarrow> 'a \<Rightarrow> 'a list \<Rightarrow> nat \<Rightarrow> nat \<Rightarrow> ('a list \<times> nat \<times> nat) option" where
  "downheap_loop cmp cache v data index picked_child =
     (let left_child = get_left index in
      if length data \<le> get_left index then Some (data, index, picked_child)
      else
        let right_child = left_child + 1;
            picked_child =
              (if index = 0 \<and> cache < length data then cache
               else if right_child < length data \<and> cmp (data ! left_child) (data ! right_child) then right_child
               else left_child)
        in
        if \<not> cmp v (data ! picked_child) then Some (data, index, picked_child)
        else downheap_loop cmp cache v (data[index := data ! picked_child]) picked_child picked_child)"

definition downheap :: "('a \<Rightarrow> 'a \<Rightarrow> bool) \<Rightarrow> 'a BinaryHeap \<Rightarrow> nat \<Rightarrow> 'a BinaryHeap option" where
  "downheap cmp h index =
     (let v = heap_data h ! index in
      case downheap_loop cmp (root_cmp_cache h) v (heap_data h) index npos of
        None \<Rightarrow> None
      | Some (data, index, picked_child) \<Rightarrow>
          let h = (if index = 0 then h\<lparr>root_cmp_cache := picked_child\<rparr> else reset_root_cmp_cache h)
          in Some (h\<lparr>heap_data := data[index := v]\<rparr>))"

definition push :: "('a \<Rightarrow> 'a \<Rightarrow> bool) \<Rightarrow> 'a BinaryHeap \<Rightarrow> 'a \<Rightarrow> 'a BinaryHeap" where
  "push cmp h value =
     (let h = h\<lparr>heap_data := heap_data h @ [value]\<rparr> in upheap cmp h (length (heap_data h) - 1))"

definition heap_empty :: "'a BinaryHeap \<Rightarrow> bool" where
  "heap_empty h \<longleftrightarrow> heap_data h = []"

definition heap_size :: "'a BinaryHeap \<Rightarrow> nat" where
  "heap_size h = length (heap_data h)"

definition heap_top :: "'a BinaryHeap \<Rightarrow> 'a option" where
  "heap_top h = (case heap_data h of [] \<Rightarrow> None | x # xs \<Rightarrow> Some x)"

definition replace_top :: "('a \<Rightarrow> 'a \<Rightarrow> bool) \<Rightarrow> 'a BinaryHeap \<Rightarrow> 'a \<Rightarrow> 'a BinaryHeap option" where
  "replace_top cmp h value =
     (if heap_empty h then None
      else downheap cmp (h\<lparr>heap_data := (heap_data h)[0 := value]\<rparr>) get_root)"

definition heap_pop :: "('a \<Rightarrow> 'a \<Rightarrow> bool) \<Rightarrow> 'a BinaryHeap \<Rightarrow> 'a BinaryHeap option" where
  "heap_pop cmp h =
     (if heap_empty h then None
      else
        let data = (if length (heap_data h) > 1 then (heap_data h)[0 := last (heap_data h)] else heap_data h);
            h = h\<lparr>heap_data := butlast data\<rparr>
        in if \<not> heap_empty h then downheap cmp h get_root else Some (reset_root_cmp_cache h))"

definition heap_clear :: "'a BinaryHeap \<Rightarrow> 'a BinaryHeap" where
  "heap_clear h = reset_root_cmp_cache (h\<lparr>heap_data := []\<rparr>)"

definition heap_swap :: "'a BinaryHeap \<Rightarrow> 'a BinaryHeap \<Rightarrow> 'a BinaryHeap \<times> 'a BinaryHeap" where
  "heap_swap h other = (other, h)"

text \<open>\<^verbatim>\<open>table/iter_heap.h\<close>: \<open>key\<close> is the current key of a child iterator.\<close>

definition MaxIteratorComparator :: "(slice \<Rightarrow> slice \<Rightarrow> int) \<Rightarrow> ('i \<Rightarrow> slice) \<Rightarrow> 'i \<Rightarrow> 'i \<Rightarrow> bool" where
  "MaxIteratorComparator icmp key a b \<longleftrightarrow> icmp (key a) (key b) < 0"

definition MinIteratorComparator :: "(slice \<Rightarrow> slice \<Rightarrow> int) \<Rightarrow> ('i \<Rightarrow> slice) \<Rightarrow> 'i \<Rightarrow> 'i \<Rightarrow> bool" where
  "MinIteratorComparator icmp key a b \<longleftrightarrow> 0 < icmp (key a) (key b)"

section \<open>Termination for every comparison\<close>

text \<open>The child that a turn of the loop of \<^verbatim>\<open>downheap\<close> picks.\<close>

definition pick :: "('a \<Rightarrow> 'a \<Rightarrow> bool) \<Rightarrow> nat \<Rightarrow> 'a list \<Rightarrow> nat \<Rightarrow> nat" where
  "pick cmp cache data index =
     (if index = 0 \<and> cache < length data then cache
      else if get_left index + 1 < length data \<and> cmp (data ! get_left index) (data ! (get_left index + 1))
      then get_left index + 1 else get_left index)"

lemma downheap_loop_pick:
  "downheap_loop cmp cache v data index picked =
     (if length data \<le> get_left index then Some (data, index, picked)
      else if \<not> cmp v (data ! pick cmp cache data index) then Some (data, index, pick cmp cache data index)
      else downheap_loop cmp cache v (data[index := data ! pick cmp cache data index])
             (pick cmp cache data index) (pick cmp cache data index))"
  by (subst downheap_loop.simps) (simp only: Let_def pick_def)

lemma pick_below: "cache \<noteq> 0 \<Longrightarrow> index < pick cmp cache data index"
  by (auto simp: pick_def get_left_def)

lemma pick_in: "get_left index < length data \<Longrightarrow> pick cmp cache data index < length data"
  by (auto simp: pick_def)

text \<open>Whatever the comparison answers, the loop goes strictly down the tree, unless the cache names the root.\<close>

lemma downheap_loop_returns:
  assumes "cache \<noteq> 0"
  shows "\<exists>data' index' picked'. downheap_loop cmp cache v data index picked = Some (data', index', picked') \<and>
    length data' = length data \<and> (index' = 0 \<longrightarrow> index = 0 \<and> (picked' = picked \<or> picked' \<noteq> 0))"
proof (induction "length data - index" arbitrary: data index picked rule: less_induct)
  case less
  let ?p = "pick cmp cache data index"
  show ?case
  proof (cases "length data \<le> get_left index \<or> \<not> cmp v (data ! ?p)")
    case True
    then show ?thesis using pick_below [OF assms, of index cmp data]
      by (auto simp: downheap_loop_pick [of cmp cache v data index])
  next
    case False
    have gt: "index < ?p" "?p < length data" using False pick_below [OF assms] pick_in [of index data cmp cache] by auto
    then have "length (data[index := data ! ?p]) - ?p < length data - index" by simp
    from less [OF this, of ?p] gt(1) False show ?thesis
      by (auto simp: downheap_loop_pick [of cmp cache v data index])
  qed
qed

lemma downheap_returns:
  assumes "root_cmp_cache h \<noteq> 0"
  shows "\<exists>h'. downheap cmp h index = Some h' \<and> root_cmp_cache h' \<noteq> 0 \<and> heap_size h' = heap_size h"
proof -
  obtain data' index' picked' where "downheap_loop cmp (root_cmp_cache h) (heap_data h ! index) (heap_data h) index npos =
      Some (data', index', picked')" "length data' = length (heap_data h)" "index' = 0 \<longrightarrow> picked' \<noteq> 0"
    using downheap_loop_returns [OF assms, of cmp "heap_data h ! index" "heap_data h" index npos] by (auto simp: npos_def)
  then show ?thesis
    by (simp add: downheap_def heap_size_def reset_root_cmp_cache_def npos_def)
qed

section \<open>Heap order\<close>

definition heap_ordered :: "('a \<Rightarrow> 'a \<Rightarrow> bool) \<Rightarrow> 'a list \<Rightarrow> bool" where
  "heap_ordered cmp xs \<longleftrightarrow> (\<forall>j < length xs. 0 < j \<longrightarrow> \<not> cmp (xs ! get_parent j) (xs ! j))"

definition cache_valid :: "('a \<Rightarrow> 'a \<Rightarrow> bool) \<Rightarrow> 'a list \<Rightarrow> nat \<Rightarrow> bool" where
  "cache_valid cmp xs c \<longleftrightarrow> c \<noteq> 0 \<and> (c < length xs \<longrightarrow>
     c \<le> 2 \<and> (\<forall>j < length xs. 0 < j \<longrightarrow> j \<le> 2 \<longrightarrow> \<not> cmp (xs ! c) (xs ! j)))"

definition heap_inv :: "('a \<Rightarrow> 'a \<Rightarrow> bool) \<Rightarrow> ('a \<Rightarrow> bool) \<Rightarrow> 'a BinaryHeap \<Rightarrow> bool" where
  "heap_inv cmp valid h \<longleftrightarrow> heap_ordered cmp (heap_data h) \<and> cache_valid cmp (heap_data h) (root_cmp_cache h) \<and>
     length (heap_data h) \<le> npos \<and> (\<forall>x \<in> set (heap_data h). valid x)"

text \<open>What is left of the invariant when the value at the top has changed, as when an iterator on top of a
  merging heap has moved: enough for \<^verbatim>\<open>replace_top\<close> and \<^verbatim>\<open>pop\<close>.\<close>

definition heap_inv_tail :: "('a \<Rightarrow> 'a \<Rightarrow> bool) \<Rightarrow> ('a \<Rightarrow> bool) \<Rightarrow> 'a BinaryHeap \<Rightarrow> bool" where
  "heap_inv_tail cmp valid h \<longleftrightarrow>
     (\<forall>j < length (heap_data h). 0 < j \<longrightarrow> get_parent j \<noteq> 0 \<longrightarrow> \<not> cmp (heap_data h ! get_parent j) (heap_data h ! j)) \<and>
     cache_valid cmp (heap_data h) (root_cmp_cache h) \<and> length (heap_data h) \<le> npos \<and>
     (\<forall>x \<in> set (tl (heap_data h)). valid x)"

lemma heap_inv_tail: "heap_inv cmp valid h \<Longrightarrow> heap_inv_tail cmp valid h"
  by (cases "heap_data h") (auto simp: heap_inv_def heap_inv_tail_def heap_ordered_def)

text \<open>The heap order but for the edge above \<open>i\<close> (\<^verbatim>\<open>upheap\<close>), or below \<open>i\<close> (\<^verbatim>\<open>downheap\<close>); in both cases
  the parent of \<open>i\<close> bounds the children of \<open>i\<close>.\<close>

definition bridged :: "('a \<Rightarrow> 'a \<Rightarrow> bool) \<Rightarrow> 'a list \<Rightarrow> nat \<Rightarrow> bool" where
  "bridged cmp xs i \<longleftrightarrow> (0 < i \<longrightarrow> (\<forall>j < length xs. 0 < j \<longrightarrow> get_parent j = i \<longrightarrow> \<not> cmp (xs ! get_parent i) (xs ! j)))"

definition ordered_above :: "('a \<Rightarrow> 'a \<Rightarrow> bool) \<Rightarrow> 'a list \<Rightarrow> nat \<Rightarrow> bool" where
  "ordered_above cmp xs i \<longleftrightarrow>
     (\<forall>j < length xs. 0 < j \<longrightarrow> j \<noteq> i \<longrightarrow> \<not> cmp (xs ! get_parent j) (xs ! j)) \<and> bridged cmp xs i"

definition ordered_below :: "('a \<Rightarrow> 'a \<Rightarrow> bool) \<Rightarrow> 'a list \<Rightarrow> nat \<Rightarrow> bool" where
  "ordered_below cmp xs i \<longleftrightarrow>
     (\<forall>j < length xs. 0 < j \<longrightarrow> get_parent j \<noteq> i \<longrightarrow> \<not> cmp (xs ! get_parent j) (xs ! j)) \<and> bridged cmp xs i"

lemma get_parent_less: "0 < j \<Longrightarrow> get_parent j < j"
  by (simp add: get_parent_def)

lemma get_parent_iff: "0 < j \<Longrightarrow> get_parent j = i \<longleftrightarrow> j = get_left i \<or> j = get_right i"
  by (auto simp: get_parent_def get_left_def get_right_def)

lemma get_parent_root: "0 < j \<Longrightarrow> get_parent j = 0 \<longleftrightarrow> j \<le> 2"
  by (auto simp: get_parent_def)

lemma mset_swap_at:
  "i < length xs \<Longrightarrow> j < length xs \<Longrightarrow> mset ((xs[i := xs ! j])[j := xs ! i]) = mset xs"
  by (rule mset_swap)

locale heap_order =
  fixes cmp :: "'a \<Rightarrow> 'a \<Rightarrow> bool" and valid :: "'a \<Rightarrow> bool"
  assumes cmp_asym: "valid a \<Longrightarrow> valid b \<Longrightarrow> cmp a b \<Longrightarrow> \<not> cmp b a"
    and ncmp_trans: "valid a \<Longrightarrow> valid b \<Longrightarrow> valid c \<Longrightarrow> \<not> cmp a b \<Longrightarrow> \<not> cmp b c \<Longrightarrow> \<not> cmp a c"
begin

lemma swap_up:
  assumes i: "i < length ys" "0 < i" and p: "p = get_parent i" and lt: "cmp (ys ! p) (ys ! i)"
    and above: "ordered_above cmp ys i" and val: "\<forall>x \<in> set ys. valid x"
  shows "ordered_above cmp ((ys[i := ys ! p])[p := ys ! i]) p"
proof -
  let ?zs = "(ys[i := ys ! p])[p := ys ! i]"
  have pi: "p < i" using i p by (simp add: get_parent_less)
  have v: "j < length ys \<Longrightarrow> valid (ys ! j)" for j using val by simp
  have nth: "j < length ys \<Longrightarrow> ?zs ! j = (if j = p then ys ! i else if j = i then ys ! p else ys ! j)" for j
    using i pi by (simp add: nth_list_update)
  have pl: "0 < j \<Longrightarrow> j < length ys \<Longrightarrow> get_parent j < length ys" for j
    using get_parent_less [of j] by simp
  have ord: "\<not> cmp (ys ! get_parent j) (ys ! j)" if "j < length ys" "0 < j" "j \<noteq> i" for j
    using above that by (simp add: ordered_above_def)
  have br: "\<not> cmp (ys ! p) (ys ! j)" if "j < length ys" "0 < j" "get_parent j = i" for j
    using above that i p by (auto simp: ordered_above_def bridged_def)
  have flip: "\<not> cmp (ys ! i) (ys ! p)" using cmp_asym [of "ys ! p" "ys ! i"] lt v i pi by simp
  have "\<not> cmp (?zs ! get_parent j) (?zs ! j)" if j: "j < length ys" "0 < j" "j \<noteq> p" for j
  proof -
    consider "j = i" | "get_parent j = i" | "get_parent j = p" "j \<noteq> i" | "get_parent j \<noteq> i" "get_parent j \<noteq> p" "j \<noteq> i"
      by blast
    then show ?thesis
    proof cases
      case 3
      with ord [of j] j flip ncmp_trans [of "ys ! i" "ys ! p" "ys ! j"] v i pi show ?thesis
        by (simp add: nth pl)
    qed (use j i pi p flip ord [of j] br [of j] get_parent_less [of j] in \<open>auto simp: nth pl\<close>)
  qed
  moreover have "\<not> cmp (?zs ! get_parent p) (?zs ! j)" if j: "0 < p" "j < length ys" "0 < j" "get_parent j = p" for j
  proof -
    have gp: "get_parent p < p" using j by (simp add: get_parent_less)
    have up: "\<not> cmp (ys ! get_parent p) (ys ! p)" using ord [of p] j pi i by simp
    show ?thesis
    proof (cases "j = i")
      case True
      with up gp pi i show ?thesis by (simp add: nth)
    next
      case False
      with ord [of j] j have "\<not> cmp (ys ! p) (ys ! j)" by simp
      with up ncmp_trans [of "ys ! get_parent p" "ys ! p" "ys ! j"] v j gp pi i False get_parent_less [of j]
      show ?thesis by (simp add: nth)
    qed
  qed
  ultimately show ?thesis by (simp add: ordered_above_def bridged_def)
qed

lemma upheap_loop_ordered:
  assumes "i < length xs" "ordered_above cmp (xs[i := v]) i" "\<forall>x \<in> set (xs[i := v]). valid x"
    and "upheap_loop cmp v xs i = (ys, k)"
  shows "k < length ys \<and> mset (ys[k := v]) = mset (xs[i := v]) \<and> heap_ordered cmp (ys[k := v])"
  using assms
proof (induction i arbitrary: xs rule: less_induct)
  case (less i)
  let ?p = "get_parent i"
  show ?case
  proof (cases "0 < i \<and> cmp (xs ! ?p) v")
    case True
    then have p: "?p < i" by (simp add: get_parent_less)
    have sw: "(xs[i := xs ! ?p])[?p := v] = ((xs[i := v])[i := xs[i := v] ! ?p])[?p := xs[i := v] ! i]"
      using p less.prems(1) by simp
    have ms: "mset ((xs[i := xs ! ?p])[?p := v]) = mset (xs[i := v])"
      unfolding sw using p less.prems(1) by (intro mset_swap_at) simp_all
    have "upheap_loop cmp v (xs[i := xs ! ?p]) ?p = (ys, k)"
      using less.prems(4) True by (subst (asm) upheap_loop.simps) (simp add: get_root_def Let_def)
    moreover have "ordered_above cmp ((xs[i := xs ! ?p])[?p := v]) ?p"
      unfolding sw using less.prems True p by (intro swap_up) auto
    moreover have "\<forall>x \<in> set ((xs[i := xs ! ?p])[?p := v]). valid x"
      using less.prems(3) mset_eq_setD [OF ms] by simp
    ultimately show ?thesis
      using less.IH [OF p, of "xs[i := xs ! ?p]"] less.prems(1) p ms by simp
  next
    case False
    then have "upheap_loop cmp v xs i = (xs, i)"
      by (subst upheap_loop.simps) (auto simp: get_root_def Let_def)
    with less.prems False show ?thesis
      by (auto simp: heap_ordered_def ordered_above_def get_parent_def nth_list_update)
  qed
qed

lemma swap_down:
  assumes m: "m < length ys" "0 < m" "get_parent m = i" and lt: "cmp (ys ! i) (ys ! m)"
    and best: "\<And>j. j < length ys \<Longrightarrow> 0 < j \<Longrightarrow> get_parent j = i \<Longrightarrow> \<not> cmp (ys ! m) (ys ! j)"
    and below: "ordered_below cmp ys i" and val: "\<forall>x \<in> set ys. valid x"
  shows "ordered_below cmp ((ys[i := ys ! m])[m := ys ! i]) m"
proof -
  let ?zs = "(ys[i := ys ! m])[m := ys ! i]"
  have im: "i < m" using m get_parent_less [of m] by simp
  have nth: "j < length ys \<Longrightarrow> ?zs ! j = (if j = m then ys ! i else if j = i then ys ! m else ys ! j)" for j
    using m im by (simp add: nth_list_update)
  have pl: "0 < j \<Longrightarrow> j < length ys \<Longrightarrow> get_parent j < length ys" for j
    using get_parent_less [of j] by simp
  have ord: "\<not> cmp (ys ! get_parent j) (ys ! j)" if "j < length ys" "0 < j" "get_parent j \<noteq> i" for j
    using below that by (simp add: ordered_below_def)
  have br: "\<not> cmp (ys ! get_parent i) (ys ! m)" if "0 < i"
    using below that m by (auto simp: ordered_below_def bridged_def)
  have flip: "\<not> cmp (ys ! m) (ys ! i)" using cmp_asym [of "ys ! i" "ys ! m"] lt val m im by simp
  have "\<not> cmp (?zs ! get_parent j) (?zs ! j)" if j: "j < length ys" "0 < j" "get_parent j \<noteq> m" for j
  proof (cases "get_parent j = i")
    case True
    with j m im best [of j] flip get_parent_less [of j] show ?thesis by (auto simp: nth pl)
  next
    case False
    with j m im ord [of j] br get_parent_less [of j] show ?thesis by (auto simp: nth pl)
  qed
  moreover have "\<not> cmp (?zs ! get_parent m) (?zs ! j)" if j: "j < length ys" "0 < j" "get_parent j = m" for j
    using j m im ord [of j] get_parent_less [of j] by (auto simp: nth)
  ultimately show ?thesis by (simp add: ordered_below_def bridged_def)
qed

lemma pick_best:
  assumes l: "get_left i < length xs" and val: "\<forall>x \<in> set (xs[i := v]). valid x"
    and c: "cache \<noteq> 0" "i = 0 \<Longrightarrow> cache_valid cmp (xs[i := v]) cache"
  shows "get_parent (pick cmp cache xs i) = i"
    and "j < length xs \<Longrightarrow> 0 < j \<Longrightarrow> get_parent j = i \<Longrightarrow> \<not> cmp (xs[i := v] ! pick cmp cache xs i) (xs[i := v] ! j)"
proof -
  let ?p = "pick cmp cache xs i"
  have v: "j < length xs \<Longrightarrow> j \<noteq> i \<Longrightarrow> valid (xs ! j)" for j
    using val nth_mem [of j "xs[i := v]"] by auto
  have "?p = get_left i \<or> ?p = get_right i"
    using c l by (auto simp: pick_def cache_valid_def get_left_def get_right_def)
  then show par: "get_parent ?p = i" by (auto simp: get_parent_def get_left_def get_right_def)
  assume j: "j < length xs" "0 < j" "get_parent j = i"
  have kids: "j = get_left i \<or> j = get_left i + 1" using j get_parent_iff [of j i] by (auto simp: get_left_def get_right_def)
  show "\<not> cmp (xs[i := v] ! ?p) (xs[i := v] ! j)"
  proof (cases "i = 0 \<and> cache < length xs")
    case True
    with c(2) j kids show ?thesis by (auto simp: pick_def cache_valid_def get_left_def)
  next
    case False
    with kids j l cmp_asym [OF v v, of j j] cmp_asym [OF v v, of "get_left i" "get_left i + 1"]
    show ?thesis by (auto simp: pick_def get_left_def)
  qed
qed

lemma downheap_loop_ordered:
  assumes "i < length xs" "ordered_below cmp (xs[i := v]) i" "\<forall>x \<in> set (xs[i := v]). valid x"
    and "cache \<noteq> 0" "i = 0 \<Longrightarrow> cache_valid cmp (xs[i := v]) cache"
    and "downheap_loop cmp cache v xs i pk = Some (ys, k, pk')"
  shows "k < length ys \<and> mset (ys[k := v]) = mset (xs[i := v]) \<and> heap_ordered cmp (ys[k := v]) \<and>
    (k = 0 \<longrightarrow> i = 0 \<and> (length xs \<le> 1 \<and> pk' = pk \<or> cache_valid cmp (ys[k := v]) pk'))"
  using assms
proof (induction "length xs - i" arbitrary: xs i pk rule: less_induct)
  case less
  note prems = less.prems
  let ?m = "pick cmp cache xs i" and ?ys = "xs[i := v]"
  note step = downheap_loop_pick [of cmp cache v xs i pk]
  show ?case
  proof (cases "get_left i < length xs")
    case False
    then have "ys = xs" "k = i" "pk' = pk" using prems(6) step by simp_all
    moreover have "\<not> get_parent j = i" if "j < length xs" "0 < j" for j
      using that False get_parent_iff [of j i] by (auto simp: get_left_def get_right_def)
    moreover have "i = 0 \<Longrightarrow> length xs \<le> 1" using False by (auto simp: get_left_def)
    ultimately show ?thesis using prems by (auto simp: heap_ordered_def ordered_below_def)
  next
    case True
    note par = pick_best(1) [OF True prems(3-5)]
    have best: "\<not> cmp (?ys ! ?m) (?ys ! j)" if "j < length xs" "0 < j" "get_parent j = i" for j
      by (rule pick_best(2) [OF True prems(3,4)]) (use prems(5) that in auto)
    have im: "i < ?m" "?m < length xs" using pick_below [OF prems(4)] pick_in [OF True] by simp_all
    have vm: "valid (?ys ! ?m)" "valid v" and vj: "\<And>j. j < length xs \<Longrightarrow> valid (?ys ! j)"
      using prems(1,3) im nth_mem [of i ?ys] by (auto simp del: nth_list_update_neq)
    show ?thesis
    proof (cases "cmp v (xs ! ?m)")
      case False
      then have e: "ys = xs" "k = i" "pk' = ?m" using prems(6) step True by auto
      have "\<not> cmp v (?ys ! j)" if "j < length xs" "0 < j" "get_parent j = i" for j
        using ncmp_trans [OF vm(2,1) vj [OF that(1)]] best [OF that] False im by simp
      then have "\<not> cmp (?ys ! get_parent j) (?ys ! j)" if "j < length xs" "0 < j" for j
        using that prems(1,2) by (cases "get_parent j = i") (simp_all add: ordered_below_def)
      then have "heap_ordered cmp ?ys" by (simp add: heap_ordered_def)
      moreover have "i = 0 \<Longrightarrow> cache_valid cmp ?ys ?m"
        using im par best get_parent_root by (auto simp: cache_valid_def)
      ultimately show ?thesis using e prems(1) by simp
    next
      case lt: True
      have sw: "(xs[i := xs ! ?m])[?m := v] = (?ys[i := ?ys ! ?m])[?m := ?ys ! i]"
        using im by simp
      have ms: "mset ((xs[i := xs ! ?m])[?m := v]) = mset ?ys"
        unfolding sw using im by (intro mset_swap_at) simp_all
      have "downheap_loop cmp cache v (xs[i := xs ! ?m]) ?m ?m = Some (ys, k, pk')"
        using prems(6) step True lt by simp
      moreover have "ordered_below cmp ((xs[i := xs ! ?m])[?m := v]) ?m"
        unfolding sw using prems im par best lt by (intro swap_down) auto
      moreover have "\<forall>x \<in> set ((xs[i := xs ! ?m])[?m := v]). valid x"
        using prems(3) mset_eq_setD [OF ms] by simp
      ultimately show ?thesis
        using less.hyps [of "xs[i := xs ! ?m]" ?m ?m] prems(4) im ms by (simp add: diff_less_mono2)
    qed
  qed
qed

lemma push_correct:
  assumes "heap_inv cmp valid h" "valid x" "heap_size h < npos"
  shows "heap_inv cmp valid (push cmp h x) \<and> mset (heap_data (push cmp h x)) = add_mset x (mset (heap_data h))"
proof -
  let ?xs = "heap_data h @ [x]" and ?i = "length (heap_data h)"
  obtain ys k where l: "upheap_loop cmp x ?xs ?i = (ys, k)" by fastforce
  have up: "get_parent j < ?i" if "0 < j" "j < length ?xs" for j
    using that get_parent_less [of j] by simp
  have "\<not> cmp (?xs ! get_parent j) (?xs ! j)" if "j < ?i" "0 < j" for j
    using assms(1) up [of j] that by (simp add: heap_inv_def heap_ordered_def nth_append)
  moreover have "get_parent j \<noteq> ?i" if "0 < j" "j < length ?xs" for j using up [OF that] by simp
  ultimately have "ordered_above cmp (?xs[?i := x]) ?i"
    by (auto simp: ordered_above_def bridged_def less_Suc_eq)
  moreover have "\<forall>y \<in> set (?xs[?i := x]). valid y" using assms by (auto simp: heap_inv_def)
  ultimately have *: "k < length ys" "mset (ys[k := x]) = mset (?xs[?i := x])" "heap_ordered cmp (ys[k := x])"
    using upheap_loop_ordered [OF _ _ _ l] by simp_all
  have p: "push cmp h x = h\<lparr>heap_data := ys[k := x], root_cmp_cache := npos\<rparr>"
    using l by (simp add: push_def upheap_def Let_def reset_root_cmp_cache_def)
  have len: "length ys = ?i + 1" using arg_cong [OF *(2), of size] by simp
  have "set (ys[k := x]) = insert x (set (heap_data h))" using mset_eq_setD [OF *(2)] by simp
  then show ?thesis
    using assms * p len
    by (auto simp: heap_inv_def cache_valid_def heap_size_def npos_def)
qed

lemma downheap_root:
  assumes "xs \<noteq> []" "ordered_below cmp xs 0" "\<forall>x \<in> set xs. valid x" "cache_valid cmp xs c" "length xs \<le> npos"
    and h: "heap_data h = xs" "root_cmp_cache h = c"
  shows "\<exists>h'. downheap cmp h 0 = Some h' \<and> heap_inv cmp valid h' \<and> mset (heap_data h') = mset xs"
proof -
  let ?v = "xs ! 0"
  have c: "c \<noteq> 0" using assms(4) by (simp add: cache_valid_def)
  obtain ys k pk where l: "downheap_loop cmp c ?v xs 0 npos = Some (ys, k, pk)"
    using downheap_loop_returns [OF c, of cmp ?v xs 0 npos] by blast
  have *: "k < length ys" "mset (ys[k := ?v]) = mset xs" "heap_ordered cmp (ys[k := ?v])"
    "k = 0 \<Longrightarrow> length xs \<le> 1 \<and> pk = npos \<or> cache_valid cmp (ys[k := ?v]) pk"
    using downheap_loop_ordered [of 0 xs ?v c npos ys k pk] c l assms(1-4) unfolding list_update_id by blast+
  let ?h = "h\<lparr>heap_data := ys[k := ?v], root_cmp_cache := (if k = 0 then pk else npos)\<rparr>"
  have "downheap cmp h 0 = Some ?h"
    using l h by (simp add: downheap_def Let_def reset_root_cmp_cache_def)
  moreover have "length ys = length xs" using arg_cong [OF *(2), of size] by simp
  moreover have "set (ys[k := ?v]) = set xs" using mset_eq_setD [OF *(2)] .
  moreover have "cache_valid cmp (ys[k := ?v]) npos" using assms(5) calculation(2) by (simp add: cache_valid_def npos_def)
  ultimately show ?thesis using * assms by (auto simp: heap_inv_def)
qed

lemma heap_inv_below:
  assumes "\<forall>j < length xs. 0 < j \<longrightarrow> get_parent j \<noteq> 0 \<longrightarrow> \<not> cmp (xs ! get_parent j) (xs ! j)" "n \<le> length xs" "0 < n"
  shows "ordered_below cmp ((take n xs)[0 := x]) 0"
proof -
  have "get_parent j < n" if "0 < j" "j < n" for j using that get_parent_less [of j] by simp
  with assms show ?thesis by (auto simp: ordered_below_def bridged_def nth_list_update)
qed

lemma cache_valid_take:
  "cache_valid cmp xs c \<Longrightarrow> n \<le> length xs \<Longrightarrow> cache_valid cmp ((take n xs)[0 := x]) c"
  by (auto simp: cache_valid_def nth_list_update)

lemma replace_top_correct:
  assumes "heap_inv_tail cmp valid h" "valid x" "heap_data h \<noteq> []"
  shows "\<exists>h'. replace_top cmp h x = Some h' \<and> heap_inv cmp valid h' \<and>
    mset (heap_data h') = add_mset x (mset (heap_data h) - {#hd (heap_data h)#})"
proof -
  let ?xs = "heap_data h"
  have "\<forall>y \<in> set (?xs[0 := x]). valid y" using assms by (cases ?xs) (auto simp: heap_inv_tail_def)
  then obtain h' where h': "downheap cmp (h\<lparr>heap_data := ?xs[0 := x]\<rparr>) 0 = Some h'" "heap_inv cmp valid h'"
      "mset (heap_data h') = mset (?xs[0 := x])"
    using downheap_root [of "?xs[0 := x]" "root_cmp_cache h" "h\<lparr>heap_data := ?xs[0 := x]\<rparr>"] assms
      heap_inv_below [of ?xs "length ?xs" x] cache_valid_take [of ?xs _ "length ?xs" x]
    by (auto simp: heap_inv_tail_def)
  moreover have "mset (?xs[0 := x]) = add_mset x (mset ?xs - {#hd ?xs#})"
    using assms(3) by (cases ?xs) simp_all
  ultimately show ?thesis using assms(3) by (simp add: replace_top_def heap_empty_def get_root_def)
qed

lemma heap_pop_correct:
  assumes "heap_inv_tail cmp valid h" "heap_data h \<noteq> []"
  shows "\<exists>h'. heap_pop cmp h = Some h' \<and> heap_inv cmp valid h' \<and>
    mset (heap_data h') = mset (heap_data h) - {#hd (heap_data h)#}"
proof (cases "length (heap_data h) > 1")
  case False
  with assms obtain a where "heap_data h = [a]" by (cases "heap_data h") (auto simp: Suc_le_eq)
  then show ?thesis
    by (simp add: heap_pop_def heap_empty_def reset_root_cmp_cache_def heap_inv_def heap_ordered_def cache_valid_def npos_def)
next
  case True
  let ?xs = "heap_data h"
  let ?ys = "butlast (?xs[0 := last ?xs])"
  have e: "?ys = (take (length ?xs - 1) ?xs)[0 := last ?xs]"
    by (simp add: butlast_conv_take take_update_swap)
  obtain a zs b where xs: "?xs = a # zs @ [b]"
    using True by (cases ?xs; cases "tl ?xs" rule: rev_cases) auto
  have "\<forall>y \<in> set ?ys. valid y" using assms(1) xs by (auto simp: heap_inv_tail_def)
  moreover have "ordered_below cmp ?ys 0"
    unfolding e using assms(1) True by (intro heap_inv_below) (auto simp: heap_inv_tail_def)
  moreover have "cache_valid cmp ?ys (root_cmp_cache h)"
    unfolding e using assms(1) True by (intro cache_valid_take) (auto simp: heap_inv_tail_def)
  moreover have "?ys \<noteq> []" "length ?ys \<le> npos" using True assms(1) by (auto simp: xs heap_inv_tail_def)
  ultimately obtain h' where h': "downheap cmp (h\<lparr>heap_data := ?ys\<rparr>) 0 = Some h'" "heap_inv cmp valid h'"
      "mset (heap_data h') = mset ?ys"
    using downheap_root [of ?ys "root_cmp_cache h" "h\<lparr>heap_data := ?ys\<rparr>"] by auto
  moreover have "mset ?ys = mset ?xs - {#hd ?xs#}" by (simp add: xs)
  ultimately show ?thesis using True by (simp add: heap_pop_def heap_empty_def get_root_def Let_def xs)
qed

lemma top_greatest:
  assumes "heap_inv cmp valid h" "x \<in> set (heap_data h)"
  shows "\<not> cmp (hd (heap_data h)) x"
proof -
  let ?xs = "heap_data h"
  have v: "j < length ?xs \<Longrightarrow> valid (?xs ! j)" for j using assms by (simp add: heap_inv_def)
  have "j < length ?xs \<Longrightarrow> \<not> cmp (?xs ! 0) (?xs ! j)" for j
  proof (induction j rule: less_induct)
    case (less j)
    show ?case
    proof (cases "j = 0")
      case True
      with less.prems show ?thesis using cmp_asym [OF v v, of 0 0] by auto
    next
      case False
      then have "get_parent j < j" by (simp add: get_parent_less)
      with less False have "\<not> cmp (?xs ! 0) (?xs ! get_parent j)" "\<not> cmp (?xs ! get_parent j) (?xs ! j)"
        using assms(1) by (auto simp: heap_inv_def heap_ordered_def)
      moreover have "0 < length ?xs" "get_parent j < length ?xs"
        using less.prems \<open>get_parent j < j\<close> by linarith+
      ultimately show ?thesis using ncmp_trans [OF v v v, of 0 "get_parent j" j] less.prems by blast
    qed
  qed
  with assms(2) show ?thesis by (metis hd_conv_nth in_set_conv_nth length_pos_if_in_set length_greater_0_conv)
qed

end

section \<open>What a merging client relies on\<close>

text \<open>Popping until nothing is left, with at most \<open>n\<close> pops.\<close>

fun drain :: "('h \<Rightarrow> 'a option) \<Rightarrow> ('h \<Rightarrow> 'h option) \<Rightarrow> nat \<Rightarrow> 'h \<Rightarrow> 'a list option" where
  "drain peek pop n h =
     (case peek h of None \<Rightarrow> Some []
      | Some x \<Rightarrow> (case n of 0 \<Rightarrow> None
          | Suc m \<Rightarrow> (case pop h of None \<Rightarrow> None | Some h' \<Rightarrow> map_option ((#) x) (drain peek pop m h'))))"

declare drain.simps [simp del]

locale priority_queue =
  fixes before :: "'a \<Rightarrow> 'a \<Rightarrow> bool" and ok :: "'h \<Rightarrow> bool" and bag :: "'h \<Rightarrow> 'a multiset"
    and peek :: "'h \<Rightarrow> 'a option" and pop :: "'h \<Rightarrow> 'h option"
  assumes top_empty: "ok h \<Longrightarrow> bag h = {#} \<Longrightarrow> peek h = None"
    and top_first: "ok h \<Longrightarrow> bag h \<noteq> {#} \<Longrightarrow> \<exists>x. peek h = Some x \<and> x \<in># bag h \<and> (\<forall>y \<in># bag h. \<not> before y x)"
    and pop_top: "ok h \<Longrightarrow> peek h = Some x \<Longrightarrow> \<exists>h'. pop h = Some h' \<and> ok h' \<and> bag h' = bag h - {#x#}"
begin

lemma drain_sorts:
  assumes "ok h" "size (bag h) \<le> n"
  shows "\<exists>xs. drain peek pop n h = Some xs \<and> mset xs = bag h \<and> sorted_wrt (\<lambda>x y. \<not> before y x) xs"
  using assms
proof (induction n arbitrary: h)
  case 0
  then show ?case by (simp add: drain.simps [of _ _ 0] top_empty)
next
  case (Suc n)
  show ?case
  proof (cases "bag h = {#}")
    case True
    with Suc.prems show ?thesis by (simp add: drain.simps [of _ _ "Suc n"] top_empty)
  next
    case False
    obtain x where x: "peek h = Some x" "x \<in># bag h" "\<forall>y \<in># bag h. \<not> before y x"
      using top_first [OF Suc.prems(1) False] by blast
    obtain h' where h': "pop h = Some h'" "ok h'" "bag h' = bag h - {#x#}"
      using pop_top [OF Suc.prems(1) x(1)] by blast
    have "size (bag h') \<le> n" using h'(3) x(2) Suc.prems(2) by (simp add: size_Diff_singleton)
    with Suc.IH [OF h'(2)] obtain xs where xs: "drain peek pop n h' = Some xs" "mset xs = bag h'"
        "sorted_wrt (\<lambda>x y. \<not> before y x) xs" by blast
    have "mset (x # xs) = bag h" using xs(2) h'(3) x(2) by simp
    moreover have "set xs \<subseteq> set_mset (bag h)" using xs(2) h'(3) by (metis in_diffD set_mset_mset subsetI)
    ultimately show ?thesis
      using x h' xs by (auto simp: drain.simps [of _ _ "Suc n"])
  qed
qed

end

sublocale heap_order \<subseteq> queue: priority_queue "\<lambda>a b. cmp b a" "heap_inv cmp valid" "\<lambda>h. mset (heap_data h)"
    heap_top "heap_pop cmp"
proof
  fix h :: "'a BinaryHeap" and x
  assume inv: "heap_inv cmp valid h"
  show "mset (heap_data h) = {#} \<Longrightarrow> heap_top h = None" by (simp add: heap_top_def)
  show "\<exists>x. heap_top h = Some x \<and> x \<in># mset (heap_data h) \<and> (\<forall>y \<in># mset (heap_data h). \<not> cmp x y)"
    if "mset (heap_data h) \<noteq> {#}"
    using that top_greatest [OF inv] by (cases "heap_data h") (auto simp: heap_top_def)
  show "\<exists>h'. heap_pop cmp h = Some h' \<and> heap_inv cmp valid h' \<and> mset (heap_data h') = mset (heap_data h) - {#x#}"
    if "heap_top h = Some x"
    using that heap_pop_correct [OF heap_inv_tail [OF inv]] by (cases "heap_data h") (auto simp: heap_top_def)
qed

context comparator
begin

lemma max_heap_order: "heap_order (MaxIteratorComparator Compare key) (\<lambda>i. valid (key i))"
proof
  fix a b c
  assume v: "valid (key a)" "valid (key b)"
  show "MaxIteratorComparator Compare key a b \<Longrightarrow> \<not> MaxIteratorComparator Compare key b a"
    using Compare_swap(1) [OF v] by (simp add: MaxIteratorComparator_def)
  assume "valid (key c)" "\<not> MaxIteratorComparator Compare key a b" "\<not> MaxIteratorComparator Compare key b c"
  then show "\<not> MaxIteratorComparator Compare key a c"
    using v Compare_trans [of "key c" "key b" "key a"] Compare_swap(3) by (simp add: MaxIteratorComparator_def not_less)
qed

lemma min_heap_order: "heap_order (MinIteratorComparator Compare key) (\<lambda>i. valid (key i))"
proof
  fix a b c
  assume v: "valid (key a)" "valid (key b)"
  show "MinIteratorComparator Compare key a b \<Longrightarrow> \<not> MinIteratorComparator Compare key b a"
    using Compare_swap(1) [OF v(2,1)] by (simp add: MinIteratorComparator_def)
  assume "valid (key c)" "\<not> MinIteratorComparator Compare key a b" "\<not> MinIteratorComparator Compare key b c"
  then show "\<not> MinIteratorComparator Compare key a c"
    using v Compare_trans [of "key a" "key b" "key c"] by (simp add: MinIteratorComparator_def not_less)
qed

end

interpretation min_heap: heap_order "MinIteratorComparator (InternalKey_Compare Bytewise_Compare) key"
    "\<lambda>i. 8 \<le> length (key i)" for key :: "'i \<Rightarrow> slice"
  using bytewise_internal.min_heap_order [of key] by simp

interpretation max_heap: heap_order "MaxIteratorComparator (InternalKey_Compare Bytewise_Compare) key"
    "\<lambda>i. 8 \<le> length (key i)" for key :: "'i \<Rightarrow> slice"
  using bytewise_internal.max_heap_order [of key] by simp

section \<open>Properties\<close>

datatype 'a heap_call = Push 'a | Pop | Replace_top 'a | Clear

fun do_call :: "('a \<Rightarrow> 'a \<Rightarrow> bool) \<Rightarrow> 'a heap_call \<Rightarrow> 'a BinaryHeap \<Rightarrow> 'a BinaryHeap option" where
  "do_call cmp (Push x) h = Some (push cmp h x)"
| "do_call cmp Pop h = heap_pop cmp h"
| "do_call cmp (Replace_top x) h = replace_top cmp h x"
| "do_call cmp Clear h = Some (heap_clear h)"

text \<open>The calls the class permits: no \<^verbatim>\<open>pop\<close> or \<^verbatim>\<open>replace_top\<close> when empty, and a size that fits \<^verbatim>\<open>size_t\<close>.\<close>

fun call_permitted :: "('a \<Rightarrow> bool) \<Rightarrow> nat \<Rightarrow> 'a heap_call \<Rightarrow> bool" where
  "call_permitted valid n (Push x) \<longleftrightarrow> valid x \<and> n < npos"
| "call_permitted valid n Pop \<longleftrightarrow> 0 < n"
| "call_permitted valid n (Replace_top x) \<longleftrightarrow> valid x \<and> 0 < n"
| "call_permitted valid n Clear \<longleftrightarrow> True"

fun call_size :: "nat \<Rightarrow> 'a heap_call \<Rightarrow> nat" where
  "call_size n (Push x) = n + 1"
| "call_size n Pop = n - 1"
| "call_size n (Replace_top x) = n"
| "call_size n Clear = 0"

text \<open>The specification: a bag of elements, and the top as any element that no other exceeds.\<close>

definition bag_top :: "('a \<Rightarrow> 'a \<Rightarrow> bool) \<Rightarrow> 'a multiset \<Rightarrow> 'a \<Rightarrow> bool" where
  "bag_top cmp M t \<longleftrightarrow> t \<in># M \<and> (\<forall>x \<in># M. \<not> cmp t x)"

definition without :: "'a option \<Rightarrow> 'a multiset \<Rightarrow> 'a multiset" where
  "without t M = (case t of None \<Rightarrow> M | Some x \<Rightarrow> M - {#x#})"

fun bag_call :: "'a heap_call \<Rightarrow> 'a option \<Rightarrow> 'a multiset \<Rightarrow> 'a multiset" where
  "bag_call (Push x) t M = add_mset x M"
| "bag_call Pop t M = without t M"
| "bag_call (Replace_top x) t M = add_mset x (without t M)"
| "bag_call Clear t M = {#}"

inductive heap_reach :: "('a \<Rightarrow> 'a \<Rightarrow> bool) \<Rightarrow> ('a \<Rightarrow> bool) \<Rightarrow> 'a BinaryHeap \<Rightarrow> bool"
  for cmp valid where
  reach_init: "heap_reach cmp valid BinaryHeap_init"
| reach_call: "heap_reach cmp valid h \<Longrightarrow> call_permitted valid (heap_size h) c \<Longrightarrow> do_call cmp c h = Some h' \<Longrightarrow>
    heap_reach cmp valid h'"

context heap_order
begin

lemma do_call_correct:
  assumes "heap_inv cmp valid h" "call_permitted valid (heap_size h) c"
  shows "\<exists>h'. do_call cmp c h = Some h' \<and> heap_inv cmp valid h' \<and>
    mset (heap_data h') = bag_call c (heap_top h) (mset (heap_data h))"
proof (cases c)
  case Clear
  then show ?thesis
    by (simp add: heap_clear_def reset_root_cmp_cache_def heap_inv_def heap_ordered_def cache_valid_def npos_def)
next
  case (Push x)
  then show ?thesis using assms push_correct [of h x] by simp
next
  case Pop
  then show ?thesis using assms heap_pop_correct [OF heap_inv_tail [OF assms(1)]]
    by (auto simp: heap_size_def heap_top_def without_def split: list.split)
next
  case (Replace_top x)
  then show ?thesis using assms replace_top_correct [OF heap_inv_tail [OF assms(1)], of x]
    by (auto simp: heap_size_def heap_top_def without_def split: list.split)
qed

lemma heap_drain_sorts:
  assumes "heap_inv cmp valid h"
  shows "\<exists>xs. drain heap_top (heap_pop cmp) (heap_size h) h = Some xs \<and> mset xs = mset (heap_data h) \<and>
    sorted_wrt (\<lambda>a b. \<not> cmp a b) xs"
  using queue.drain_sorts [OF assms] by (simp add: heap_size_def)

lemma heap_reach_inv: "heap_reach cmp valid h \<Longrightarrow> heap_inv cmp valid h"
proof (induction rule: heap_reach.induct)
  case reach_init
  then show ?case by (simp add: BinaryHeap_init_def heap_inv_def heap_ordered_def cache_valid_def npos_def)
next
  case (reach_call h c h')
  then show ?case using do_call_correct [of h c] by auto
qed

end

fun run_calls :: "(('a \<Rightarrow> 'a \<Rightarrow> bool) \<times> 'a heap_call) list \<Rightarrow> 'a BinaryHeap \<Rightarrow> 'a BinaryHeap option" where
  "run_calls [] h = Some h"
| "run_calls ((cmp, c) # calls) h = (case do_call cmp c h of None \<Rightarrow> None | Some h' \<Rightarrow> run_calls calls h')"

fun calls_permitted :: "nat \<Rightarrow> (('a \<Rightarrow> 'a \<Rightarrow> bool) \<times> 'a heap_call) list \<Rightarrow> bool" where
  "calls_permitted n [] \<longleftrightarrow> True"
| "calls_permitted n ((cmp, c) # calls) \<longleftrightarrow> call_permitted (\<lambda>_. True) n c \<and> calls_permitted (call_size n c) calls"

lemma upheap_loop_length: "upheap_loop cmp v xs i = (ys, k) \<Longrightarrow> length ys = length xs"
proof (induction cmp v xs i arbitrary: ys k rule: upheap_loop.induct)
  case (1 cmp v xs i)
  from "1.prems" "1.IH" [OF _ refl] show ?case
    unfolding upheap_loop.simps [of cmp v xs i] by (auto simp: Let_def split: if_splits)
qed

lemma do_call_returns:
  assumes "root_cmp_cache h \<noteq> 0" "call_permitted (\<lambda>_. True) (heap_size h) c"
  shows "\<exists>h'. do_call cmp c h = Some h' \<and> root_cmp_cache h' \<noteq> 0 \<and> heap_size h' = call_size (heap_size h) c"
proof (cases c)
  case (Push x)
  then show ?thesis
    using upheap_loop_length [of cmp x "heap_data h @ [x]" "length (heap_data h)"]
    by (auto simp: push_def upheap_def reset_root_cmp_cache_def heap_size_def Let_def npos_def split: prod.split)
next
  case Pop
  let ?xs = "heap_data h"
  let ?h = "h\<lparr>heap_data := butlast (if length ?xs > 1 then ?xs[0 := last ?xs] else ?xs)\<rparr>"
  have "?xs \<noteq> []" "heap_size ?h = heap_size h - 1" "heap_data ?h = [] \<longleftrightarrow> length ?xs = 1" using Pop assms(2)
    by (auto simp: heap_size_def butlast_conv_take not_less le_Suc_eq)
  then show ?thesis
    using downheap_returns [of ?h cmp 0] assms(1) Pop
    by (auto simp: heap_pop_def heap_empty_def get_root_def reset_root_cmp_cache_def npos_def heap_size_def Let_def)
next
  case (Replace_top x)
  then show ?thesis
    using downheap_returns [of "h\<lparr>heap_data := (heap_data h)[0 := x]\<rparr>" cmp 0] assms
    by (auto simp: replace_top_def heap_empty_def get_root_def heap_size_def)
next
  case Clear
  then show ?thesis by (simp add: heap_clear_def reset_root_cmp_cache_def heap_size_def npos_def)
qed

lemma run_calls_return:
  assumes "root_cmp_cache h \<noteq> 0" "calls_permitted (heap_size h) calls"
  shows "\<exists>h'. run_calls calls h = Some h' \<and> heap_size h' = fold (\<lambda>(cmp, c) n. call_size n c) calls (heap_size h)"
  using assms
proof (induction calls arbitrary: h)
  case (Cons a calls)
  obtain cmp c where "a = (cmp, c)" by fastforce
  with Cons.prems do_call_returns [of h c cmp] obtain h' where
    "do_call cmp c h = Some h'" "root_cmp_cache h' \<noteq> 0" "heap_size h' = call_size (heap_size h) c" "a = (cmp, c)"
    by auto
  with Cons.IH [of h'] Cons.prems show ?case by auto
qed simp

text \<open>
  C28. A heap reached by any permitted calls is a bag with a greatest element on top: every permitted call
  returns and acts on the bag as its name says (\<^verbatim>\<open>pop\<close> and \<^verbatim>\<open>replace_top\<close> remove exactly the element that \<^verbatim>\<open>top\<close>
  shows), whatever the cached child of the root, and popping until empty yields the elements in order.
\<close>

theorem heap_refines_bag:
  assumes "heap_order cmp valid" "heap_reach cmp valid h"
  shows "(case heap_top h of None \<Rightarrow> mset (heap_data h) = {#} | Some t \<Rightarrow> bag_top cmp (mset (heap_data h)) t) \<and>
    (\<forall>c. call_permitted valid (heap_size h) c \<longrightarrow> (\<exists>h'. do_call cmp c h = Some h' \<and>
       mset (heap_data h') = bag_call c (heap_top h) (mset (heap_data h)))) \<and>
    (\<exists>xs. drain heap_top (heap_pop cmp) (heap_size h) h = Some xs \<and> mset xs = mset (heap_data h) \<and>
       sorted_wrt (\<lambda>a b. \<not> cmp a b) xs)"
proof -
  note inv = heap_order.heap_reach_inv [OF assms]
  have "case heap_top h of None \<Rightarrow> mset (heap_data h) = {#} | Some t \<Rightarrow> bag_top cmp (mset (heap_data h)) t"
    using heap_order.top_greatest [OF assms(1) inv]
    by (auto simp: heap_top_def bag_top_def split: list.split)
  with heap_order.do_call_correct [OF assms(1) inv] heap_order.heap_drain_sorts [OF assms(1) inv] show ?thesis
    by blast
qed

theorem heap_refines_bag_witness:
  "let cmp = MinIteratorComparator (InternalKey_Compare Bytewise_Compare) id;
       h = push cmp (push cmp BinaryHeap_init (replicate 8 2)) (replicate 9 1)
   in \<exists>xs. drain heap_top (heap_pop cmp) (heap_size h) h = Some xs \<and>
        mset xs = {#replicate 9 1, replicate 8 2#} \<and> sorted_wrt (\<lambda>a b. \<not> cmp a b) xs"
proof -
  let ?cmp = "MinIteratorComparator (InternalKey_Compare Bytewise_Compare) id" and ?ok = "\<lambda>i :: slice. 8 \<le> length (id i)"
  let ?a = "replicate 8 2" and ?b = "replicate 9 1"
  let ?h1 = "push ?cmp BinaryHeap_init ?a"
  have r1: "heap_reach ?cmp ?ok ?h1"
    by (rule reach_call [OF reach_init, where c = "Push ?a"]) (simp_all add: BinaryHeap_init_def heap_size_def npos_def)
  have h1: "heap_data ?h1 = [?a]"
    by (simp add: push_def upheap_def BinaryHeap_init_def reset_root_cmp_cache_def upheap_loop.simps get_root_def)
  have r2: "heap_reach ?cmp ?ok (push ?cmp ?h1 ?b)"
    by (rule reach_call [OF r1, where c = "Push ?b"]) (simp_all add: heap_size_def h1 npos_def)
  have "mset (heap_data (push ?cmp ?h1 ?b)) = {#?b, ?a#}"
    using min_heap.push_correct [OF min_heap.heap_reach_inv [OF r1], of ?b] by (simp add: heap_size_def h1 npos_def)
  with heap_refines_bag [OF min_heap.heap_order_axioms r2] show ?thesis unfolding Let_def by simp
qed

text \<open>
  C29. No operation of the heap can hang: whatever the comparisons answer, and even if they answer differently
  from call to call, every sequence of permitted calls returns. The cached child is never the root, for
  which the loop of \<^verbatim>\<open>downheap\<close> would not end.
\<close>

theorem heap_calls_return:
  assumes "calls_permitted 0 calls"
  shows "\<exists>h. run_calls calls BinaryHeap_init = Some h \<and> heap_size h = fold (\<lambda>(cmp, c) n. call_size n c) calls 0"
  using run_calls_return [of BinaryHeap_init calls] assms
  by (simp add: BinaryHeap_init_def heap_size_def npos_def)

theorem heap_calls_return_witness:
  "calls_permitted 0 [(\<lambda>a b. True, Push 1), (\<lambda>a b. a < b, Push (2 :: nat)), (\<lambda>a b. False, Pop)] \<and>
   (\<exists>h. run_calls [(\<lambda>a b. True, Push 1), (\<lambda>a b. a < b, Push (2 :: nat)), (\<lambda>a b. False, Pop)] BinaryHeap_init = Some h \<and>
     heap_size h = 1)"
  using heap_calls_return [of "[(\<lambda>a b. True, Push 1), (\<lambda>a b. a < b, Push (2 :: nat)), (\<lambda>a b. False, Pop)]"]
  by (simp add: npos_def)

end
