(* ===== verification/Unique_Id.thy ===== *)
theory Unique_Id
  imports Coding
begin

unbundle bit_operations_syntax

text \<open>
  Identities of table files: the bijective 128-bit hash of \<^verbatim>\<open>src/hash.rs\<close>, session ids and internal unique
  ids of \<^verbatim>\<open>src/unique_id.rs\<close> over \<^verbatim>\<open>src/string_util.rs\<close>, the conversion to external ids of
  \<^verbatim>\<open>table/unique_id.cc\<close>, and the cache keys derived from them in \<^verbatim>\<open>cache/cache_key.h\<close> and \<^verbatim>\<open>cache/cache_key.cc\<close>
  with the bit transformations of \<^verbatim>\<open>util/math.h\<close>. A unique id is its list of two or three words; a Rust
  \<^verbatim>\<open>&str\<close> is its UTF-8 bytes, and slicing it inside a character is a panic (\<^const>\<open>None\<close>). The 128-bit XXH3
  hash comes from another crate and is a parameter.
\<close>

section \<open>Bijective hash\<close>

definition multiply_64_to_128 :: "u64 \<Rightarrow> u64 \<Rightarrow> 128 word" where
  "multiply_64_to_128 a b = ucast a * ucast b"

definition lower_64_of_128 :: "128 word \<Rightarrow> u64" where
  "lower_64_of_128 v = ucast v"

definition upper_64_of_128 :: "128 word \<Rightarrow> u64" where
  "upper_64_of_128 v = ucast (drop_bit 64 v)"

definition lower_32_of_64 :: "u64 \<Rightarrow> u32" where
  "lower_32_of_64 v = ucast v"

definition swap_bytes :: "u64 \<Rightarrow> u64" where
  "swap_bytes v = le_word (rev (le_bytes 8 v))"

definition xxh3_avalanche :: "u64 \<Rightarrow> u64" where
  "xxh3_avalanche h =
     (let h = h XOR drop_bit 37 h;
          h = h * 0x165667919E3779F9;
          h = h XOR drop_bit 32 h
      in h)"

definition xxh3_unavalanche :: "u64 \<Rightarrow> u64" where
  "xxh3_unavalanche h =
     (let h = h XOR drop_bit 32 h;
          h = h * 0x8da8ee41d6df849;
          h = h XOR drop_bit 37 h
      in h)"

definition bijective_hash2x64_with_seed :: "u64 \<Rightarrow> u64 \<Rightarrow> u64 \<Rightarrow> u64 \<times> u64" where
  "bijective_hash2x64_with_seed high low seed =
     (let bitflipl = 0x59973f0033362349 - seed;
          bitfliph = 0xc202797692d63d58 + seed;
          tmp128 = multiply_64_to_128 (low XOR high XOR bitflipl) 0x9E3779B185EBCA87;
          lo = lower_64_of_128 tmp128;
          hi = upper_64_of_128 tmp128;
          lo = lo + 0x3c0000000000000;
          high = high XOR bitfliph;
          hi = hi + high + ucast (lower_32_of_64 high) * 0x85EBCA76;
          lo = lo XOR swap_bytes hi;
          tmp128 = multiply_64_to_128 lo 0xC2B2AE3D27D4EB4F;
          lo = lower_64_of_128 tmp128;
          hi = upper_64_of_128 tmp128 + hi * 0xC2B2AE3D27D4EB4F;
          low_res = xxh3_avalanche lo;
          high_res = xxh3_avalanche hi
      in (high_res, low_res))"

definition bijective_hash2x64 :: "u64 \<Rightarrow> u64 \<Rightarrow> u64 \<times> u64" where
  "bijective_hash2x64 high low = bijective_hash2x64_with_seed high low 0"

definition bijective_unhash2x64_with_seed :: "u64 \<Rightarrow> u64 \<Rightarrow> u64 \<Rightarrow> u64 \<times> u64" where
  "bijective_unhash2x64_with_seed high low seed =
     (let bitflipl = 0x59973f0033362349 - seed;
          bitfliph = 0xc202797692d63d58 + seed;
          lo = xxh3_unavalanche low;
          hi = xxh3_unavalanche high;
          lo = lo * 0xba79078168d4baf;
          hi = hi - upper_64_of_128 (multiply_64_to_128 lo 0xC2B2AE3D27D4EB4F);
          hi = hi * 0xba79078168d4baf;
          lo = lo XOR swap_bytes hi;
          lo = lo - 0x3c0000000000000;
          lo = lo * 0x887493432badb37;
          hi = hi - upper_64_of_128 (multiply_64_to_128 lo 0x9E3779B185EBCA87);
          tmp32 = lower_32_of_64 hi * 0xb6c92f47;
          hi = hi - ucast tmp32;
          hi = (hi AND 0xFFFFFFFF00000000) - ((ucast tmp32 * 0x85EBCA76) AND 0xFFFFFFFF00000000) + ucast tmp32;
          hi = hi XOR bitfliph;
          lo = lo XOR hi XOR bitflipl
      in (hi, lo))"

definition bijective_unhash2x64 :: "u64 \<Rightarrow> u64 \<Rightarrow> u64 \<times> u64" where
  "bijective_unhash2x64 high low = bijective_unhash2x64_with_seed high low 0"

section \<open>Session ids\<close>

definition LOWERCASE_DIGITS :: slice where
  "LOWERCASE_DIGITS = map of_nat ([48..<58] @ [97..<123])"

definition UPPERCASE_DIGITS :: slice where
  "UPPERCASE_DIGITS = map of_nat ([48..<58] @ [65..<91])"

primrec base_stack :: "slice \<Rightarrow> nat \<Rightarrow> u64 \<Rightarrow> slice" where
  "base_stack digits 0 v = []"
| "base_stack digits (Suc n) v =
     digits ! unat (v mod of_nat (length digits)) # base_stack digits n (v div of_nat (length digits))"

definition put_base_chars :: "slice \<Rightarrow> nat \<Rightarrow> u64 \<Rightarrow> bool \<Rightarrow> slice" where
  "put_base_chars s n v uppercase =
     (let digits = (if uppercase then UPPERCASE_DIGITS else LOWERCASE_DIGITS)
      in s @ rev (base_stack digits n v))"

text \<open>The value on \<^verbatim>\<open>true\<close>, \<^const>\<open>None\<close> on \<^verbatim>\<open>false\<close>. A character outside ASCII is rejected at its first byte. The
  last alternative of the first test reads \<open>c < 48\<close> in the source, whatever the base.\<close>

fun parse_base_chars :: "slice \<Rightarrow> u64 \<Rightarrow> u64 \<Rightarrow> u64 option" where
  "parse_base_chars [] base v = Some v"
| "parse_base_chars (c # s) base v =
     (let v = v * base in
      if 48 \<le> c \<and> (10 \<le> base \<and> c \<le> 57 \<or> base < 10 \<and> c < 48) then
        parse_base_chars s base (v + (ucast c - 48))
      else if 10 < base \<and> 65 \<le> c \<and> c < 65 + ucast base - 10 then
        parse_base_chars s base (v + (ucast c - 65 + 10))
      else if 10 < base \<and> 97 \<le> c \<and> c < 97 + ucast base - 10 then
        parse_base_chars s base (v + (ucast c - 97 + 10))
      else None)"

definition encode_session_id :: "u64 \<Rightarrow> u64 \<Rightarrow> slice" where
  "encode_session_id upper lower =
     (let a = push_bit 2 upper OR drop_bit 62 lower;
          b = lower AND drop_bit 2 (- 1);
          db_session_id = put_base_chars [] 8 a True;
          db_session_id = put_base_chars db_session_id 12 b True
      in db_session_id)"

text \<open>Indexing a \<^verbatim>\<open>&str\<close> at \<open>i\<close> panics unless a character begins there.\<close>

definition is_char_boundary :: "slice \<Rightarrow> nat \<Rightarrow> bool" where
  "is_char_boundary s i \<longleftrightarrow> i = length s \<or> (i < length s \<and> \<not> (128 \<le> s ! i \<and> s ! i < 192))"

definition decode_session_id :: "slice \<Rightarrow> (status + u64 \<times> u64) option" where
  "decode_session_id db_session_id =
     (let len = length db_session_id in
      if len = 0 then Some (Inl (Status_NotSupported ''Missing db_session_id''))
      else if len < 13 then Some (Inl (Status_NotSupported ''Too short db_session_id''))
      else if len > 24 then Some (Inl (Status_NotSupported ''Too long db_session_id''))
      else if \<not> is_char_boundary db_session_id (len - 12) then None
      else
        case parse_base_chars (take (len - 12) db_session_id) 36 0 of
          None \<Rightarrow> Some (Inl (Status_NotSupported ''Bad digit in db_session_id''))
        | Some a \<Rightarrow>
            (case parse_base_chars (drop (len - 12) db_session_id) 36 0 of
               None \<Rightarrow> Some (Inl (Status_NotSupported ''Bad digit in db_session_id''))
             | Some b \<Rightarrow> Some (Inr (drop_bit 2 a, (b AND drop_bit 2 (- 1)) OR push_bit 62 a))))"

section \<open>Unique ids\<close>

type_synonym unique_id = "u64 list"

definition UniqueId64x2_null :: unique_id where
  "UniqueId64x2_null = [0, 0]"

definition UniqueId64x3_null :: unique_id where
  "UniqueId64x3_null = [0, 0, 0]"

definition encode_bytes :: "unique_id \<Rightarrow> slice" where
  "encode_bytes data = concat (map EncodeFixed64 data)"

definition decode_bytes_x2 :: "slice \<Rightarrow> status + unique_id" where
  "decode_bytes_x2 unique_id =
     (if length unique_id \<noteq> 16 then Inl (Status_NotSupported ''Not a valid unique_id'')
      else Inr [DecodeFixed64 unique_id, DecodeFixed64 (drop 8 unique_id)])"

definition decode_bytes_x3 :: "slice \<Rightarrow> status + unique_id" where
  "decode_bytes_x3 unique_id =
     (if length unique_id \<noteq> 24 then Inl (Status_NotSupported ''Not a valid unique_id'')
      else Inr [DecodeFixed64 unique_id, DecodeFixed64 (drop 8 unique_id), DecodeFixed64 (drop 16 unique_id)])"

text \<open>\<open>xxh3_128\<close> and \<open>xxh3_128_with_seed\<close> stand for the functions of that name in the XXH3 crate.\<close>

record xxh3_ops =
  xxh3_128 :: "slice \<Rightarrow> 128 word"
  xxh3_128_with_seed :: "slice \<Rightarrow> u64 \<Rightarrow> 128 word"

definition hash2x64 :: "xxh3_ops \<Rightarrow> slice \<Rightarrow> u64 \<times> u64" where
  "hash2x64 ops key =
     (let h = xxh3_128 ops key in (ucast (drop_bit 64 h), ucast (h AND 0xffffffffffffffff)))"

definition hash2x64_with_seed :: "xxh3_ops \<Rightarrow> slice \<Rightarrow> u64 \<Rightarrow> u64 \<times> u64" where
  "hash2x64_with_seed ops key seed =
     (let h = xxh3_128_with_seed ops key seed in (ucast (drop_bit 64 h), ucast (h AND 0xffffffffffffffff)))"

definition get_sst_internal_unique_id_x3 ::
  "xxh3_ops \<Rightarrow> slice \<Rightarrow> slice \<Rightarrow> u64 \<Rightarrow> bool \<Rightarrow> (status + unique_id) option" where
  "get_sst_internal_unique_id_x3 ops db_id db_session_id file_number force =
     (if \<not> force \<and> db_id = [] then Some (Inl (Status_NotSupported ''Missing db_id''))
      else if \<not> force \<and> file_number = 0 then Some (Inl (Status_NotSupported ''Missing or bad file number''))
      else if \<not> force \<and> db_session_id = [] then Some (Inl (Status_NotSupported ''Missing db_session_id''))
      else
        case decode_session_id db_session_id of
          None \<Rightarrow> None
        | Some r \<Rightarrow>
            (case r of
               Inl s \<Rightarrow>
                 if \<not> force then Some (Inl s)
                 else
                   let (session_upper, session_lower) = hash2x64 ops db_session_id;
                       session_lower = (if session_lower = 0 then session_upper OR 1 else session_lower);
                       (db_a, db_b) = hash2x64_with_seed ops db_id session_upper
                   in Some (Inr [session_lower, db_a XOR file_number, db_b])
             | Inr (session_upper, session_lower) \<Rightarrow>
                 let (db_a, db_b) = hash2x64_with_seed ops db_id session_upper
                 in Some (Inr [session_lower, db_a XOR file_number, db_b])))"

definition get_sst_internal_unique_id_x2 ::
  "xxh3_ops \<Rightarrow> slice \<Rightarrow> slice \<Rightarrow> u64 \<Rightarrow> bool \<Rightarrow> (status + unique_id) option" where
  "get_sst_internal_unique_id_x2 ops db_id db_session_id file_number force =
     (case get_sst_internal_unique_id_x3 ops db_id db_session_id file_number force of
        None \<Rightarrow> None
      | Some (Inl s) \<Rightarrow> Some (Inl s)
      | Some (Inr x3) \<Rightarrow> Some (Inr (take 2 x3)))"

definition kHiOffsetForZero :: u64 where
  "kHiOffsetForZero = 17391078804906429400"

definition kLoOffsetForZero :: u64 where
  "kLoOffsetForZero = 6417269962128484497"

text \<open>\<open>extended\<close> is the flag of the pointer: three words.\<close>

definition InternalUniqueIdToExternal :: "bool \<Rightarrow> unique_id \<Rightarrow> unique_id" where
  "InternalUniqueIdToExternal extended ptr =
     (let (hi, lo) = bijective_hash2x64 (ptr ! 1 + kHiOffsetForZero) (ptr ! 0 + kLoOffsetForZero);
          ptr = ptr[0 := lo];
          ptr = ptr[1 := hi]
      in if extended then ptr[2 := ptr ! 2 + (lo + hi)] else ptr)"

definition ExternalUniqueIdToInternal :: "bool \<Rightarrow> unique_id \<Rightarrow> unique_id" where
  "ExternalUniqueIdToInternal extended ptr =
     (let lo = ptr ! 0;
          hi = ptr ! 1;
          ptr = (if extended then ptr[2 := ptr ! 2 - (lo + hi)] else ptr);
          (hi, lo) = bijective_unhash2x64 hi lo;
          ptr = ptr[0 := lo - kLoOffsetForZero];
          ptr = ptr[1 := hi - kHiOffsetForZero]
      in ptr)"

text \<open>The two instances of the template; on failure the output is cleared.\<close>

definition GetUniqueIdFromTableProperties ::
  "xxh3_ops \<Rightarrow> slice \<Rightarrow> slice \<Rightarrow> u64 \<Rightarrow> (status \<times> slice) option" where
  "GetUniqueIdFromTableProperties ops db_id db_session_id orig_file_number =
     (case get_sst_internal_unique_id_x2 ops db_id db_session_id orig_file_number False of
        None \<Rightarrow> None
      | Some (Inl s) \<Rightarrow> Some (s, [])
      | Some (Inr tmp) \<Rightarrow> Some (Status_OK, encode_bytes (InternalUniqueIdToExternal False tmp)))"

definition GetExtendedUniqueIdFromTableProperties ::
  "xxh3_ops \<Rightarrow> slice \<Rightarrow> slice \<Rightarrow> u64 \<Rightarrow> (status \<times> slice) option" where
  "GetExtendedUniqueIdFromTableProperties ops db_id db_session_id orig_file_number =
     (case get_sst_internal_unique_id_x3 ops db_id db_session_id orig_file_number False of
        None \<Rightarrow> None
      | Some (Inl s) \<Rightarrow> Some (s, [])
      | Some (Inr tmp) \<Rightarrow> Some (Status_OK, encode_bytes (InternalUniqueIdToExternal True tmp)))"

section \<open>Cache keys\<close>

text \<open>\<^verbatim>\<open>__builtin_bswap64\<close> is \<open>swap_bytes\<close>; the shifts and masks are those of the 64-bit instance.\<close>

definition ReverseBits :: "u64 \<Rightarrow> u64" where
  "ReverseBits v =
     (let r = swap_bytes v;
          kHighestByte = push_bit 56 1;
          kEveryByte = kHighestByte OR (kHighestByte div 255);
          r = push_bit 4 (r AND (kEveryByte * 0x0f)) OR (drop_bit 4 r AND (kEveryByte * 0x0f));
          r = push_bit 2 (r AND (kEveryByte * 0x33)) OR (drop_bit 2 r AND (kEveryByte * 0x33));
          r = push_bit 1 (r AND (kEveryByte * 0x55)) OR (drop_bit 1 r AND (kEveryByte * 0x55))
      in r)"

definition DownwardInvolution :: "u64 \<Rightarrow> u64" where
  "DownwardInvolution v =
     (let r = v;
          r = r XOR drop_bit 32 r;
          r = r XOR drop_bit 16 (r AND 0xffff0000ffff0000);
          r = r XOR drop_bit 8 (r AND 0xff00ff00ff00ff00);
          r = r XOR drop_bit 4 (r AND 0xf0f0f0f0f0f0f0f0);
          r = r XOR drop_bit 2 (r AND 0xcccccccccccccccc);
          r = r XOR drop_bit 1 (r AND 0xaaaaaaaaaaaaaaaa)
      in r)"

record CacheKey =
  file_num_etc64 :: u64
  offset_etc64 :: u64

definition CacheKey_IsEmpty :: "CacheKey \<Rightarrow> bool" where
  "CacheKey_IsEmpty k \<longleftrightarrow> file_num_etc64 k = 0 \<and> offset_etc64 k = 0"

text \<open>The in-memory bytes of the two words on a little-endian machine.\<close>

definition CacheKey_AsSlice :: "CacheKey \<Rightarrow> slice" where
  "CacheKey_AsSlice k = EncodeFixed64 (file_num_etc64 k) @ EncodeFixed64 (offset_etc64 k)"

text \<open>\<open>new_id\<close> is what \<^verbatim>\<open>Cache::NewId\<close> returned; \<open>counter\<close> the process-wide counter, returned decremented.\<close>

definition CreateUniqueForCacheLifetime :: "u64 \<Rightarrow> CacheKey" where
  "CreateUniqueForCacheLifetime new_id = \<lparr>file_num_etc64 = 0, offset_etc64 = new_id + 1\<rparr>"

definition CreateUniqueForProcessLifetime :: "u64 \<Rightarrow> CacheKey \<times> u64" where
  "CreateUniqueForProcessLifetime counter = (\<lparr>file_num_etc64 = 0, offset_etc64 = counter\<rparr>, counter - 1)"

definition FromInternalUniqueId :: "unique_id \<Rightarrow> CacheKey" where
  "FromInternalUniqueId ptr =
     (let session_lower = ptr ! 0;
          file_num_etc = ptr ! 1;
          session_lower = (if session_lower = 0 then file_num_etc else session_lower);
          rv = \<lparr>file_num_etc64 = DownwardInvolution session_lower XOR ReverseBits file_num_etc,
                offset_etc64 = ReverseBits session_lower\<rparr>
      in if file_num_etc64 rv = 0 then \<lparr>file_num_etc64 = offset_etc64 rv, offset_etc64 = file_num_etc64 rv\<rparr> else rv)"

definition ToInternalUniqueId :: "CacheKey \<Rightarrow> unique_id" where
  "ToInternalUniqueId k =
     (let a = file_num_etc64 k;
          b = offset_etc64 k;
          (a, b) = (if b = 0 then (b, a) else (a, b));
          rv0 = ReverseBits b;
          rv1 = ReverseBits (a XOR DownwardInvolution rv0)
      in [rv0, rv1])"

definition OffsetableCacheKey_init :: "xxh3_ops \<Rightarrow> slice \<Rightarrow> slice \<Rightarrow> u64 \<Rightarrow> CacheKey option" where
  "OffsetableCacheKey_init ops db_id db_session_id file_number =
     (case get_sst_internal_unique_id_x2 ops db_id db_session_id file_number True of
        None \<Rightarrow> None
      | Some (Inl s) \<Rightarrow> Some (FromInternalUniqueId UniqueId64x2_null)
      | Some (Inr internal_id) \<Rightarrow> Some (FromInternalUniqueId internal_id))"

definition OffsetableCacheKey_IsEmpty :: "CacheKey \<Rightarrow> bool" where
  "OffsetableCacheKey_IsEmpty k \<longleftrightarrow> file_num_etc64 k = 0"

definition WithOffset :: "CacheKey \<Rightarrow> u64 \<Rightarrow> CacheKey" where
  "WithOffset k offset = \<lparr>file_num_etc64 = file_num_etc64 k, offset_etc64 = offset_etc64 k XOR offset\<rparr>"

definition CommonPrefixSlice :: "CacheKey \<Rightarrow> slice" where
  "CommonPrefixSlice k = EncodeFixed64 (file_num_etc64 k)"

section \<open>The hash is invertible\<close>

lemma xor_shift_involution:
  "64 \<le> 2 * k \<Longrightarrow> (h XOR drop_bit k h) XOR drop_bit k (h XOR drop_bit k h) = (h :: u64)"
  by (rule bit_word_eqI) (auto simp: bit_simps)

lemma xor_shift_37: "(h XOR drop_bit 37 h) XOR drop_bit 37 (h XOR drop_bit 37 h) = (h :: u64)"
  and xor_shift_32: "(h XOR drop_bit 32 h) XOR drop_bit 32 (h XOR drop_bit 32 h) = (h :: u64)"
  by (rule xor_shift_involution, simp)+

lemma mult_inverse: "a * b = 1 \<Longrightarrow> x * a * b = (x :: 'a::len word)"
  by (simp add: mult.assoc)

text \<open>The odd multipliers have the stated inverses modulo \<open>2 ^ 64\<close> and \<open>2 ^ 32\<close>.\<close>

lemma multiplier_inverses:
  "x * 0x165667919E3779F9 * 0x8da8ee41d6df849 = (x :: u64)"
  "x * 0x9E3779B185EBCA87 * 0x887493432badb37 = x"
  "x * 0xC2B2AE3D27D4EB4F * 0xba79078168d4baf = x"
  "y * 0x85EBCA77 * 0xb6c92f47 = (y :: u32)"
  by (rule mult_inverse, code_simp)+

lemma xxh3_unavalanche: "xxh3_unavalanche (xxh3_avalanche h) = h"
  by (simp only: xxh3_avalanche_def xxh3_unavalanche_def Let_def xor_shift_37 xor_shift_32 multiplier_inverses)

lemma lower_multiply: "lower_64_of_128 (multiply_64_to_128 a b) = a * b"
  unfolding lower_64_of_128_def multiply_64_to_128_def
  by transfer (simp add: take_bit_mult)

lemma and_high_word: "x AND 0xFFFFFFFF00000000 = x - take_bit 32 (x :: u64)"
proof -
  have "(0xFFFFFFFF00000000 :: u64) = NOT (mask 32)" by code_simp
  moreover have "x - take_bit 32 x = x AND NOT (take_bit 32 x)"
    by (rule disjunctive_diff) (simp add: bit_take_bit_iff)
  moreover have "x AND NOT (take_bit 32 x) = x AND NOT (mask 32)"
    by (rule bit_word_eqI) (auto simp: bit_simps)
  ultimately show ?thesis by simp
qed

lemma take_bit_arith:
  fixes x y :: int
  assumes "m \<le> n"
  shows "take_bit m (take_bit n x + take_bit n y) = take_bit m (x + y)"
    and "take_bit m (take_bit n x * take_bit n y) = take_bit m (x * y)"
proof -
  have t: "take_bit m (take_bit n z) = take_bit m z" for z :: int using assms by simp
  show "take_bit m (take_bit n x + take_bit n y) = take_bit m (x + y)" by (metis t take_bit_add)
  show "take_bit m (take_bit n x * take_bit n y) = take_bit m (x * y)" by (metis t take_bit_mult)
qed

lemma take_bit_32_add: "take_bit 32 (a + b) = take_bit 32 b" if "take_bit 32 a = 0" for a b :: u64
proof -
  have "take_bit 32 (a + b) = take_bit 32 (take_bit 32 a + take_bit 32 b)"
    by transfer (simp add: take_bit_add)
  then show ?thesis by (simp add: that)
qed

lemma take_bit_32_sub: "take_bit 32 (x - take_bit 32 x) = (0 :: u64)"
  unfolding and_high_word [symmetric]
proof -
  have "(0xFFFFFFFF00000000 :: u64) = NOT (mask 32)" by code_simp
  then show "take_bit 32 (x AND 0xFFFFFFFF00000000) = 0"
    by (simp only: bit_eq_iff) (simp add: bit_simps)
qed

lemma ucast_up_down: "ucast (ucast (w :: u32) :: u64) = w"
  by (rule bit_word_eqI) (auto simp: bit_simps)

lemma lower_32_add: "lower_32_of_64 (a + b) = lower_32_of_64 a + lower_32_of_64 b"
  and lower_32_mult: "lower_32_of_64 (a * b) = lower_32_of_64 a * lower_32_of_64 b"
  unfolding lower_32_of_64_def by (transfer, simp add: take_bit_arith)+

text \<open>Recovering \<open>x\<close> from \<open>x + low32 x * c\<close>.\<close>

lemma unmix_low:
  fixes x :: u64
  assumes t: "t = lower_32_of_64 x" and y: "y = x + ucast t * 0x85EBCA76"
  shows "lower_32_of_64 y * 0xb6c92f47 = t"
    and "((y - ucast t) AND 0xFFFFFFFF00000000) - ((ucast t * 0x85EBCA76) AND 0xFFFFFFFF00000000) + ucast t = x"
proof -
  have "lower_32_of_64 y = t + t * 0x85EBCA76"
    unfolding y lower_32_add lower_32_mult
    by (simp add: t lower_32_of_64_def ucast_up_down)
  also have "\<dots> = t * 0x85EBCA77" by (simp add: algebra_simps)
  finally show "lower_32_of_64 y * 0xb6c92f47 = t" by (simp only: multiplier_inverses)
  have tx: "ucast t = take_bit 32 x"
    unfolding t lower_32_of_64_def by (rule bit_word_eqI) (auto simp: bit_simps)
  have "y - ucast t = (x - take_bit 32 x) + ucast t * 0x85EBCA76"
    unfolding y by (simp add: tx)
  then have "take_bit 32 (y - ucast t) = take_bit 32 (ucast t * 0x85EBCA76)"
    by (simp only: take_bit_32_add [OF take_bit_32_sub])
  then show "((y - ucast t) AND 0xFFFFFFFF00000000) - ((ucast t * 0x85EBCA76) AND 0xFFFFFFFF00000000) + ucast t = x"
    unfolding and_high_word by (simp add: y)
qed

lemma bijective_unhash_hash:
  assumes a: "bijective_hash2x64_with_seed high low seed = (h, l)"
  shows "bijective_unhash2x64_with_seed h l seed = (high, low)"
proof -
  define fl where "fl = 0x59973f0033362349 - seed"
  define fh where "fh = 0xc202797692d63d58 + seed"
  define p where "p = low XOR high XOR fl"
  define x where "x = high XOR fh"
  define t where "t = lower_32_of_64 x"
  define u where "u = upper_64_of_128 (multiply_64_to_128 p 0x9E3779B185EBCA87)"
  define y where "y = x + ucast t * 0x85EBCA76"
  define hi where "hi = u + y"
  define q where "q = (p * 0x9E3779B185EBCA87 + 0x3c0000000000000) XOR swap_bytes hi"
  define v where "v = upper_64_of_128 (multiply_64_to_128 q 0xC2B2AE3D27D4EB4F)"
  have "(h, l) = (xxh3_avalanche (v + hi * 0xC2B2AE3D27D4EB4F), xxh3_avalanche (q * 0xC2B2AE3D27D4EB4F))"
    unfolding a [symmetric] bijective_hash2x64_with_seed_def Let_def lower_multiply
      fl_def fh_def p_def x_def t_def u_def y_def hi_def q_def v_def add.assoc ..
  then have lo0: "xxh3_unavalanche l * 0xba79078168d4baf = q"
    and hi0: "(xxh3_unavalanche h - v) * 0xba79078168d4baf = hi"
    by (simp_all only: prod.inject xxh3_unavalanche multiplier_inverses add_diff_cancel_left')
  have lo1: "((q XOR swap_bytes hi) - 0x3c0000000000000) * 0x887493432badb37 = p"
    by (simp only: q_def xor.assoc xor_self_eq xor.right_neutral add_diff_cancel_right' multiplier_inverses)
  have hi1: "hi - u = y" by (simp only: hi_def add_diff_cancel_left')
  note unmix = unmix_low [OF t_def y_def]
  have "x XOR fh = high" "p XOR high XOR fl = low"
    by (simp_all add: x_def p_def xor.assoc xor.left_commute)
  with lo0 hi0 lo1 hi1 unmix show ?thesis
    unfolding bijective_unhash2x64_with_seed_def Let_def
    by (simp only: v_def [symmetric] u_def [symmetric] fl_def [symmetric] fh_def [symmetric])
qed

lemma inverse_sides:
  fixes f :: "'a::finite \<Rightarrow> 'a"
  assumes "\<And>x. g (f x) = x"
  shows "f (g y) = y"
proof -
  have "inj f" using assms by (rule inj_on_inverseI)
  then have "surj f" by (simp add: finite_UNIV_inj_surj)
  then obtain x where "y = f x" by blast
  with assms show ?thesis by simp
qed

lemma bijective_hash_unhash:
  assumes "bijective_unhash2x64_with_seed h l seed = (high, low)"
  shows "bijective_hash2x64_with_seed high low seed = (h, l)"
proof -
  let ?f = "\<lambda>(a, b). bijective_hash2x64_with_seed a b seed" and ?g = "\<lambda>(a, b). bijective_unhash2x64_with_seed a b seed"
  have "?g (?f x) = x" for x
    by (cases x; cases "?f x") (simp add: bijective_unhash_hash)
  then have "?f (?g (h, l)) = (h, l)" by (rule inverse_sides)
  with assms show ?thesis by simp
qed

section \<open>Session ids read back\<close>

definition digit_value :: "u64 \<Rightarrow> byte \<Rightarrow> u64 option" where
  "digit_value base c =
     (if 48 \<le> c \<and> (10 \<le> base \<and> c \<le> 57 \<or> base < 10 \<and> c < 48) then Some (ucast c - 48)
      else if 10 < base \<and> 65 \<le> c \<and> c < 65 + ucast base - 10 then Some (ucast c - 65 + 10)
      else if 10 < base \<and> 97 \<le> c \<and> c < 97 + ucast base - 10 then Some (ucast c - 97 + 10)
      else None)"

lemma parse_Cons:
  "parse_base_chars (c # s) base v =
     (case digit_value base c of None \<Rightarrow> None | Some d \<Rightarrow> parse_base_chars s base (v * base + d))"
  by (simp only: digit_value_def parse_base_chars.simps Let_def if_distrib [where f = "case_option _ _"] option.case)

declare parse_base_chars.simps(2) [simp del] parse_Cons [simp]

lemma parse_append:
  "parse_base_chars (s @ t) base v = (case parse_base_chars s base v of None \<Rightarrow> None | Some w \<Rightarrow> parse_base_chars t base w)"
  by (induction s arbitrary: v) (simp_all split: option.split)

lemma digit_value_table:
  assumes "d < 36"
  shows "digit_value 36 (UPPERCASE_DIGITS ! d) = Some (of_nat d) \<and> UPPERCASE_DIGITS ! d < 128"
proof -
  have "\<forall>d \<in> set [0..<36]. digit_value 36 (UPPERCASE_DIGITS ! d) = Some (of_nat d) \<and> UPPERCASE_DIGITS ! d < 128"
    by code_simp
  moreover have "d \<in> set [0..<36]" using assms by (simp only: set_upt atLeastLessThan_iff le0 simp_thms)
  ultimately show ?thesis by (rule bspec)
qed

lemma length_UPPERCASE_DIGITS [simp]: "length UPPERCASE_DIGITS = 36"
  by (simp add: UPPERCASE_DIGITS_def)

lemma length_base_stack [simp]: "length (base_stack ds n v) = n"
  by (induction n arbitrary: v) simp_all

lemma unat_mod_36: "unat (v mod 36 :: u64) = unat v mod 36" and unat_div_36: "unat (v div 36 :: u64) = unat v div 36"
  by (simp_all add: unat_mod unat_div)

lemma base_stack_ascii: "x \<in> set (base_stack UPPERCASE_DIGITS n v) \<Longrightarrow> x < 128"
  by (induction n arbitrary: v) (auto simp: digit_value_table unat_mod_36)

lemma parse_base_stack:
  "parse_base_chars (rev (base_stack UPPERCASE_DIGITS n v)) 36 acc = Some (acc * 36 ^ n + of_nat (unat v mod 36 ^ n))"
proof (induction n arbitrary: v acc)
  case (Suc n)
  have "unat v mod 36 ^ Suc n = 36 * (unat v div 36 mod 36 ^ n) + unat v mod 36"
    by (simp add: mod_mult2_eq)
  then have "of_nat (unat v mod 36 ^ Suc n) = (36 * of_nat (unat v div 36 mod 36 ^ n) + of_nat (unat v mod 36) :: u64)"
    by (simp only: of_nat_add of_nat_mult of_nat_numeral)
  then show ?case
    by (simp add: parse_append Suc.IH digit_value_table unat_mod_36 unat_div_36 algebra_simps)
qed simp

lemma decode_encode_session_id:
  "decode_session_id (encode_session_id upper lower) =
     Some (Inr (drop_bit 2 (of_nat (unat (push_bit 2 upper OR drop_bit 62 lower) mod 36 ^ 8)), lower))"
proof -
  define a where "a = push_bit 2 upper OR drop_bit 62 lower"
  define b where "b = lower AND drop_bit 2 (- 1)"
  let ?A = "rev (base_stack UPPERCASE_DIGITS 8 a)" and ?B = "rev (base_stack UPPERCASE_DIGITS 12 b)"
  have e: "encode_session_id upper lower = ?A @ ?B"
    by (simp add: encode_session_id_def put_base_chars_def Let_def a_def b_def)
  have m: "drop_bit 2 (- 1) = (mask 62 :: u64)"
    by (rule bit_word_eqI) (auto simp: bit_simps)
  have "unat b < 2 ^ 62"
    using and_mask_less_size [of 62 lower] by (simp add: b_def m word_less_nat_alt size_word_def)
  then have pb: "of_nat (unat b mod 36 ^ 12) = b" by simp
  let ?a = "of_nat (unat a mod 36 ^ 8) :: u64"
  have "unat ?a = unat a mod 36 ^ 8" by (simp add: unat_of_nat)
  then have "unat ?a mod 4 = unat a mod 4"
    by (simp only:) (rule mod_mod_cancel, simp)
  then have "take_bit 2 ?a = take_bit 2 a"
    by (simp add: word_unat_eq_iff take_bit_eq_mod unat_mod)
  then have bits: "n < 2 \<Longrightarrow> bit ?a n = bit a n" for n
    by (metis bit_take_bit_iff)
  have "(b AND drop_bit 2 (- 1)) OR push_bit 62 ?a = lower"
  proof (rule bit_word_eqI)
    fix n assume n: "n < LENGTH(64)"
    show "bit ((b AND drop_bit 2 (- 1)) OR push_bit 62 ?a) n = bit lower n"
      using n bits [of "n - 62"] by (auto simp: b_def m bit_simps a_def)
  qed
  moreover have "is_char_boundary (?A @ ?B) 8"
    using base_stack_ascii [of "?B ! 0" 12 b] nth_mem [of 0 ?B] by (simp add: is_char_boundary_def nth_append not_le)
  ultimately show ?thesis
    unfolding decode_session_id_def e Let_def
    by (simp add: parse_base_stack a_def [symmetric]) (simp add: pb [simplified])
qed

text \<open>Two inputs on which the code does not do what it is meant to. The first test of
  \<^verbatim>\<open>parse_base_chars\<close> accepts no digit when the base is below ten; and a session id with a two-byte character
  across the split is a panic, where every other malformed id is \<^verbatim>\<open>NotSupported\<close>.\<close>

lemma parse_base_below_ten: "base < 10 \<Longrightarrow> parse_base_chars (c # s) base v = None"
  by (auto simp: digit_value_def)

lemma decode_session_id_panics: "decode_session_id ([0xC3, 0xA9] @ replicate 11 65) = None"
  by (simp add: decode_session_id_def is_char_boundary_def nth_Cons')

section \<open>External ids\<close>

lemma external_internal:
  assumes "length ptr = (if extended then 3 else 2)"
  shows "ExternalUniqueIdToInternal extended (InternalUniqueIdToExternal extended ptr) = ptr"
    and "InternalUniqueIdToExternal extended (ExternalUniqueIdToInternal extended ptr) = ptr"
proof -
  obtain a b r where p: "ptr = a # b # r" "extended \<Longrightarrow> \<exists>c. r = [c]" "\<not> extended \<Longrightarrow> r = []"
    using assms by (cases ptr; cases "tl ptr"; cases "tl (tl ptr)") (auto split: if_splits)
  obtain hi lo where h: "bijective_hash2x64_with_seed (b + kHiOffsetForZero) (a + kLoOffsetForZero) 0 = (hi, lo)"
    by fastforce
  obtain hi' lo' where u: "bijective_unhash2x64_with_seed b a 0 = (hi', lo')" by fastforce
  show "ExternalUniqueIdToInternal extended (InternalUniqueIdToExternal extended ptr) = ptr"
    using p by (cases extended) (auto simp: ExternalUniqueIdToInternal_def InternalUniqueIdToExternal_def Let_def
      bijective_hash2x64_def bijective_unhash2x64_def h bijective_unhash_hash [OF h])
  show "InternalUniqueIdToExternal extended (ExternalUniqueIdToInternal extended ptr) = ptr"
    using p by (cases extended) (auto simp: ExternalUniqueIdToInternal_def InternalUniqueIdToExternal_def Let_def
      bijective_hash2x64_def bijective_unhash2x64_def u bijective_hash_unhash [OF u])
qed

lemma external_zero: "InternalUniqueIdToExternal False [0, 0] = [0, 0]"
  by code_simp

section \<open>Bit transformations\<close>

lemma bit_u64_less: "bit (x :: u64) n \<Longrightarrow> n < 64"
  using bit_imp_le_length by fastforce

lemma bit_swap_bytes: "n < 64 \<Longrightarrow> bit (swap_bytes v) n = bit v (8 * (7 - n div 8) + n mod 8)"
proof -
  assume n: "n < 64"
  then have "n div 8 < 8" by linarith
  moreover have "n mod 8 < 8" by simp
  ultimately show ?thesis
    using n by (simp add: swap_bytes_def bit_le_word rev_nth le_bytes_nth bit_simps algebra_simps
      del: mod_less_divisor)
qed

definition swap_adjacent :: "nat \<Rightarrow> u64 \<Rightarrow> u64 \<Rightarrow> u64" where
  "swap_adjacent k m r = push_bit k (r AND m) OR (drop_bit k r AND m)"

lemma bit_swap_adjacent:
  assumes m: "\<And>n. n < 64 \<Longrightarrow> bit m n \<longleftrightarrow> even (n div k)" and k: "k = 1 \<or> k = 2 \<or> k = 4" and n: "n < 64"
  shows "bit (swap_adjacent k m r) n = bit r (if even (n div k) then n + k else n - k)"
proof -
  have ge: "k \<le> n" if "odd (n div k)" using that by (cases "k \<le> n") auto
  have odd: "even ((n - k) div k) \<longleftrightarrow> odd (n div k)" if "k \<le> n"
    using le_div_geq [of k n] that k by auto
  have lt: "n + k < 64" if "even (n div k)"
  proof -
    from that obtain j where j: "n div k = 2 * j" by (elim evenE)
    define r where "r = n mod k"
    have r: "n = k * (2 * j) + r" "r < k" using k by (auto simp: r_def j [symmetric])
    with n k have "k = 1 \<and> j \<le> 31 \<or> k = 2 \<and> j \<le> 15 \<or> k = 4 \<and> j \<le> 7" by auto
    with r show ?thesis by auto
  qed
  show ?thesis
    using n m [of n] m [of "n - k"] odd lt ge bit_u64_less [of r]
    by (auto simp: swap_adjacent_def bit_simps add.commute)
qed

lemma every_byte: "push_bit 56 1 OR (push_bit 56 1 div 255) = (0x0101010101010101 :: u64)"
  by code_simp

lemma nibble_masks:
  assumes "n < 64"
  shows "bit (0x0f0f0f0f0f0f0f0f :: u64) n = even (n div 4)" "bit (0x3333333333333333 :: u64) n = even (n div 2)"
    "bit (0x5555555555555555 :: u64) n = even (n div 1)"
proof -
  have "\<forall>n \<in> set [0..<64]. bit (0x0f0f0f0f0f0f0f0f :: u64) n = even (n div 4) \<and>
      bit (0x3333333333333333 :: u64) n = even (n div 2) \<and> bit (0x5555555555555555 :: u64) n = even (n div 1)"
    by code_simp
  moreover have "n \<in> set [0..<64]" using assms by (simp only: set_upt atLeastLessThan_iff le0 simp_thms)
  ultimately show "bit (0x0f0f0f0f0f0f0f0f :: u64) n = even (n div 4)" "bit (0x3333333333333333 :: u64) n = even (n div 2)"
    "bit (0x5555555555555555 :: u64) n = even (n div 1)" by blast+
qed

lemma ReverseBits_steps:
  "ReverseBits v = swap_adjacent 1 0x5555555555555555 (swap_adjacent 2 0x3333333333333333
     (swap_adjacent 4 0x0f0f0f0f0f0f0f0f (swap_bytes v)))"
proof -
  have "(0x0101010101010101 * 0x0f :: u64) = 0x0f0f0f0f0f0f0f0f" "(0x0101010101010101 * 0x33 :: u64) = 0x3333333333333333"
    "(0x0101010101010101 * 0x55 :: u64) = 0x5555555555555555" by simp_all
  then show ?thesis by (simp only: ReverseBits_def Let_def every_byte swap_adjacent_def)
qed

definition flip :: "nat \<Rightarrow> nat \<Rightarrow> nat" where
  "flip k n = (if even (n div k) then n + k else n - k)"

lemma flips_reverse:
  assumes "n < 64"
  shows "flip 1 n < 64 \<and> flip 2 (flip 1 n) < 64 \<and> flip 4 (flip 2 (flip 1 n)) < 64 \<and>
    8 * (7 - flip 4 (flip 2 (flip 1 n)) div 8) + flip 4 (flip 2 (flip 1 n)) mod 8 = 63 - n"
proof -
  have "\<forall>n \<in> set [0..<64]. flip 1 n < 64 \<and> flip 2 (flip 1 n) < 64 \<and> flip 4 (flip 2 (flip 1 n)) < 64 \<and>
    8 * (7 - flip 4 (flip 2 (flip 1 n)) div 8) + flip 4 (flip 2 (flip 1 n)) mod 8 = 63 - n"
    by code_simp
  moreover have "n \<in> set [0..<64]" using assms by (simp only: set_upt atLeastLessThan_iff le0 simp_thms)
  ultimately show ?thesis by (rule bspec)
qed

lemma bit_ReverseBits:
  assumes "n < 64"
  shows "bit (ReverseBits v) n = bit v (63 - n)"
proof -
  note f = flips_reverse [OF assms]
  note step = bit_swap_adjacent [folded flip_def]
  show ?thesis
    using f assms unfolding ReverseBits_steps
    by (simp only: step [OF nibble_masks(3)] step [OF nibble_masks(2)] step [OF nibble_masks(1)] bit_swap_bytes simp_thms)
qed

lemma ReverseBits_inverse [simp]: "ReverseBits (ReverseBits v) = v"
  by (rule bit_word_eqI) (simp add: bit_ReverseBits)

lemma ReverseBits_0 [simp]: "ReverseBits v = 0 \<longleftrightarrow> v = 0"
proof -
  have "ReverseBits 0 = 0" by (rule bit_word_eqI) (simp add: bit_ReverseBits)
  then show ?thesis by (metis ReverseBits_inverse)
qed

definition down_step :: "nat \<Rightarrow> u64 \<Rightarrow> u64 \<Rightarrow> u64" where
  "down_step k m r = r XOR drop_bit k (r AND m)"

lemma bit_down_step: "bit (down_step k m r) n \<longleftrightarrow> bit r n \<noteq> (bit r (n + k) \<and> bit m (n + k))"
  by (simp add: down_step_def bit_simps add.commute)

lemma bit_and_push: "bit (m AND push_bit k m') (n + k) \<longleftrightarrow> bit m (n + k) \<and> bit m' n" for m m' :: u64
  using bit_u64_less [of m "n + k"] by (auto simp: bit_simps)

lemma down_step_twice: "m AND push_bit k m = 0 \<Longrightarrow> down_step k m (down_step k m r) = r"
proof (rule bit_word_eqI)
  fix n assume d: "m AND push_bit k m = 0"
  have "\<not> (bit m (n + k + k) \<and> bit m (n + k))" using bit_and_push [of m k m "n + k"] by (simp add: d)
  then show "bit (down_step k m (down_step k m r)) n = bit r n"
    by (auto simp: bit_down_step)
qed

lemma down_step_commute:
  assumes "m AND push_bit k m' = m' AND push_bit l m"
  shows "down_step k m (down_step l m' r) = down_step l m' (down_step k m r)"
proof (rule bit_word_eqI)
  fix n
  have "bit m (n + l + k) \<and> bit m' (n + l) \<longleftrightarrow> bit m' (n + k + l) \<and> bit m (n + k)"
    using bit_and_push [of m k m' "n + l"] bit_and_push [of m' l m "n + k"] by (simp add: assms add_ac)
  then show "bit (down_step k m (down_step l m' r)) n = bit (down_step l m' (down_step k m r)) n"
    by (auto simp: bit_down_step add_ac)
qed

lemma DownwardInvolution_steps:
  "DownwardInvolution v = down_step 1 0xaaaaaaaaaaaaaaaa (down_step 2 0xcccccccccccccccc (down_step 4 0xf0f0f0f0f0f0f0f0
     (down_step 8 0xff00ff00ff00ff00 (down_step 16 0xffff0000ffff0000 (down_step 32 0xffffffff00000000 v)))))"
proof -
  have m: "(0xffffffff00000000 :: u64) = NOT (mask 32)" by code_simp
  have "down_step 32 0xffffffff00000000 v = v XOR drop_bit 32 v"
    unfolding down_step_def m by (rule bit_word_eqI) (auto simp: bit_simps dest: bit_u64_less)
  then show ?thesis by (simp only: DownwardInvolution_def Let_def down_step_def)
qed

lemma down_steps_twice:
  "down_step 1 0xaaaaaaaaaaaaaaaa (down_step 1 0xaaaaaaaaaaaaaaaa r) = r"
  "down_step 2 0xcccccccccccccccc (down_step 2 0xcccccccccccccccc r) = r"
  "down_step 4 0xf0f0f0f0f0f0f0f0 (down_step 4 0xf0f0f0f0f0f0f0f0 r) = r"
  "down_step 8 0xff00ff00ff00ff00 (down_step 8 0xff00ff00ff00ff00 r) = r"
  "down_step 16 0xffff0000ffff0000 (down_step 16 0xffff0000ffff0000 r) = r"
  "down_step 32 0xffffffff00000000 (down_step 32 0xffffffff00000000 r) = r"
  by (rule down_step_twice, code_simp)+

lemma down_steps_sort:
  "down_step 32 0xffffffff00000000 (down_step 16 0xffff0000ffff0000 r) = down_step 16 0xffff0000ffff0000 (down_step 32 0xffffffff00000000 r)"
  "down_step 32 0xffffffff00000000 (down_step 8 0xff00ff00ff00ff00 r) = down_step 8 0xff00ff00ff00ff00 (down_step 32 0xffffffff00000000 r)"
  "down_step 32 0xffffffff00000000 (down_step 4 0xf0f0f0f0f0f0f0f0 r) = down_step 4 0xf0f0f0f0f0f0f0f0 (down_step 32 0xffffffff00000000 r)"
  "down_step 32 0xffffffff00000000 (down_step 2 0xcccccccccccccccc r) = down_step 2 0xcccccccccccccccc (down_step 32 0xffffffff00000000 r)"
  "down_step 32 0xffffffff00000000 (down_step 1 0xaaaaaaaaaaaaaaaa r) = down_step 1 0xaaaaaaaaaaaaaaaa (down_step 32 0xffffffff00000000 r)"
  "down_step 16 0xffff0000ffff0000 (down_step 8 0xff00ff00ff00ff00 r) = down_step 8 0xff00ff00ff00ff00 (down_step 16 0xffff0000ffff0000 r)"
  "down_step 16 0xffff0000ffff0000 (down_step 4 0xf0f0f0f0f0f0f0f0 r) = down_step 4 0xf0f0f0f0f0f0f0f0 (down_step 16 0xffff0000ffff0000 r)"
  "down_step 16 0xffff0000ffff0000 (down_step 2 0xcccccccccccccccc r) = down_step 2 0xcccccccccccccccc (down_step 16 0xffff0000ffff0000 r)"
  "down_step 16 0xffff0000ffff0000 (down_step 1 0xaaaaaaaaaaaaaaaa r) = down_step 1 0xaaaaaaaaaaaaaaaa (down_step 16 0xffff0000ffff0000 r)"
  "down_step 8 0xff00ff00ff00ff00 (down_step 4 0xf0f0f0f0f0f0f0f0 r) = down_step 4 0xf0f0f0f0f0f0f0f0 (down_step 8 0xff00ff00ff00ff00 r)"
  "down_step 8 0xff00ff00ff00ff00 (down_step 2 0xcccccccccccccccc r) = down_step 2 0xcccccccccccccccc (down_step 8 0xff00ff00ff00ff00 r)"
  "down_step 8 0xff00ff00ff00ff00 (down_step 1 0xaaaaaaaaaaaaaaaa r) = down_step 1 0xaaaaaaaaaaaaaaaa (down_step 8 0xff00ff00ff00ff00 r)"
  "down_step 4 0xf0f0f0f0f0f0f0f0 (down_step 2 0xcccccccccccccccc r) = down_step 2 0xcccccccccccccccc (down_step 4 0xf0f0f0f0f0f0f0f0 r)"
  "down_step 4 0xf0f0f0f0f0f0f0f0 (down_step 1 0xaaaaaaaaaaaaaaaa r) = down_step 1 0xaaaaaaaaaaaaaaaa (down_step 4 0xf0f0f0f0f0f0f0f0 r)"
  "down_step 2 0xcccccccccccccccc (down_step 1 0xaaaaaaaaaaaaaaaa r) = down_step 1 0xaaaaaaaaaaaaaaaa (down_step 2 0xcccccccccccccccc r)"
  by (rule down_step_commute, code_simp)+

lemma DownwardInvolution_inverse [simp]: "DownwardInvolution (DownwardInvolution v) = v"
  by (simp only: DownwardInvolution_steps down_steps_sort down_steps_twice)

lemma down_step_xor: "down_step k m (a XOR b) = down_step k m a XOR down_step k m b"
  by (rule bit_word_eqI) (auto simp: bit_down_step bit_xor_iff)

lemma DownwardInvolution_xor: "DownwardInvolution (a XOR b) = DownwardInvolution a XOR DownwardInvolution b"
  by (simp only: DownwardInvolution_steps down_step_xor)

lemma DownwardInvolution_0 [simp]: "DownwardInvolution v = 0 \<longleftrightarrow> v = 0"
proof -
  have "DownwardInvolution 0 = 0" by (simp add: DownwardInvolution_def)
  then show ?thesis by (metis DownwardInvolution_inverse)
qed

lemma transform_zero [simp]: "DownwardInvolution 0 = 0" "ReverseBits 0 = 0"
  by simp_all

lemma xor_zero_eq: "a XOR b = 0 \<Longrightarrow> a = (b :: u64)"
  by (rule bit_word_eqI) (metis bit_xor_iff bit_0_eq bot_apply bot_bool_def)

section \<open>Cache keys are one to one\<close>

lemma xor_back:
  "(x XOR y) XOR x = (y :: u64)" "(x XOR y) XOR y = x"
  by (rule bit_word_eqI, simp add: bit_xor_iff, blast)+

lemma ToInternal_FromInternal:
  assumes "a = 0 \<longrightarrow> b = 0"
  shows "ToInternalUniqueId (FromInternalUniqueId [a, b]) = [a, b]"
proof (cases "a = 0 \<or> DownwardInvolution a XOR ReverseBits b = 0")
  case True
  then consider "a = 0" "b = 0" | "a \<noteq> 0" "DownwardInvolution a XOR ReverseBits b = 0" using assms by blast
  then show ?thesis
  proof cases
    case 2
    from xor_zero_eq [OF 2(2)] have "ReverseBits (DownwardInvolution a) = b" by (simp only: ReverseBits_inverse)
    with 2 show ?thesis by (simp add: ToInternalUniqueId_def FromInternalUniqueId_def)
  qed (simp add: ToInternalUniqueId_def FromInternalUniqueId_def)
qed (simp add: ToInternalUniqueId_def FromInternalUniqueId_def Let_def xor_back)

lemma FromInternal_ToInternal:
  assumes "file_num_etc64 k = 0 \<longrightarrow> offset_etc64 k = 0"
  shows "FromInternalUniqueId (ToInternalUniqueId k) = k"
proof (cases "offset_etc64 k = 0")
  case True
  then show ?thesis by (cases k) (simp add: ToInternalUniqueId_def FromInternalUniqueId_def Let_def)
next
  case False
  have "DownwardInvolution x XOR (y XOR DownwardInvolution x) = y" for x y
    by (simp only: xor.commute [of "DownwardInvolution x"] xor_back)
  with False assms show ?thesis
    by (cases k) (simp add: ToInternalUniqueId_def FromInternalUniqueId_def Let_def)
qed

lemma FromInternal_nonempty: "a \<noteq> 0 \<Longrightarrow> file_num_etc64 (FromInternalUniqueId [a, b]) \<noteq> 0"
  by (auto simp: FromInternalUniqueId_def Let_def)

lemma FromInternal_inj:
  assumes "a \<noteq> 0" "a' \<noteq> 0"
  shows "FromInternalUniqueId [a, b] = FromInternalUniqueId [a', b'] \<longleftrightarrow> a = a' \<and> b = b'"
proof
  assume "FromInternalUniqueId [a, b] = FromInternalUniqueId [a', b']"
  from arg_cong [OF this, of ToInternalUniqueId] assms show "a = a' \<and> b = b'"
    by (simp add: ToInternal_FromInternal)
qed simp

section \<open>Properties\<close>

lemma decode_encode_bytes:
  "decode_bytes_x2 (encode_bytes [a, b]) = Inr [a, b]" "decode_bytes_x3 (encode_bytes [a, b, c]) = Inr [a, b, c]"
  by (simp_all add: decode_bytes_x2_def decode_bytes_x3_def encode_bytes_def EncodeFixed64_def DecodeFixed64_def le_word_le_bytes)

lemma external_take2: "length ptr = (if extended then 3 else 2) \<Longrightarrow>
    take 2 (InternalUniqueIdToExternal extended ptr) = InternalUniqueIdToExternal False (take 2 ptr)"
  by (auto simp: InternalUniqueIdToExternal_def Let_def numeral_2_eq_2 numeral_3_eq_3 length_Suc_conv split: prod.split)

lemma length_external [simp]: "length (InternalUniqueIdToExternal extended ptr) = length ptr"
  by (simp add: InternalUniqueIdToExternal_def Let_def split: prod.split)

lemma external_zero_iff:
  assumes "length ptr = (if extended then 3 else 2)"
  shows "take 2 (InternalUniqueIdToExternal extended ptr) = [0, 0] \<longleftrightarrow> take 2 ptr = [0, 0]"
proof -
  have p: "length (take 2 ptr) = (if False then 3 else 2)" "length [0, 0 :: u64] = (if False then 3 else 2)"
    using assms by simp_all
  have "take 2 ptr = [0, 0]" if "InternalUniqueIdToExternal False (take 2 ptr) = InternalUniqueIdToExternal False [0, 0]"
    using arg_cong [OF that, of "ExternalUniqueIdToInternal False"]
    unfolding external_internal(1) [OF p(1)] external_internal(1) [OF p(2)] .
  then show ?thesis unfolding external_take2 [OF assms] external_zero by (auto simp: external_zero)
qed

lemma external_inj:
  "encode_bytes (InternalUniqueIdToExternal False [a, b]) = encode_bytes (InternalUniqueIdToExternal False [a', b']) \<longleftrightarrow>
     a = a' \<and> b = b'" (is "?l \<longleftrightarrow> ?r")
proof
  have l2: "\<exists>x y. InternalUniqueIdToExternal False [u, v] = [x, y]" for u v
    using length_external [of False "[u, v]"] by (auto simp: length_Suc_conv simp del: length_external)
  assume ?l
  then have "InternalUniqueIdToExternal False [a, b] = InternalUniqueIdToExternal False [a', b']"
    using l2 [of a b] l2 [of a' b'] decode_encode_bytes(1) by (metis sum.inject(2))
  from arg_cong [OF this, of "ExternalUniqueIdToInternal False"] show ?r by (simp add: external_internal(1))
qed simp

lemma encode_bytes_zero: "encode_bytes [0, 0] = replicate 16 0"
  by code_simp

lemma internal_id_of_session:
  assumes "decode_session_id session = Some (Inr (up, lo))" "db_id \<noteq> []" "f \<noteq> 0"
  shows "get_sst_internal_unique_id_x2 ops db_id session f force =
    Some (Inr [lo, fst (hash2x64_with_seed ops db_id up) XOR f])"
proof -
  have "decode_session_id [] = Some (Inl (Status_NotSupported ''Missing db_session_id''))"
    by (simp add: decode_session_id_def)
  then have "session \<noteq> []" using assms(1) by force
  with assms show ?thesis
    by (simp add: get_sst_internal_unique_id_x2_def get_sst_internal_unique_id_x3_def Let_def split: prod.split)
qed

lemma xor_cancel: "a XOR f = a XOR g \<longleftrightarrow> f = (g :: u64)"
proof
  assume "a XOR f = a XOR g"
  then have "a XOR (a XOR f) = a XOR (a XOR g)" by simp
  then show "f = g" by (simp add: xor.assoc [symmetric])
qed simp

text \<open>
  C30. Internal and external unique ids determine each other, in both directions and for both sizes; the
  external id is all zero in its first 128 bits exactly when the internal id is, so that excluding zero
  in one excludes it in the other; the public byte form reads back; and a session id reads back with
  all 64 bits of \<^verbatim>\<open>lower\<close>, and \<^verbatim>\<open>upper\<close> cut to what eight base-36 digits hold.
\<close>

theorem unique_id_roundtrip:
  assumes "length uid = (if extended then 3 else 2)"
  shows "ExternalUniqueIdToInternal extended (InternalUniqueIdToExternal extended uid) = uid \<and>
    InternalUniqueIdToExternal extended (ExternalUniqueIdToInternal extended uid) = uid \<and>
    (take 2 (InternalUniqueIdToExternal extended uid) = [0, 0] \<longleftrightarrow> take 2 uid = [0, 0]) \<and>
    (if extended then decode_bytes_x3 (encode_bytes uid) else decode_bytes_x2 (encode_bytes uid)) = Inr uid \<and>
    decode_session_id (encode_session_id upper lower) =
      Some (Inr (drop_bit 2 (of_nat (unat (push_bit 2 upper OR drop_bit 62 lower) mod 36 ^ 8)), lower))"
proof -
  have "(if extended then decode_bytes_x3 (encode_bytes uid) else decode_bytes_x2 (encode_bytes uid)) = Inr uid"
    using assms decode_encode_bytes
    by (auto simp: numeral_2_eq_2 numeral_3_eq_3 length_Suc_conv simp del: One_nat_def split: if_splits)
  with external_internal [OF assms] external_zero_iff [OF assms] decode_encode_session_id show ?thesis by simp
qed

theorem unique_id_roundtrip_witness:
  "ExternalUniqueIdToInternal True (InternalUniqueIdToExternal True [1, 2, 3]) = [1, 2, 3] \<and>
   decode_session_id (encode_session_id 5 7) = Some (Inr (5, 7))"
  using unique_id_roundtrip [of "[1, 2, 3]" True 5 7] by simp

text \<open>
  C31. Two files of one session have the same public id, and the same base cache key, only if they have the
  same number, whatever the 128-bit hash; neither is ever the reserved zero value; the cache keys of one
  file differ by offset, and no key of a file collides with the keys made unique for the lifetime of a
  cache or of the process, which in turn do not collide with each other as long as the cache has handed
  out fewer than \<open>2 ^ 63\<close> ids and the process counter has not run down to there.
\<close>

theorem file_identities:
  assumes "decode_session_id session = Some (Inr (up, lo))" "lo \<noteq> 0" "db_id \<noteq> []" "f1 \<noteq> 0" "f2 \<noteq> 0"
  shows "\<exists>x1 x2 k1 k2.
    GetUniqueIdFromTableProperties ops db_id session f1 = Some (Status_OK, x1) \<and>
    GetUniqueIdFromTableProperties ops db_id session f2 = Some (Status_OK, x2) \<and>
    OffsetableCacheKey_init ops db_id session f1 = Some k1 \<and>
    OffsetableCacheKey_init ops db_id session f2 = Some k2 \<and>
    (x1 = x2 \<longleftrightarrow> f1 = f2) \<and> (k1 = k2 \<longleftrightarrow> f1 = f2) \<and>
    x1 \<noteq> replicate 16 0 \<and> \<not> OffsetableCacheKey_IsEmpty k1 \<and>
    (\<forall>o1 o2. WithOffset k1 o1 = WithOffset k1 o2 \<longleftrightarrow> o1 = o2) \<and>
    (\<forall>offset new_id counter. WithOffset k1 offset \<noteq> CreateUniqueForCacheLifetime new_id \<and>
       WithOffset k1 offset \<noteq> fst (CreateUniqueForProcessLifetime counter)) \<and>
    (\<forall>new_id counter. new_id + 1 < 2 ^ 63 \<and> 2 ^ 63 \<le> counter \<longrightarrow>
       CreateUniqueForCacheLifetime new_id \<noteq> fst (CreateUniqueForProcessLifetime counter))"
proof -
  define a where "a = fst (hash2x64_with_seed ops db_id up)"
  note internal = internal_id_of_session [OF assms(1,3), where ops = ops, folded a_def]
  define x where "x f = encode_bytes (InternalUniqueIdToExternal False [lo, a XOR f])" for f
  define k where "k f = FromInternalUniqueId [lo, a XOR f]" for f
  have "GetUniqueIdFromTableProperties ops db_id session f = Some (Status_OK, x f)"
    "OffsetableCacheKey_init ops db_id session f = Some (k f)" if "f \<noteq> 0" for f
    using internal [OF that] by (simp_all add: GetUniqueIdFromTableProperties_def OffsetableCacheKey_init_def x_def k_def)
  moreover have "x f = x g \<longleftrightarrow> f = g" "k f = k g \<longleftrightarrow> f = g" for f g
    using assms(2) by (simp_all add: x_def k_def external_inj FromInternal_inj xor_cancel)
  moreover have "x f1 \<noteq> replicate 16 0"
    using assms(2) external_inj [of lo "a XOR f1" 0 0] by (simp add: x_def external_zero encode_bytes_zero)
  moreover have "file_num_etc64 (k f1) \<noteq> 0" using assms(2) by (simp add: k_def FromInternal_nonempty)
  ultimately show ?thesis
    using assms(4,5)
    by (auto simp: OffsetableCacheKey_IsEmpty_def WithOffset_def CreateUniqueForCacheLifetime_def
      CreateUniqueForProcessLifetime_def xor_cancel not_less [symmetric] intro!: exI)
qed

theorem file_identities_witness:
  "\<exists>x1 x2. GetUniqueIdFromTableProperties \<lparr>xxh3_128 = \<lambda>_. 0, xxh3_128_with_seed = \<lambda>_ _. 0\<rparr> [65] (encode_session_id 5 7) 1 =
     Some (Status_OK, x1) \<and>
   GetUniqueIdFromTableProperties \<lparr>xxh3_128 = \<lambda>_. 0, xxh3_128_with_seed = \<lambda>_ _. 0\<rparr> [65] (encode_session_id 5 7) 2 =
     Some (Status_OK, x2) \<and> x1 \<noteq> x2"
proof -
  have "decode_session_id (encode_session_id 5 7) = Some (Inr (5, 7))" by (simp add: decode_encode_session_id)
  from file_identities [OF this, of "[65]" 1 2 "\<lparr>xxh3_128 = \<lambda>_. 0, xxh3_128_with_seed = \<lambda>_ _. 0\<rparr>"] show ?thesis by auto
qed

end
