(* ===== verification/Block_Builder.thy ===== *)
theory Block_Builder
  imports Iter_Key Coding
begin

unbundle bit_operations_syntax

text \<open>
  Building a block of a table file: \<^verbatim>\<open>BlockBuilder\<close> (\<^verbatim>\<open>table/block_based/block_builder.h\<close>, \<^verbatim>\<open>block_builder.cc\<close>), the
  hash index of a data block (\<^verbatim>\<open>data_block_hash_index.h\<close>, \<^verbatim>\<open>data_block_hash_index.cc\<close>) and the packed footer
  (\<^verbatim>\<open>data_block_footer.cc\<close>). The hash of a key is a parameter, and so is the floating point sum behind the
  number of buckets: \<open>buckets n\<close> is \<^verbatim>\<open>estimated_num_buckets_\<close> converted to 16 bits after \<open>n\<close> additions of
  \<^verbatim>\<open>bucket_per_key_\<close>.
\<close>

section \<open>Footer\<close>

datatype DataBlockIndexType = kDataBlockBinarySearch | kDataBlockBinaryAndHash

definition kDataBlockIndexTypeBitShift :: nat where
  "kDataBlockIndexTypeBitShift = 31"

definition kNumRestartsMask :: u32 where
  "kNumRestartsMask = push_bit kDataBlockIndexTypeBitShift 1 - 1"

definition PackIndexTypeAndNumRestarts :: "DataBlockIndexType \<Rightarrow> u32 \<Rightarrow> u32" where
  "PackIndexTypeAndNumRestarts index_type num_restarts =
     (let block_footer = num_restarts in
      if index_type = kDataBlockBinaryAndHash then block_footer OR push_bit kDataBlockIndexTypeBitShift 1
      else block_footer)"

definition UnPackIndexTypeAndNumRestarts :: "u32 \<Rightarrow> DataBlockIndexType \<times> u32" where
  "UnPackIndexTypeAndNumRestarts block_footer =
     (if block_footer AND push_bit kDataBlockIndexTypeBitShift 1 \<noteq> 0 then kDataBlockBinaryAndHash
      else kDataBlockBinarySearch,
      block_footer AND kNumRestartsMask)"

section \<open>Hash index\<close>

definition kNoEntry :: byte where
  "kNoEntry = 255"

definition kCollision :: byte where
  "kCollision = 254"

definition kMaxRestartSupportedByHashIndex :: nat where
  "kMaxRestartSupportedByHashIndex = 253"

definition kMaxBlockSizeSupportedByHashIndex :: nat where
  "kMaxBlockSizeSupportedByHashIndex = 2 ^ 16"

text \<open>\<open>hib_initialized\<close> is \<^verbatim>\<open>bucket_per_key_ > 0\<close>.\<close>

record DataBlockHashIndexBuilder =
  hib_initialized :: bool
  hib_valid :: bool
  hib_pairs :: "(u32 \<times> byte) list"

definition HashIndexBuilder_init :: DataBlockHashIndexBuilder where
  "HashIndexBuilder_init = \<lparr>hib_initialized = False, hib_valid = False, hib_pairs = []\<rparr>"

definition HashIndexBuilder_Initialize :: "DataBlockHashIndexBuilder \<Rightarrow> DataBlockHashIndexBuilder" where
  "HashIndexBuilder_Initialize h = h\<lparr>hib_initialized := True, hib_valid := True\<rparr>"

definition HashIndexBuilder_Valid :: "DataBlockHashIndexBuilder \<Rightarrow> bool" where
  "HashIndexBuilder_Valid h \<longleftrightarrow> hib_valid h \<and> hib_initialized h"

definition HashIndexBuilder_Add :: "(slice \<Rightarrow> u32) \<Rightarrow> slice \<Rightarrow> nat \<Rightarrow> DataBlockHashIndexBuilder \<Rightarrow> DataBlockHashIndexBuilder" where
  "HashIndexBuilder_Add GetSliceHash key restart_index h =
     (if restart_index > kMaxRestartSupportedByHashIndex then h\<lparr>hib_valid := False\<rparr>
      else h\<lparr>hib_pairs := hib_pairs h @ [(GetSliceHash key, of_nat restart_index)]\<rparr>)"

definition HashIndexBuilder_EstimateSize :: "(nat \<Rightarrow> u16) \<Rightarrow> DataBlockHashIndexBuilder \<Rightarrow> nat" where
  "HashIndexBuilder_EstimateSize buckets h =
     (let estimated_num_buckets = buckets (length (hib_pairs h)) OR 1 in 2 + unat estimated_num_buckets)"

definition HashIndexBuilder_Reset :: "DataBlockHashIndexBuilder \<Rightarrow> DataBlockHashIndexBuilder" where
  "HashIndexBuilder_Reset h = h\<lparr>hib_valid := True, hib_pairs := []\<rparr>"

definition put_bucket :: "u16 \<Rightarrow> u32 \<times> byte \<Rightarrow> slice \<Rightarrow> slice" where
  "put_bucket num_buckets entry buckets =
     (let (hash_value, restart_index) = entry;
          buck_idx = unat (ucast (hash_value mod ucast num_buckets) :: u16)
      in if buckets ! buck_idx = kNoEntry then buckets[buck_idx := restart_index]
         else if buckets ! buck_idx \<noteq> restart_index then buckets[buck_idx := kCollision]
         else buckets)"

definition HashIndexBuilder_Finish :: "(nat \<Rightarrow> u16) \<Rightarrow> DataBlockHashIndexBuilder \<Rightarrow> slice \<Rightarrow> slice" where
  "HashIndexBuilder_Finish buckets h buffer =
     (let num_buckets = buckets (length (hib_pairs h));
          num_buckets = (if num_buckets = 0 then 1 else num_buckets);
          num_buckets = num_buckets OR 1;
          table = fold (put_bucket num_buckets) (hib_pairs h) (replicate (unat num_buckets) kNoEntry);
          buffer = buffer @ table
      in PutFixed16 buffer num_buckets)"

text \<open>The reader: \<^verbatim>\<open>Initialize\<close> returns the number of buckets and the offset of the table, \<^verbatim>\<open>Lookup\<close> a bucket,
  \<^const>\<open>None\<close> for a division by zero or a read outside the block.\<close>

definition HashIndex_Initialize :: "slice \<Rightarrow> u16 \<Rightarrow> u16 \<times> u16" where
  "HashIndex_Initialize data sz =
     (let num_buckets = DecodeFixed16 (drop (unat sz - 2) data)
      in (num_buckets, sz - 2 - num_buckets))"

definition HashIndex_Lookup :: "(slice \<Rightarrow> u32) \<Rightarrow> u16 \<Rightarrow> slice \<Rightarrow> nat \<Rightarrow> slice \<Rightarrow> byte option" where
  "HashIndex_Lookup GetSliceHash num_buckets data map_offset key =
     (let hash_value = GetSliceHash key;
          idx = unat (ucast (hash_value mod ucast num_buckets) :: u16)
      in if num_buckets \<noteq> 0 \<and> map_offset + idx < length data then Some (data ! (map_offset + idx)) else None)"

section \<open>BlockBuilder\<close>

record BlockBuilder =
  bb_block_restart_interval :: nat
  bb_use_delta_encoding :: bool
  bb_use_value_delta_encoding :: bool
  bb_strip_ts_sz :: nat
  bb_is_user_key :: bool
  bb_buffer :: slice
  bb_restarts :: "u32 list"
  bb_estimate :: nat
  bb_counter :: nat
  bb_finished :: bool
  bb_last_key :: slice
  bb_hash_index :: DataBlockHashIndexBuilder

text \<open>The parameters of a build: hash of a key, bucket count after \<open>n\<close> keys.\<close>

record block_env =
  be_hash :: "slice \<Rightarrow> u32"
  be_buckets :: "nat \<Rightarrow> u16"

definition BlockBuilder_init ::
  "nat \<Rightarrow> bool \<Rightarrow> bool \<Rightarrow> DataBlockIndexType \<Rightarrow> nat \<Rightarrow> bool \<Rightarrow> bool \<Rightarrow> BlockBuilder" where
  "BlockBuilder_init block_restart_interval use_delta_encoding use_value_delta_encoding index_type ts_sz
       persist_user_defined_timestamps is_user_key =
     \<lparr>bb_block_restart_interval = block_restart_interval,
      bb_use_delta_encoding = use_delta_encoding,
      bb_use_value_delta_encoding = use_value_delta_encoding,
      bb_strip_ts_sz = (if persist_user_defined_timestamps then 0 else ts_sz),
      bb_is_user_key = is_user_key,
      bb_buffer = [], bb_restarts = [0], bb_estimate = 8, bb_counter = 0, bb_finished = False, bb_last_key = [],
      bb_hash_index =
        (case index_type of kDataBlockBinarySearch \<Rightarrow> HashIndexBuilder_init
         | kDataBlockBinaryAndHash \<Rightarrow> HashIndexBuilder_Initialize HashIndexBuilder_init)\<rparr>"

definition BlockBuilder_Reset :: "BlockBuilder \<Rightarrow> BlockBuilder" where
  "BlockBuilder_Reset b =
     b\<lparr>bb_buffer := [], bb_restarts := take 1 (bb_restarts b), bb_estimate := 8, bb_counter := 0,
       bb_finished := False, bb_last_key := [],
       bb_hash_index := (if HashIndexBuilder_Valid (bb_hash_index b) then HashIndexBuilder_Reset (bb_hash_index b)
                         else bb_hash_index b)\<rparr>"

definition BlockBuilder_SwapAndReset :: "slice \<Rightarrow> BlockBuilder \<Rightarrow> slice \<times> BlockBuilder" where
  "BlockBuilder_SwapAndReset buffer b = (bb_buffer b, BlockBuilder_Reset (b\<lparr>bb_buffer := buffer\<rparr>))"

definition CurrentSizeEstimate :: "block_env \<Rightarrow> BlockBuilder \<Rightarrow> nat" where
  "CurrentSizeEstimate env b =
     bb_estimate b + (if HashIndexBuilder_Valid (bb_hash_index b)
       then HashIndexBuilder_EstimateSize (be_buckets env) (bb_hash_index b) else 0)"

definition BlockBuilder_empty :: "BlockBuilder \<Rightarrow> bool" where
  "BlockBuilder_empty b \<longleftrightarrow> bb_buffer b = []"

definition EstimateSizeAfterKV :: "block_env \<Rightarrow> BlockBuilder \<Rightarrow> slice \<Rightarrow> slice \<Rightarrow> nat" where
  "EstimateSizeAfterKV env b key value =
     (let restart = bb_counter b \<ge> bb_block_restart_interval b;
          estimate = CurrentSizeEstimate env b;
          estimate = estimate + length key;
          estimate = (if bb_strip_ts_sz b > 0 then estimate - bb_strip_ts_sz b else estimate);
          estimate = estimate +
            (if \<not> bb_use_value_delta_encoding b \<or> restart then length value else length value div 2);
          estimate = (if restart then estimate + 4 else estimate);
          estimate = estimate + 4;
          estimate = estimate + VarintLength (word_of_nat (length key));
          estimate = (if \<not> bb_use_value_delta_encoding b \<or> restart
            then estimate + VarintLength (word_of_nat (length value)) else estimate)
      in estimate)"

definition BlockBuilder_Finish :: "block_env \<Rightarrow> BlockBuilder \<Rightarrow> slice \<times> BlockBuilder" where
  "BlockBuilder_Finish env b =
     (let buffer = fold (\<lambda>r buffer. PutFixed32 buffer r) (bb_restarts b) (bb_buffer b);
          num_restarts = word_of_nat (length (bb_restarts b));
          hashed = HashIndexBuilder_Valid (bb_hash_index b) \<and>
            CurrentSizeEstimate env b \<le> kMaxBlockSizeSupportedByHashIndex;
          buffer = (if hashed then HashIndexBuilder_Finish (be_buckets env) (bb_hash_index b) buffer else buffer);
          index_type = (if hashed then kDataBlockBinaryAndHash else kDataBlockBinarySearch);
          block_footer = PackIndexTypeAndNumRestarts index_type num_restarts;
          buffer = PutFixed32 buffer block_footer
      in (buffer, b\<lparr>bb_buffer := buffer, bb_finished := True\<rparr>))"

definition MaybeStripTimestampFromKey :: "BlockBuilder \<Rightarrow> slice \<Rightarrow> slice" where
  "MaybeStripTimestampFromKey b key =
     (if bb_strip_ts_sz b > 0 then
        (if bb_is_user_key b then take (length key - bb_strip_ts_sz b) key
         else StripTimestampFromInternalKey [] key (bb_strip_ts_sz b))
      else key)"

definition AddWithLastKeyImpl ::
  "block_env \<Rightarrow> slice \<Rightarrow> slice \<Rightarrow> slice \<Rightarrow> slice \<Rightarrow> nat \<Rightarrow> BlockBuilder \<Rightarrow> BlockBuilder" where
  "AddWithLastKeyImpl env key value last_key delta_value buffer_size b =
     (let key_to_persist = MaybeStripTimestampFromKey b key;
          last_key_persisted = (if length last_key = 0 then last_key else MaybeStripTimestampFromKey b last_key);
          restart = bb_counter b \<ge> bb_block_restart_interval b;
          shared = (if restart then 0 else if bb_use_delta_encoding b
                    then difference_offset key_to_persist last_key_persisted else 0);
          b = (if restart then b\<lparr>bb_restarts := bb_restarts b @ [word_of_nat buffer_size],
                                 bb_estimate := bb_estimate b + 4, bb_counter := 0\<rparr> else b);
          non_shared = length key_to_persist - shared;
          buffer = (if bb_use_value_delta_encoding b
                    then PutVarint32Varint32 (bb_buffer b) (word_of_nat shared) (word_of_nat non_shared)
                    else PutVarint32Varint32Varint32 (bb_buffer b) (word_of_nat shared) (word_of_nat non_shared)
                           (word_of_nat (length value)));
          buffer = buffer @ drop shared key_to_persist;
          buffer = (if shared \<noteq> 0 \<and> bb_use_value_delta_encoding b then buffer @ delta_value else buffer @ value);
          b = b\<lparr>bb_buffer := buffer\<rparr>;
          b = (if HashIndexBuilder_Valid (bb_hash_index b)
               then b\<lparr>bb_hash_index := HashIndexBuilder_Add (be_hash env) (ExtractUserKey key)
                        (length (bb_restarts b) - 1) (bb_hash_index b)\<rparr> else b);
          b = b\<lparr>bb_counter := bb_counter b + 1\<rparr>
      in b\<lparr>bb_estimate := bb_estimate b + (length (bb_buffer b) - buffer_size)\<rparr>)"

definition BlockBuilder_Add :: "block_env \<Rightarrow> slice \<Rightarrow> slice \<Rightarrow> slice \<Rightarrow> BlockBuilder \<Rightarrow> BlockBuilder" where
  "BlockBuilder_Add env key value delta_value b =
     (let b = AddWithLastKeyImpl env key value (bb_last_key b) delta_value (length (bb_buffer b)) b
      in if bb_use_delta_encoding b then b\<lparr>bb_last_key := key\<rparr> else b)"

definition AddWithLastKey :: "block_env \<Rightarrow> slice \<Rightarrow> slice \<Rightarrow> slice \<Rightarrow> slice \<Rightarrow> BlockBuilder \<Rightarrow> BlockBuilder" where
  "AddWithLastKey env key value last_key_param delta_value b =
     (let buffer_size = length (bb_buffer b);
          last_key = (if buffer_size > 0 then last_key_param else [])
      in AddWithLastKeyImpl env key value last_key delta_value buffer_size b)"

end
