(* ===== verification/Block_Iter.thy ===== *)
theory Block_Iter
  imports Block_Builder Kv_Checksum "HOL-Library.Monad_Syntax"
begin

unbundle bit_operations_syntax

text \<open>
  Reading a block: \<^verbatim>\<open>Block\<close>, \<^verbatim>\<open>BlockIter\<close> and its subclasses \<^verbatim>\<open>DataBlockIter\<close> and \<^verbatim>\<open>MetaBlockIter\<close>
  (\<^verbatim>\<open>table/block_based/block.h\<close>, \<^verbatim>\<open>block.cc\<close>). The result \<^const>\<open>None\<close> of an operation means that the code would read
  outside the block's memory or not return; a null pointer or a \<^verbatim>\<open>false\<close> is a value. \<^verbatim>\<open>value_\<close> is an offset
  into the block and a length (\<^const>\<open>None\<close> after \<^verbatim>\<open>value_.clear()\<close>), since the position of the next entry is computed
  from it. The template parameter \<^verbatim>\<open>DecodeEntryFunc\<close> is an argument. Offsets are natural numbers; the code keeps
  them in 32 bits and documents that larger blocks are not supported.
\<close>

section \<open>Decoding an entry\<close>

type_synonym decode_fn = "slice \<Rightarrow> nat \<Rightarrow> nat \<Rightarrow> (nat \<times> u32 \<times> u32 \<times> u32) option option"

text \<open>The three varints between \<open>p\<close> and \<open>limit\<close>, and the offset behind them.\<close>

definition decode_varints :: decode_fn where
  "decode_varints data p limit =
     (case GetVarint32Ptr (take (limit - p) (drop p data)) of None \<Rightarrow> Some None
      | Some (shared, r) \<Rightarrow>
          (case GetVarint32Ptr r of None \<Rightarrow> Some None
           | Some (non_shared, r) \<Rightarrow>
               (case GetVarint32Ptr r of None \<Rightarrow> Some None
                | Some (value_length, r) \<Rightarrow> Some (Some (limit - length r, shared, non_shared, value_length)))))"

definition DecodeEntry :: decode_fn where
  "DecodeEntry data p limit =
     (if length data < p + 3 then None
      else
        let shared = ucast (data ! p) :: u32;
            non_shared = ucast (data ! (p + 1)) :: u32;
            value_length = ucast (data ! (p + 2)) :: u32
        in if (shared OR non_shared OR value_length) < 128 then Some (Some (p + 3, shared, non_shared, value_length))
           else decode_varints data p limit)"

text \<open>The sum in the last check is a 32-bit sum.\<close>

definition CheckAndDecodeEntry :: decode_fn where
  "CheckAndDecodeEntry data p limit =
     (if limit < p + 3 then Some None
      else do {
        r \<leftarrow> DecodeEntry data p limit;
        Some (case r of None \<Rightarrow> None
          | Some (q, shared, non_shared, value_length) \<Rightarrow>
              if word_of_nat (limit - q) < non_shared + value_length then None
              else Some (q, shared, non_shared, value_length))
      })"

definition DecodeKey :: "slice \<Rightarrow> nat \<Rightarrow> nat \<Rightarrow> (nat \<times> u32 \<times> u32) option option" where
  "DecodeKey data p limit = do {
     r \<leftarrow> DecodeEntry data p limit;
     Some (map_option (\<lambda>(q, shared, non_shared, value_length). (q, shared, non_shared)) r)
   }"

section \<open>BlockIter\<close>

record CachedPrevEntry =
  cp_offset :: nat
  cp_key_in_block :: "slice option"
  cp_key_offset :: nat
  cp_key_size :: nat
  cp_value :: "nat \<times> nat"

record block_iter =
  bi_ucmp :: "slice \<Rightarrow> slice \<Rightarrow> int"
  bi_data :: "slice option"
  bi_num_restarts :: nat
  bi_restart_index :: nat
  bi_restarts :: nat
  bi_current :: nat
  bi_raw_key :: IterKey
  bi_key_buf :: IterKey
  bi_value :: "(nat \<times> nat) option"
  bi_status :: status
  bi_key :: slice
  bi_global_seqno :: u64
  bi_ts_sz :: nat
  bi_pad_min_timestamp :: bool
  bi_kv_checksum :: slice
  bi_cur_entry_idx :: int
  bi_block_restart_interval :: nat
  bi_protection_bytes_per_key :: nat
  bi_prev_entries_keys_buff :: slice
  bi_prev_entries :: "CachedPrevEntry list"
  bi_prev_entries_idx :: int
  bi_hash_index :: "u16 option"

definition Valid :: "block_iter \<Rightarrow> bool" where
  "Valid it \<longleftrightarrow> bi_current it < bi_restarts it"

text \<open>The bytes at an offset, if the block has them.\<close>

definition block_bytes :: "block_iter \<Rightarrow> nat \<Rightarrow> nat \<Rightarrow> slice option" where
  "block_bytes it off n = do {
     data \<leftarrow> bi_data it;
     if off + n \<le> length data then Some (take n (drop off data)) else None
   }"

definition value_slice :: "block_iter \<Rightarrow> slice option" where
  "value_slice it = do { (off, n) \<leftarrow> bi_value it; block_bytes it off n }"

definition NextEntryOffset :: "block_iter \<Rightarrow> nat option" where
  "NextEntryOffset it = do { (off, n) \<leftarrow> bi_value it; Some (off + n) }"

definition GetRestartPoint :: "block_iter \<Rightarrow> nat \<Rightarrow> nat option" where
  "GetRestartPoint it index = do {
     bytes \<leftarrow> block_bytes it (bi_restarts it + index * 4) 4;
     Some (unat (DecodeFixed32 bytes))
   }"

definition SeekToRestartPoint :: "nat \<Rightarrow> block_iter \<Rightarrow> block_iter option" where
  "SeekToRestartPoint index it = do {
     let it = it\<lparr>bi_raw_key := IterKey_Clear (bi_raw_key it), bi_restart_index := index\<rparr>;
     offset \<leftarrow> GetRestartPoint it index;
     Some (it\<lparr>bi_value := Some (offset, 0)\<rparr>)
   }"

definition CorruptionError :: "string \<Rightarrow> block_iter \<Rightarrow> block_iter" where
  "CorruptionError error_msg it =
     it\<lparr>bi_current := bi_restarts it, bi_restart_index := bi_num_restarts it,
        bi_status := Status_Corruption error_msg, bi_raw_key := IterKey_Clear (bi_raw_key it), bi_value := None\<rparr>"

text \<open>The message without the offset and the index of the entry.\<close>

definition PerKVChecksumCorruptionError :: "block_iter \<Rightarrow> block_iter" where
  "PerKVChecksumCorruptionError it =
     CorruptionError ''Corrupted block entry: per key-value checksum verification failed.'' it"

definition UpdateRawKeyAndMaybePadMinTimestamp :: "slice \<Rightarrow> block_iter \<Rightarrow> block_iter" where
  "UpdateRawKeyAndMaybePadMinTimestamp key it =
     (if bi_pad_min_timestamp it then
        let buf = (if ik_is_user_key (bi_raw_key it) then AppendKeyWithMinTimestamp [] key (bi_ts_sz it)
                   else PadInternalKeyWithMinTimestamp [] key (bi_ts_sz it))
        in it\<lparr>bi_raw_key := SetKey buf True (bi_raw_key it)\<rparr>
      else it\<lparr>bi_raw_key := SetKey key False (bi_raw_key it)\<rparr>)"

definition CompareCurrentKey :: "slice \<Rightarrow> block_iter \<Rightarrow> int" where
  "CompareCurrentKey other it =
     (if ik_is_user_key (bi_raw_key it) then bi_ucmp it (GetUserKey (bi_raw_key it)) other
      else if bi_global_seqno it = kDisableGlobalSequenceNumber
      then InternalKey_Compare (bi_ucmp it) (GetKey (bi_raw_key it)) other
      else InternalKey_Compare_global (bi_ucmp it) (GetKey (bi_raw_key it)) (bi_global_seqno it) other
             kDisableGlobalSequenceNumber)"

text \<open>The loop that moves \<^verbatim>\<open>restart_index_\<close> up, with \<open>n\<close> the number of restart points behind it.\<close>

primrec advance_restart_index :: "nat \<Rightarrow> block_iter \<Rightarrow> block_iter option" where
  "advance_restart_index 0 it = Some it"
| "advance_restart_index (Suc n) it = do {
     offset \<leftarrow> GetRestartPoint it (bi_restart_index it + 1);
     if offset < bi_current it
     then advance_restart_index n (it\<lparr>bi_restart_index := bi_restart_index it + 1\<rparr>)
     else Some it
   }"

text \<open>Returns the iterator, the result and \<^verbatim>\<open>*is_shared\<close>.\<close>

definition ParseNextKey :: "decode_fn \<Rightarrow> block_iter \<Rightarrow> (block_iter \<times> bool \<times> bool) option" where
  "ParseNextKey dec it = do {
     current \<leftarrow> NextEntryOffset it;
     let it = it\<lparr>bi_current := current\<rparr>;
     data \<leftarrow> bi_data it;
     if bi_restarts it \<le> current then
       Some (it\<lparr>bi_current := bi_restarts it, bi_restart_index := bi_num_restarts it\<rparr>, False, False)
     else do {
       r \<leftarrow> dec data current (bi_restarts it);
       case r of
         None \<Rightarrow> Some (CorruptionError ''bad entry in block'' it, False, False)
       | Some (p, shared, non_shared, value_length) \<Rightarrow>
           if ik_key_size (bi_raw_key it) < unat shared then
             Some (CorruptionError ''bad entry in block'' it, False, False)
           else do {
             delta \<leftarrow> block_bytes it p (unat non_shared);
             let it = (if shared = 0 then UpdateRawKeyAndMaybePadMinTimestamp delta it
                       else if bi_pad_min_timestamp it
                       then it\<lparr>bi_raw_key := TrimAppendWithTimestamp (unat shared) delta (bi_ts_sz it) (bi_raw_key it)\<rparr>
                       else it\<lparr>bi_raw_key := TrimAppend (unat shared) delta (bi_raw_key it)\<rparr>);
             let it = it\<lparr>bi_value := Some (p + unat non_shared, unat value_length)\<rparr>;
             it \<leftarrow> (if shared = 0 then advance_restart_index (bi_num_restarts it - 1 - bi_restart_index it) it
                    else Some it);
             Some (it, True, shared \<noteq> 0)
           }
     }
   }"

definition UpdateKey :: "np_hash \<Rightarrow> block_iter \<Rightarrow> block_iter option" where
  "UpdateKey hash it =
     (let it = it\<lparr>bi_key_buf := IterKey_Clear (bi_key_buf it)\<rparr> in
      if \<not> Valid it then Some it
      else
        let it =
          (if ik_is_user_key (bi_raw_key it) then it\<lparr>bi_key := GetUserKey (bi_raw_key it)\<rparr>
           else if bi_global_seqno it = kDisableGlobalSequenceNumber then it\<lparr>bi_key := GetKey (bi_raw_key it)\<rparr>
           else
             let key_buf = SetInternalKey_parts [] (GetUserKey (bi_raw_key it)) (bi_global_seqno it)
                   (ExtractValueType (GetKey (bi_raw_key it))) None (bi_key_buf it)
             in it\<lparr>bi_key_buf := key_buf, bi_key := GetKey key_buf\<rparr>)
        in
        if bi_protection_bytes_per_key it > 0 then do {
          value \<leftarrow> value_slice it;
          if ProtectionInfo_Verify (ProtectKV hash 0 (GetKey (bi_raw_key it)) value) (bi_protection_bytes_per_key it)
               (drop (nat (int (bi_protection_bytes_per_key it) * bi_cur_entry_idx it)) (bi_kv_checksum it))
          then Some it
          else Some (PerKVChecksumCorruptionError it)
        }
        else Some it)"

section \<open>Searching the restart points\<close>

text \<open>\<open>left\<close> and \<open>right\<close> are the signed variables of the loop; the result is \<^const>\<open>None\<close> inside the option when the
  code returns false with a corruption error.\<close>

partial_function (option) binary_seek_loop :: "slice \<Rightarrow> int \<Rightarrow> int \<Rightarrow> bool \<Rightarrow> block_iter \<Rightarrow> (block_iter \<times> (int \<times> bool) option) option" where
  "binary_seek_loop target left right skip_linear_scan it =
     (if left = right then Some (it, Some (left, skip_linear_scan))
      else
        let mid = left + (right - left + 1) div 2 in
        do {
          region_offset \<leftarrow> GetRestartPoint it (nat mid);
          data \<leftarrow> bi_data it;
          r \<leftarrow> DecodeKey data region_offset (bi_restarts it);
          case r of
            None \<Rightarrow> Some (CorruptionError ''bad entry in block'' it, None)
          | Some (key_ptr, shared, non_shared) \<Rightarrow>
              if shared \<noteq> 0 then Some (CorruptionError ''bad entry in block'' it, None)
              else do {
                mid_key \<leftarrow> block_bytes it key_ptr (unat non_shared);
                let it = UpdateRawKeyAndMaybePadMinTimestamp mid_key it;
                let cmp = CompareCurrentKey target it;
                if cmp < 0 then binary_seek_loop target mid right skip_linear_scan it
                else if cmp > 0 then binary_seek_loop target left (mid - 1) skip_linear_scan it
                else Some (it, Some (mid, True))
              }
        })"

text \<open>The result: \<^verbatim>\<open>*index\<close> and \<^verbatim>\<open>*skip_linear_scan\<close>, or \<^const>\<open>None\<close> for \<^verbatim>\<open>false\<close>.\<close>

definition BinarySeek :: "slice \<Rightarrow> block_iter \<Rightarrow> (block_iter \<times> (nat \<times> bool) option) option" where
  "BinarySeek target it =
     (if bi_restarts it = 0 then Some (it, None)
      else do {
        (it, r) \<leftarrow> binary_seek_loop target (- 1) (int (bi_num_restarts it) - 1) False it;
        case r of
          None \<Rightarrow> Some (it, None)
        | Some (left, skip_linear_scan) \<Rightarrow>
            if left = - 1 then Some (it, Some (0, True))
            else Some (it, Some (nat left, skip_linear_scan))
      })"

section \<open>Positioning\<close>

definition NextImpl :: "decode_fn \<Rightarrow> block_iter \<Rightarrow> block_iter option" where
  "NextImpl dec it = do {
     (it, ok, is_shared) \<leftarrow> ParseNextKey dec it;
     Some (it\<lparr>bi_cur_entry_idx := bi_cur_entry_idx it + 1\<rparr>)
   }"

partial_function (option) linear_scan :: "decode_fn \<Rightarrow> slice \<Rightarrow> nat option \<Rightarrow> block_iter \<Rightarrow> block_iter option" where
  "linear_scan dec target max_offset it = do {
     it \<leftarrow> NextImpl dec it;
     if \<not> Valid it then Some it
     else if Some (bi_current it) = max_offset then Some it
     else if CompareCurrentKey target it \<ge> 0 then Some it
     else linear_scan dec target max_offset it
   }"

text \<open>\<open>max_offset\<close> is \<^const>\<open>None\<close> where the code uses the largest 32-bit value.\<close>

definition FindKeyAfterBinarySeek :: "decode_fn \<Rightarrow> slice \<Rightarrow> nat \<Rightarrow> bool \<Rightarrow> block_iter \<Rightarrow> block_iter option" where
  "FindKeyAfterBinarySeek dec target index skip_linear_scan it = do {
     it \<leftarrow> SeekToRestartPoint index it;
     let it = it\<lparr>bi_cur_entry_idx := int (index * bi_block_restart_interval it) - 1\<rparr>;
     it \<leftarrow> NextImpl dec it;
     if skip_linear_scan then Some it
     else do {
       max_offset \<leftarrow> (if index + 1 < bi_num_restarts it then map_option Some (GetRestartPoint it (index + 1))
                      else Some None);
       linear_scan dec target max_offset it
     }
   }"

definition SeekImpl :: "decode_fn \<Rightarrow> slice \<Rightarrow> block_iter \<Rightarrow> block_iter option" where
  "SeekImpl dec target it =
     (if bi_data it = None then Some it
      else do {
        (it, r) \<leftarrow> BinarySeek target it;
        case r of None \<Rightarrow> Some it
        | Some (index, skip_linear_scan) \<Rightarrow> FindKeyAfterBinarySeek dec target index skip_linear_scan it
      })"

definition SeekToFirstImpl :: "decode_fn \<Rightarrow> block_iter \<Rightarrow> block_iter option" where
  "SeekToFirstImpl dec it =
     (if bi_data it = None then Some it
      else do {
        it \<leftarrow> SeekToRestartPoint 0 it;
        (it, ok, is_shared) \<leftarrow> ParseNextKey dec it;
        Some (it\<lparr>bi_cur_entry_idx := 0\<rparr>)
      })"

partial_function (option) skip_to_last :: "decode_fn \<Rightarrow> block_iter \<Rightarrow> block_iter option" where
  "skip_to_last dec it = do {
     (it, ok, is_shared) \<leftarrow> ParseNextKey dec it;
     if \<not> ok then Some it
     else do {
       next_offset \<leftarrow> NextEntryOffset it;
       if next_offset < bi_restarts it
       then skip_to_last dec (it\<lparr>bi_cur_entry_idx := bi_cur_entry_idx it + 1\<rparr>)
       else Some it
     }
   }"

definition SeekToLastImpl :: "decode_fn \<Rightarrow> block_iter \<Rightarrow> block_iter option" where
  "SeekToLastImpl dec it =
     (if bi_data it = None then Some it
      else do {
        it \<leftarrow> SeekToRestartPoint (bi_num_restarts it - 1) it;
        let it = it\<lparr>bi_cur_entry_idx := int ((bi_num_restarts it - 1) * bi_block_restart_interval it)\<rparr>;
        skip_to_last dec it
      })"

text \<open>The scan for a restart point before \<open>original\<close>; \<^const>\<open>None\<close> inside when there is none.\<close>

primrec scan_back :: "nat \<Rightarrow> block_iter \<Rightarrow> nat \<Rightarrow> nat option option" where
  "scan_back original it 0 = do {
     offset \<leftarrow> GetRestartPoint it 0;
     Some (if original \<le> offset then None else Some 0)
   }"
| "scan_back original it (Suc index) = do {
     offset \<leftarrow> GetRestartPoint it (Suc index);
     if original \<le> offset then scan_back original it index else Some (Some (Suc index))
   }"

definition no_more_entries :: "block_iter \<Rightarrow> block_iter" where
  "no_more_entries it = it\<lparr>bi_current := bi_restarts it, bi_restart_index := bi_num_restarts it\<rparr>"

partial_function (option) parse_until :: "decode_fn \<Rightarrow> nat \<Rightarrow> block_iter \<Rightarrow> block_iter option" where
  "parse_until dec original it = do {
     (it, ok, is_shared) \<leftarrow> ParseNextKey dec it;
     if \<not> ok then Some it
     else do {
       next_offset \<leftarrow> NextEntryOffset it;
       if next_offset < original then parse_until dec original it else Some it
     }
   }"

text \<open>\<^verbatim>\<open>MetaBlockIter::PrevImpl\<close>. When there is no restart point before the current entry, the scan has moved
  \<^verbatim>\<open>restart_index_\<close> to zero before it is set to the end.\<close>

definition MetaBlockIter_PrevImpl :: "decode_fn \<Rightarrow> block_iter \<Rightarrow> block_iter option" where
  "MetaBlockIter_PrevImpl dec it = do {
     let original = bi_current it;
     r \<leftarrow> scan_back original it (bi_restart_index it);
     case r of
       None \<Rightarrow> Some (no_more_entries it)
     | Some index \<Rightarrow> do {
         it \<leftarrow> SeekToRestartPoint index it;
         it \<leftarrow> parse_until dec original it;
         Some (it\<lparr>bi_cur_entry_idx := bi_cur_entry_idx it - 1\<rparr>)
       }
   }"

section \<open>DataBlockIter\<close>

definition cache_entry :: "block_iter \<Rightarrow> block_iter option" where
  "cache_entry it = do {
     value \<leftarrow> bi_value it;
     let current_key = GetKey (bi_raw_key it);
     if IsKeyPinned (bi_raw_key it) then
       Some (it\<lparr>bi_prev_entries := bi_prev_entries it @
         [\<lparr>cp_offset = bi_current it, cp_key_in_block = Some current_key, cp_key_offset = 0,
           cp_key_size = length current_key, cp_value = value\<rparr>]\<rparr>)
     else
       let new_key_offset = length (bi_prev_entries_keys_buff it) in
       Some (it\<lparr>bi_prev_entries_keys_buff := bi_prev_entries_keys_buff it @ current_key,
         bi_prev_entries := bi_prev_entries it @
         [\<lparr>cp_offset = bi_current it, cp_key_in_block = None, cp_key_offset = new_key_offset,
           cp_key_size = length current_key, cp_value = value\<rparr>]\<rparr>)
   }"

partial_function (option) parse_and_cache :: "nat \<Rightarrow> block_iter \<Rightarrow> block_iter option" where
  "parse_and_cache original it = do {
     (it, ok, is_shared) \<leftarrow> ParseNextKey DecodeEntry it;
     if \<not> ok then Some it
     else do {
       it \<leftarrow> cache_entry it;
       next_offset \<leftarrow> NextEntryOffset it;
       if next_offset < original then parse_and_cache original it else Some it
     }
   }"

definition cached_key :: "CachedPrevEntry \<Rightarrow> block_iter \<Rightarrow> slice" where
  "cached_key e it =
     (case cp_key_in_block e of Some key \<Rightarrow> key
      | None \<Rightarrow> take (cp_key_size e) (drop (cp_key_offset e) (bi_prev_entries_keys_buff it)))"

definition clear_prev_cache :: "block_iter \<Rightarrow> block_iter" where
  "clear_prev_cache it = it\<lparr>bi_prev_entries_idx := - 1, bi_prev_entries := [], bi_prev_entries_keys_buff := []\<rparr>"

definition DataBlockIter_PrevImpl :: "block_iter \<Rightarrow> block_iter option" where
  "DataBlockIter_PrevImpl it =
     (let it = it\<lparr>bi_cur_entry_idx := bi_cur_entry_idx it - 1\<rparr>;
          idx = bi_prev_entries_idx it
      in
      if 0 < idx \<and> cp_offset (bi_prev_entries it ! nat idx) = bi_current it then
        let e = bi_prev_entries it ! nat (idx - 1)
        in Some (it\<lparr>bi_prev_entries_idx := idx - 1, bi_current := cp_offset e,
             bi_raw_key := SetKey (cached_key e it) (cp_key_in_block e = None) (bi_raw_key it),
             bi_value := Some (cp_value e)\<rparr>)
      else do {
        let it = clear_prev_cache it;
        let original = bi_current it;
        r \<leftarrow> scan_back original it (bi_restart_index it);
        case r of
          None \<Rightarrow> Some (no_more_entries it)
        | Some index \<Rightarrow> do {
            it \<leftarrow> SeekToRestartPoint index it;
            it \<leftarrow> parse_and_cache original it;
            Some (it\<lparr>bi_prev_entries_idx := int (length (bi_prev_entries it)) - 1\<rparr>)
          }
      })"

partial_function (option) back_until :: "(block_iter \<Rightarrow> block_iter option) \<Rightarrow> slice \<Rightarrow> block_iter \<Rightarrow> block_iter option" where
  "back_until prev target it =
     (if Valid it \<and> CompareCurrentKey target it > 0 then do { it \<leftarrow> prev it; back_until prev target it }
      else Some it)"

definition SeekForPrevImpl ::
  "decode_fn \<Rightarrow> (block_iter \<Rightarrow> block_iter option) \<Rightarrow> slice \<Rightarrow> block_iter \<Rightarrow> block_iter option" where
  "SeekForPrevImpl dec prev target it =
     (if bi_data it = None then Some it
      else do {
        (it, r) \<leftarrow> BinarySeek target it;
        case r of None \<Rightarrow> Some it
        | Some (index, skip_linear_scan) \<Rightarrow> do {
            it \<leftarrow> FindKeyAfterBinarySeek dec target index skip_linear_scan it;
            if \<not> Valid it then (if ok (bi_status it) then SeekToLastImpl dec it else Some it)
            else back_until prev target it
          }
      })"

partial_function (option) hash_scan :: "slice \<Rightarrow> nat \<Rightarrow> block_iter \<Rightarrow> block_iter option" where
  "hash_scan target limit it =
     (if bi_current it < limit then do {
        let it = it\<lparr>bi_cur_entry_idx := bi_cur_entry_idx it + 1\<rparr>;
        (it, ok, is_shared) \<leftarrow> ParseNextKey DecodeEntry it;
        if \<not> ok \<or> CompareCurrentKey target it \<ge> 0 then Some it else hash_scan target limit it
      }
      else Some it)"

definition SeekForGetImpl :: "(slice \<Rightarrow> u32) \<Rightarrow> u16 \<Rightarrow> slice \<Rightarrow> block_iter \<Rightarrow> (block_iter \<times> bool) option" where
  "SeekForGetImpl GetSliceHash num_buckets target it = do {
     let target_user_key = ExtractUserKey target;
     let map_offset = bi_restarts it + bi_num_restarts it * 4;
     data \<leftarrow> bi_data it;
     entry \<leftarrow> HashIndex_Lookup GetSliceHash num_buckets data map_offset target_user_key;
     if entry = kCollision then do { it \<leftarrow> SeekImpl DecodeEntry target it; Some (it, True) }
     else do {
       let restart_index = unat (if entry = kNoEntry then word_of_nat (bi_num_restarts it - 1) else entry);
       it \<leftarrow> SeekToRestartPoint restart_index it;
       offset \<leftarrow> GetRestartPoint it restart_index;
       let it = it\<lparr>bi_current := offset, bi_cur_entry_idx := int (restart_index * bi_block_restart_interval it) - 1\<rparr>;
       limit \<leftarrow> (if restart_index + 1 < bi_num_restarts it then GetRestartPoint it (restart_index + 1)
                 else Some (bi_restarts it));
       it \<leftarrow> hash_scan target limit it;
       if bi_current it = bi_restarts it then Some (it, True)
       else if bi_ucmp it (GetUserKey (bi_raw_key it)) target_user_key \<noteq> 0 then Some (it, False)
       else
         let value_type = ExtractValueType (GetKey (bi_raw_key it)) in
         if value_type \<notin> {kTypeValue, kTypeDeletion, kTypeMerge, kTypeSingleDeletion, kTypeBlobIndex, kTypeWideColumnEntity}
         then do { it \<leftarrow> SeekImpl DecodeEntry target it; Some (it, True) }
         else Some (it, True)
     }
   }"

text \<open>The public operations: each positions and then prepares the key.\<close>

definition DataBlockIter_Seek :: "np_hash \<Rightarrow> slice \<Rightarrow> block_iter \<Rightarrow> block_iter option" where
  "DataBlockIter_Seek hash target it = do { it \<leftarrow> SeekImpl DecodeEntry target it; UpdateKey hash it }"

definition DataBlockIter_SeekForPrev :: "np_hash \<Rightarrow> slice \<Rightarrow> block_iter \<Rightarrow> block_iter option" where
  "DataBlockIter_SeekForPrev hash target it = do {
     it \<leftarrow> SeekForPrevImpl DecodeEntry DataBlockIter_PrevImpl target it; UpdateKey hash it }"

definition DataBlockIter_SeekToFirst :: "np_hash \<Rightarrow> block_iter \<Rightarrow> block_iter option" where
  "DataBlockIter_SeekToFirst hash it = do { it \<leftarrow> SeekToFirstImpl DecodeEntry it; UpdateKey hash it }"

definition DataBlockIter_SeekToLast :: "np_hash \<Rightarrow> block_iter \<Rightarrow> block_iter option" where
  "DataBlockIter_SeekToLast hash it = do { it \<leftarrow> SeekToLastImpl DecodeEntry it; UpdateKey hash it }"

definition DataBlockIter_Next :: "np_hash \<Rightarrow> block_iter \<Rightarrow> block_iter option" where
  "DataBlockIter_Next hash it = do { it \<leftarrow> NextImpl DecodeEntry it; UpdateKey hash it }"

definition DataBlockIter_Prev :: "np_hash \<Rightarrow> block_iter \<Rightarrow> block_iter option" where
  "DataBlockIter_Prev hash it = do { it \<leftarrow> DataBlockIter_PrevImpl it; UpdateKey hash it }"

text \<open>The same for either kind of iterator: the public calls of \<^verbatim>\<open>BlockIter\<close>.\<close>

datatype cursor_call = SeekToFirst | SeekToLast | Seek slice | SeekForPrev slice | Next | Prev

definition cursor_step ::
  "decode_fn \<Rightarrow> (block_iter \<Rightarrow> block_iter option) \<Rightarrow> np_hash \<Rightarrow> cursor_call \<Rightarrow> block_iter \<Rightarrow> block_iter option" where
  "cursor_step dec prev hash call it = do {
     it \<leftarrow> (case call of
         SeekToFirst \<Rightarrow> SeekToFirstImpl dec it
       | SeekToLast \<Rightarrow> SeekToLastImpl dec it
       | Seek target \<Rightarrow> SeekImpl dec target it
       | SeekForPrev target \<Rightarrow> SeekForPrevImpl dec prev target it
       | Next \<Rightarrow> NextImpl dec it
       | Prev \<Rightarrow> prev it);
     UpdateKey hash it
   }"

fun cursor_run ::
  "decode_fn \<Rightarrow> (block_iter \<Rightarrow> block_iter option) \<Rightarrow> np_hash \<Rightarrow> cursor_call list \<Rightarrow> block_iter \<Rightarrow> block_iter option" where
  "cursor_run dec prev hash [] it = Some it"
| "cursor_run dec prev hash (call # calls) it = do { it \<leftarrow> cursor_step dec prev hash call it; cursor_run dec prev hash calls it }"

definition DataBlockIter_SeekForGet :: "np_hash \<Rightarrow> (slice \<Rightarrow> u32) \<Rightarrow> slice \<Rightarrow> block_iter \<Rightarrow> (block_iter \<times> bool) option" where
  "DataBlockIter_SeekForGet hash GetSliceHash target it =
     (case bi_hash_index it of
        None \<Rightarrow> do { it \<leftarrow> SeekImpl DecodeEntry target it; it \<leftarrow> UpdateKey hash it; Some (it, True) }
      | Some num_buckets \<Rightarrow> do {
          (it, res) \<leftarrow> SeekForGetImpl GetSliceHash num_buckets target it;
          it \<leftarrow> UpdateKey hash it;
          Some (it, res)
        })"

section \<open>Block\<close>

record Block =
  blk_data :: slice
  blk_size :: nat
  blk_restart_offset :: u32
  blk_num_restarts :: u32
  blk_num_buckets :: u16
  blk_kv_checksum :: slice
  blk_block_restart_interval :: nat
  blk_protection_bytes_per_key :: nat

definition block_footer :: "Block \<Rightarrow> u32" where
  "block_footer b = DecodeFixed32 (drop (blk_size b - 4) (blk_data b))"

definition NumRestarts :: "Block \<Rightarrow> u32" where
  "NumRestarts b =
     (if blk_size b > kMaxBlockSizeSupportedByHashIndex then block_footer b
      else snd (UnPackIndexTypeAndNumRestarts (block_footer b)))"

definition IndexType :: "Block \<Rightarrow> DataBlockIndexType" where
  "IndexType b =
     (if blk_size b > kMaxBlockSizeSupportedByHashIndex then kDataBlockBinarySearch
      else fst (UnPackIndexTypeAndNumRestarts (block_footer b)))"

text \<open>\<^verbatim>\<open>(1 + num_restarts_)\<close> is a 32-bit sum, the product and the difference are 64 bits wide, and the offset is cut
  to 32 bits when it is stored.\<close>

definition Block_init :: "slice \<Rightarrow> Block" where
  "Block_init contents =
     (let b = \<lparr>blk_data = contents, blk_size = length contents, blk_restart_offset = 0, blk_num_restarts = 0,
               blk_num_buckets = 0, blk_kv_checksum = [], blk_block_restart_interval = 0,
               blk_protection_bytes_per_key = 0\<rparr>
      in
      if blk_size b < 4 then b\<lparr>blk_size := 0\<rparr>
      else
        let b = b\<lparr>blk_num_restarts := NumRestarts b\<rparr> in
        (case IndexType b of
           kDataBlockBinarySearch \<Rightarrow>
             let b = b\<lparr>blk_restart_offset :=
                   ucast (ucast (word_of_nat (blk_size b) :: u32) - ucast (1 + blk_num_restarts b) * 4 :: u64)\<rparr>
             in if unat (blk_restart_offset b) > blk_size b - 4 then b\<lparr>blk_size := 0\<rparr> else b
         | kDataBlockBinaryAndHash \<Rightarrow>
             if blk_size b < 4 + 2 then b\<lparr>blk_size := 0\<rparr>
             else
               let (num_buckets, map_offset) = HashIndex_Initialize (blk_data b) (word_of_nat (blk_size b - 4));
                   b = b\<lparr>blk_num_buckets := num_buckets,
                         blk_restart_offset := ucast (ucast map_offset - ucast (blk_num_restarts b) * 4 :: u64)\<rparr>
               in if ucast map_offset < blk_restart_offset b then b\<lparr>blk_size := 0\<rparr> else b))"

definition block_iter_init :: block_iter where
  "block_iter_init =
     \<lparr>bi_ucmp = \<lambda>_ _. 0, bi_data = None, bi_num_restarts = 0, bi_restart_index = 0, bi_restarts = 0, bi_current = 0,
      bi_raw_key = IterKey_init, bi_key_buf = IterKey_init, bi_value = None, bi_status = Status_OK, bi_key = [],
      bi_global_seqno = 0, bi_ts_sz = 0, bi_pad_min_timestamp = False, bi_kv_checksum = [], bi_cur_entry_idx = 0,
      bi_block_restart_interval = 0, bi_protection_bytes_per_key = 0, bi_prev_entries_keys_buff = [],
      bi_prev_entries = [], bi_prev_entries_idx = - 1, bi_hash_index = None\<rparr>"

definition Invalidate :: "status \<Rightarrow> block_iter \<Rightarrow> block_iter" where
  "Invalidate s it =
     clear_prev_cache (it\<lparr>bi_data := None, bi_current := bi_restarts it, bi_status := s\<rparr>)"

definition InitializeBase ::
  "(slice \<Rightarrow> slice \<Rightarrow> int) \<Rightarrow> nat \<Rightarrow> slice \<Rightarrow> nat \<Rightarrow> nat \<Rightarrow> u64 \<Rightarrow> bool \<Rightarrow> nat \<Rightarrow> slice \<Rightarrow> nat \<Rightarrow> block_iter \<Rightarrow> block_iter" where
  "InitializeBase raw_ucmp ts_sz data restarts num_restarts global_seqno user_defined_timestamp_persisted
       protection_bytes_per_key kv_checksum block_restart_interval it =
     it\<lparr>bi_ucmp := raw_ucmp, bi_data := Some data, bi_restarts := restarts, bi_num_restarts := num_restarts,
        bi_current := restarts, bi_restart_index := num_restarts, bi_global_seqno := global_seqno, bi_ts_sz := ts_sz,
        bi_pad_min_timestamp := (ts_sz > 0 \<and> \<not> user_defined_timestamp_persisted),
        bi_cur_entry_idx := - 1, bi_protection_bytes_per_key := protection_bytes_per_key,
        bi_kv_checksum := kv_checksum, bi_block_restart_interval := block_restart_interval\<rparr>"

definition DataBlockIter_Initialize ::
  "(slice \<Rightarrow> slice \<Rightarrow> int) \<Rightarrow> nat \<Rightarrow> slice \<Rightarrow> nat \<Rightarrow> nat \<Rightarrow> u64 \<Rightarrow> bool \<Rightarrow> u16 option \<Rightarrow> nat \<Rightarrow> slice \<Rightarrow> nat \<Rightarrow>
   block_iter \<Rightarrow> block_iter" where
  "DataBlockIter_Initialize raw_ucmp ts_sz data restarts num_restarts global_seqno user_defined_timestamps_persisted
       hash_index protection_bytes_per_key kv_checksum block_restart_interval it =
     (let it = InitializeBase raw_ucmp ts_sz data restarts num_restarts global_seqno user_defined_timestamps_persisted
                 protection_bytes_per_key kv_checksum block_restart_interval it
      in it\<lparr>bi_raw_key := SetIsUserKey False (bi_raw_key it), bi_hash_index := hash_index\<rparr>)"

definition NewDataIterator :: "(slice \<Rightarrow> slice \<Rightarrow> int) \<Rightarrow> nat \<Rightarrow> u64 \<Rightarrow> bool \<Rightarrow> Block \<Rightarrow> block_iter" where
  "NewDataIterator raw_ucmp ts_sz global_seqno user_defined_timestamps_persisted b =
     (if blk_size b < 2 * 4 then Invalidate (Status_Corruption ''bad block contents'') block_iter_init
      else if blk_num_restarts b = 0 then Invalidate Status_OK block_iter_init
      else DataBlockIter_Initialize raw_ucmp ts_sz (blk_data b) (unat (blk_restart_offset b)) (unat (blk_num_restarts b))
             global_seqno user_defined_timestamps_persisted
             (if blk_num_buckets b \<noteq> 0 then Some (blk_num_buckets b) else None)
             (blk_protection_bytes_per_key b) (blk_kv_checksum b) (blk_block_restart_interval b) block_iter_init)"

definition MetaBlockIter_Initialize :: "slice \<Rightarrow> nat \<Rightarrow> nat \<Rightarrow> nat \<Rightarrow> slice \<Rightarrow> nat \<Rightarrow> block_iter \<Rightarrow> block_iter" where
  "MetaBlockIter_Initialize data restarts num_restarts protection_bytes_per_key kv_checksum block_restart_interval it =
     (let it = InitializeBase Bytewise_Compare 0 data restarts num_restarts kDisableGlobalSequenceNumber True
                 protection_bytes_per_key kv_checksum block_restart_interval it
      in it\<lparr>bi_raw_key := SetIsUserKey True (bi_raw_key it)\<rparr>)"

definition NewMetaIterator :: "Block \<Rightarrow> block_iter" where
  "NewMetaIterator b =
     (if blk_size b < 2 * 4 then Invalidate (Status_Corruption ''bad block contents'') block_iter_init
      else if blk_num_restarts b = 0 then Invalidate Status_OK block_iter_init
      else MetaBlockIter_Initialize (blk_data b) (unat (blk_restart_offset b)) (unat (blk_num_restarts b))
             (blk_protection_bytes_per_key b) (blk_kv_checksum b) (blk_block_restart_interval b) block_iter_init)"

section \<open>Checksums of the entries\<close>

partial_function (option) count_to :: "decode_fn \<Rightarrow> nat \<Rightarrow> nat \<Rightarrow> block_iter \<Rightarrow> (block_iter \<times> nat) option" where
  "count_to dec end_index count it = do {
     offset \<leftarrow> NextEntryOffset it;
     if offset < end_index \<and> ok (bi_status it) then do {
       it \<leftarrow> NextImpl dec it;
       count_to dec end_index (count + 1) it
     }
     else Some (it, count)
   }"

definition GetRestartInterval :: "decode_fn \<Rightarrow> block_iter \<Rightarrow> (block_iter \<times> nat) option" where
  "GetRestartInterval dec it =
     (if bi_num_restarts it \<le> 1 \<or> bi_data it = None then Some (it, 0)
      else do {
        it \<leftarrow> SeekToFirstImpl dec it;
        end_index \<leftarrow> GetRestartPoint it 1;
        count_to dec end_index 1 it
      })"

definition NumberOfKeys :: "decode_fn \<Rightarrow> nat \<Rightarrow> block_iter \<Rightarrow> (block_iter \<times> nat) option" where
  "NumberOfKeys dec block_restart_interval it =
     (if bi_num_restarts it = 0 \<or> bi_data it = None then Some (it, 0)
      else do {
        let count = (bi_num_restarts it - 1) * block_restart_interval;
        it \<leftarrow> SeekToRestartPoint (bi_num_restarts it - 1) it;
        count_to dec (bi_restarts it) count it
      })"

definition GenerateKVChecksum :: "np_hash \<Rightarrow> nat \<Rightarrow> slice \<Rightarrow> slice \<Rightarrow> slice" where
  "GenerateKVChecksum hash checksum_len key value =
     (case ProtectionInfo_Encode (ProtectKV hash 0 key value) checksum_len of None \<Rightarrow> [] | Some c \<Rightarrow> c)"

text \<open>The loop that fills the \<open>checksum_size\<close> bytes of \<^verbatim>\<open>kv_checksum_\<close>, with no check of its own; a write behind them
  is \<^const>\<open>None\<close>. \<^verbatim>\<open>Next\<close> includes \<^verbatim>\<open>UpdateKey\<close>.\<close>

partial_function (option) checksum_entries ::
  "np_hash \<Rightarrow> nat \<Rightarrow> nat \<Rightarrow> slice \<Rightarrow> block_iter \<Rightarrow> (block_iter \<times> slice) option" where
  "checksum_entries hash protection_bytes_per_key checksum_size checksum it =
     (if Valid it then do {
        value \<leftarrow> value_slice it;
        let checksum = checksum @ GenerateKVChecksum hash protection_bytes_per_key (bi_key it) value;
        if checksum_size < length checksum then None
        else do {
          it \<leftarrow> DataBlockIter_Next hash it;
          checksum_entries hash protection_bytes_per_key checksum_size checksum it
        }
      }
      else Some (it, checksum))"

definition InitializeDataBlockProtectionInfo ::
  "np_hash \<Rightarrow> nat \<Rightarrow> (slice \<Rightarrow> slice \<Rightarrow> int) \<Rightarrow> nat \<Rightarrow> Block \<Rightarrow> Block option" where
  "InitializeDataBlockProtectionInfo hash protection_bytes_per_key raw_ucmp ts_sz b =
     (let b = b\<lparr>blk_protection_bytes_per_key := 0\<rparr> in
      if protection_bytes_per_key > 0 \<and> blk_num_restarts b > 0 then do {
        let it = NewDataIterator raw_ucmp ts_sz kDisableGlobalSequenceNumber True b;
        (it, b) \<leftarrow> (if ok (bi_status it) then do {
            (it, interval) \<leftarrow> GetRestartInterval DecodeEntry it;
            Some (it, b\<lparr>blk_block_restart_interval := interval\<rparr>)
          } else Some (it, b));
        (it, num_keys) \<leftarrow> (if ok (bi_status it) then NumberOfKeys DecodeEntry (blk_block_restart_interval b) it
              else Some (it, 0));
        (it, b) \<leftarrow> (if ok (bi_status it) then do {
            it \<leftarrow> DataBlockIter_SeekToFirst hash it;
            (it, checksum) \<leftarrow> checksum_entries hash protection_bytes_per_key
              (num_keys * protection_bytes_per_key) [] it;
            Some (it, b\<lparr>blk_kv_checksum := checksum\<rparr>)
          } else Some (it, b));
        if ok (bi_status it) then Some (b\<lparr>blk_protection_bytes_per_key := protection_bytes_per_key\<rparr>)
        else Some (b\<lparr>blk_size := 0\<rparr>)
      }
      else Some b)"

end
