(* ===== verification/Block_Layout.thy ===== *)
theory Block_Layout
  imports Block_Iter
begin

unbundle bit_operations_syntax

text \<open>
  The bytes of a block as a list of entries: offsets, what the decoders return at the offset of an entry, and
  the restart array. \<open>lay_data L R tail\<close> is the block with entries \<open>L\<close>, restart points at the entries \<open>R\<close> and the
  bytes \<open>tail\<close> behind the restart array (hash index and footer).
\<close>

section \<open>Layout of a block\<close>

text \<open>An entry of a block: how many bytes it shares with its predecessor, its key as persisted, its value.\<close>

type_synonym entry = "nat \<times> slice \<times> slice"

abbreviation e_shared :: "entry \<Rightarrow> nat" where "e_shared e \<equiv> fst e"
abbreviation e_key :: "entry \<Rightarrow> slice" where "e_key e \<equiv> fst (snd e)"
abbreviation e_val :: "entry \<Rightarrow> slice" where "e_val e \<equiv> snd (snd e)"

definition e_head :: "entry \<Rightarrow> slice" where
  "e_head e = EncodeVarint32 (word_of_nat (e_shared e)) @ EncodeVarint32 (word_of_nat (length (e_key e) - e_shared e)) @
     EncodeVarint32 (word_of_nat (length (e_val e)))"

definition e_bytes :: "entry \<Rightarrow> slice" where
  "e_bytes e = e_head e @ drop (e_shared e) (e_key e) @ e_val e"

definition off :: "entry list \<Rightarrow> nat \<Rightarrow> nat" where
  "off L i = length (concat (map e_bytes (take i L)))"

definition entries_ok :: "entry list \<Rightarrow> bool" where
  "entries_ok L \<longleftrightarrow> (\<forall>i < length L. e_shared (L ! i) \<le> length (e_key (L ! i)) \<and>
     (e_shared (L ! i) \<noteq> 0 \<longrightarrow> 0 < i \<and> e_shared (L ! i) \<le> length (e_key (L ! (i - 1))) \<and>
        take (e_shared (L ! i)) (e_key (L ! i)) = take (e_shared (L ! i)) (e_key (L ! (i - 1)))))"

definition restarts_ok :: "entry list \<Rightarrow> nat list \<Rightarrow> bool" where
  "restarts_ok L R \<longleftrightarrow> R \<noteq> [] \<and> R ! 0 = 0 \<and> sorted_wrt (<) R \<and>
     (if L = [] then R = [0] else \<forall>r \<in> set R. r < length L \<and> e_shared (L ! r) = 0)"

definition lay_data :: "entry list \<Rightarrow> nat list \<Rightarrow> slice \<Rightarrow> slice" where
  "lay_data L R tail = concat (map e_bytes L) @ concat (map (\<lambda>r. EncodeFixed32 (word_of_nat (off L r))) R) @ tail"

lemma off_0 [simp]: "off L 0 = 0"
  by (simp add: off_def)

lemma off_length: "off L (length L) = length (concat (map e_bytes L))"
  by (simp add: off_def)

lemma off_Suc: "i < length L \<Longrightarrow> off L (Suc i) = off L i + length (e_bytes (L ! i))"
  by (simp add: off_def take_Suc_conv_app_nth)

lemma EncodeVarint32_cases:
  "EncodeVarint32 v = (if v < 128 then [ucast v] else ucast (v OR 128) # EncodeVarint64 (ucast (drop_bit 7 v)))"
  by (simp add: EncodeVarint32_loop EncodeVarint64_step32)

lemma length_EncodeVarint32_pos: "1 \<le> length (EncodeVarint32 w)"
  by (simp add: EncodeVarint32_cases)

lemma length_e_head: "3 \<le> length (e_head e)"
  using add_mono [OF length_EncodeVarint32_pos add_mono [OF length_EncodeVarint32_pos length_EncodeVarint32_pos],
      of "word_of_nat (e_shared e)" "word_of_nat (length (e_key e) - e_shared e)" "word_of_nat (length (e_val e))"]
  by (simp add: e_head_def)

lemma length_e_bytes: "e_shared e \<le> length (e_key e) \<Longrightarrow>
    length (e_bytes e) = length (e_head e) + (length (e_key e) - e_shared e) + length (e_val e)"
  by (simp add: e_bytes_def)

lemma off_less: "i < j \<Longrightarrow> j \<le> length L \<Longrightarrow> off L i + 3 \<le> off L j"
proof (induction j)
  case (Suc j)
  have "3 \<le> length (e_bytes (L ! j))" using length_e_head [of "L ! j"] by (simp add: e_bytes_def)
  with Suc show ?case by (cases "i = j") (auto simp: off_Suc)
qed simp

lemma off_mono: "i \<le> j \<Longrightarrow> j \<le> length L \<Longrightarrow> off L i \<le> off L j"
  using off_less [of i j L] by (cases "i = j") auto

lemma off_less_iff: "i \<le> length L \<Longrightarrow> j \<le> length L \<Longrightarrow> off L i < off L j \<longleftrightarrow> i < j"
  using off_less [of i j L] off_mono [of j i L] by (cases "i < j") auto

lemma off_eq_iff: "i \<le> length L \<Longrightarrow> j \<le> length L \<Longrightarrow> off L i = off L j \<longleftrightarrow> i = j"
  using off_less_iff [of i L j] off_less_iff [of j L i] by (cases i j rule: linorder_cases) auto

lemma off_le_iff: "i \<le> length L \<Longrightarrow> j \<le> length L \<Longrightarrow> off L i \<le> off L j \<longleftrightarrow> i \<le> j"
  using off_less_iff [of j L i] by (simp add: not_less [symmetric])

text \<open>The bytes at the offset of an entry.\<close>

lemma concat_split:
  assumes "i < length xs"
  shows "concat (map f xs) = concat (map f (take i xs)) @ f (xs ! i) @ concat (map f (drop (Suc i) xs))"
  using arg_cong [OF id_take_nth_drop [OF assms], of "\<lambda>ys. concat (map f ys)"] by simp

lemma drop_off_data:
  assumes "i < length L"
  obtains rest where "lay_data L R tail = concat (map e_bytes (take i L)) @ e_bytes (L ! i) @ rest"
    "off L i = length (concat (map e_bytes (take i L)))"
proof
  show "lay_data L R tail = concat (map e_bytes (take i L)) @ e_bytes (L ! i) @
     (concat (map e_bytes (drop (Suc i) L)) @ concat (map (\<lambda>r. EncodeFixed32 (word_of_nat (off L r))) R) @ tail)"
    unfolding lay_data_def using concat_split [OF assms, of e_bytes] by simp
qed (simp add: off_def)

lemma length_restart_array: "length (concat (map (\<lambda>r. EncodeFixed32 (word_of_nat (off L r))) R)) = 4 * length R"
  by (induction R) simp_all

lemma length_lay_data: "length (lay_data L R tail) = off L (length L) + 4 * length R + length tail"
  by (simp only: lay_data_def off_length length_append length_restart_array add.assoc)

lemma take_drop_append: "take (length b) (drop (length a) (a @ b @ c)) = b"
  by simp

lemma lay_restart_point:
  assumes "j < length R"
  shows "take 4 (drop (off L (length L) + j * 4) (lay_data L R tail)) = EncodeFixed32 (word_of_nat (off L (R ! j)))"
proof -
  let ?f = "\<lambda>r. EncodeFixed32 (word_of_nat (off L r))"
  let ?a = "concat (map e_bytes L) @ concat (map ?f (take j R))"
  have "lay_data L R tail = ?a @ ?f (R ! j) @ (concat (map ?f (drop (Suc j) R)) @ tail)"
    unfolding lay_data_def using concat_split [OF assms, of ?f] by simp
  moreover have "length ?a = off L (length L) + j * 4"
    using assms by (simp only: length_append off_length length_restart_array length_take min_absorb2 less_imp_le mult.commute)
  moreover have "length (?f (R ! j)) = 4" by simp
  ultimately show ?thesis using take_drop_append [of "?f (R ! j)" ?a] by metis
qed

section \<open>Decoding an entry\<close>

lemma low_byte: "v < 128 \<Longrightarrow> (ucast (ucast v :: byte) :: u32) = v"
proof -
  assume "v < 128"
  then have "unat v < 2 ^ 8" by (simp add: word_less_nat_alt)
  then show ?thesis by (simp add: word_unat_eq_iff unsigned_ucast_eq take_bit_nat_eq_self unsigned_take_bit_eq)
qed

lemma high_byte: "bit (ucast (ucast (v OR 128 :: u32) :: byte) :: u32) 7"
  by (simp add: bit_simps)

lemma less_128_iff: "(v :: u32) < 128 \<longleftrightarrow> drop_bit 7 v = 0"
  by (auto simp: word_unat_eq_iff unat_drop_bit_div word_less_nat_alt div_eq_0_iff)

lemma less_128_bit: "(v :: u32) < 128 \<Longrightarrow> \<not> bit v 7"
proof -
  assume "v < 128"
  then have "\<not> bit (drop_bit 7 v) 0" by (simp add: less_128_iff)
  then show ?thesis by (simp add: bit_simps)
qed

lemma decode_varints_head:
  assumes "take (limit - p) (drop p data) = EncodeVarint32 a @ EncodeVarint32 b @ EncodeVarint32 c @ rest"
    and "limit \<le> length data" "p \<le> limit"
  shows "decode_varints data p limit =
    Some (Some (p + length (EncodeVarint32 a @ EncodeVarint32 b @ EncodeVarint32 c), a, b, c))"
proof -
  have "GetVarint32Ptr (EncodeVarint32 v @ r) = Some (v, r)" for v r
    using GetVarint32_Encode [of v r] by (simp add: GetVarint32_def)
  moreover have "limit - length rest = p + length (EncodeVarint32 a @ EncodeVarint32 b @ EncodeVarint32 c)"
    using arg_cong [OF assms(1), of length] assms(2,3) by simp
  ultimately show ?thesis by (simp add: decode_varints_def assms(1))
qed

text \<open>The three first bytes agree with the varints when all of them are below 128, and have the high bit otherwise.\<close>

lemma first_byte:
  assumes "drop p data = EncodeVarint32 v @ rest"
  shows "p < length data" and "v < 128 \<Longrightarrow> ucast (data ! p) = v \<and> drop (Suc p) data = rest"
    and "\<not> v < 128 \<Longrightarrow> bit (ucast (data ! p) :: u32) 7"
proof -
  have c: "EncodeVarint32 v \<noteq> []" using length_EncodeVarint32_pos [of v] by auto
  then show p: "p < length data" using assms by (metis append_is_Nil_conv drop_all leI)
  have d: "data ! p # drop (Suc p) data = EncodeVarint32 v @ rest" using Cons_nth_drop_Suc [OF p] assms by simp
  show "ucast (data ! p) = v \<and> drop (Suc p) data = rest" if "v < 128"
    using d that by (simp add: EncodeVarint32_cases low_byte)
  show "bit (ucast (data ! p) :: u32) 7" if "\<not> v < 128"
    using d that high_byte [of v] by (simp add: EncodeVarint32_cases)
qed

lemma DecodeEntry_head:
  assumes d: "drop p data = EncodeVarint32 a @ EncodeVarint32 b @ EncodeVarint32 c @ rest"
    and l: "p + length (EncodeVarint32 a @ EncodeVarint32 b @ EncodeVarint32 c) \<le> limit" "limit \<le> length data"
  shows "DecodeEntry data p limit =
    Some (Some (p + length (EncodeVarint32 a @ EncodeVarint32 b @ EncodeVarint32 c), a, b, c))"
proof -
  note v1 = first_byte [OF d]
  let ?n = "length (EncodeVarint32 a @ EncodeVarint32 b @ EncodeVarint32 c)"
  have "3 \<le> ?n" using length_EncodeVarint32_pos [of a] length_EncodeVarint32_pos [of b] length_EncodeVarint32_pos [of c]
    by (simp only: length_append)
  then have len: "\<not> length data < p + 3" using l by linarith
  have "take (limit - p) (drop p data) = EncodeVarint32 a @ EncodeVarint32 b @ EncodeVarint32 c @ take (limit - p - ?n) rest"
    using l unfolding d by (simp add: take_append add.assoc)
  from decode_varints_head [OF this l(2)] l(1)
  have slow: "decode_varints data p limit = Some (Some (p + ?n, a, b, c))" by simp
  have or7: "\<not> (x OR y OR z) < 128" if "bit x 7 \<or> bit y 7 \<or> bit z 7" for x y z :: u32
    using less_128_bit [of "x OR y OR z"] that by (auto simp: bit_simps)
  have fast: "(x OR y OR z) < 128" if "x < 128" "y < 128" "z < 128" for x y z :: u32
    using that by (simp add: less_128_iff drop_bit_or)
  show ?thesis
  proof (cases "a < 128 \<and> b < 128 \<and> c < 128")
    case True
    note v2 = first_byte [OF v1(2) [THEN conjunct2]]
    note v3 = first_byte [OF v2(2) [THEN conjunct2]]
    have "?n = 3" using True by (simp add: EncodeVarint32_cases)
    then show ?thesis using True v1(2) v2(2) v3(2) len fast [of a b c] by (simp add: DecodeEntry_def numeral_eq_Suc)
  next
    case False
    then have "bit (ucast (data ! p) :: u32) 7 \<or> bit (ucast (data ! Suc p) :: u32) 7 \<or> bit (ucast (data ! Suc (Suc p)) :: u32) 7"
      using v1 first_byte [OF v1(2) [THEN conjunct2]] first_byte [OF first_byte(2) [OF v1(2) [THEN conjunct2], THEN conjunct2]]
      by blast
    then have "\<not> (ucast (data ! p) OR ucast (data ! Suc p) OR ucast (data ! Suc (Suc p)) :: u32) < 128" by (rule or7)
    then show ?thesis using len slow by (simp add: DecodeEntry_def Let_def)
  qed
qed


lemma word_of_nat_not_less: "b \<le> a \<Longrightarrow> a < 2 ^ 32 \<Longrightarrow> \<not> (word_of_nat a :: u32) < word_of_nat b"
  by (simp add: word_less_nat_alt unat_of_nat)

text \<open>What the iterators need of a decoder, on a block that is laid out as above.\<close>

locale entry_decoder =
  fixes dec :: decode_fn
  assumes dec_entry: "i < length L \<Longrightarrow> entries_ok L \<Longrightarrow> off L (length L) < 2 ^ 32 \<Longrightarrow>
    dec (lay_data L R tail) (off L i) (off L (length L)) =
      Some (Some (off L i + length (e_head (L ! i)), word_of_nat (e_shared (L ! i)),
        word_of_nat (length (e_key (L ! i)) - e_shared (L ! i)), word_of_nat (length (e_val (L ! i)))))"

lemma entry_span:
  assumes "i < length L" "entries_ok L"
  shows "off L (Suc i) = off L i + length (e_head (L ! i)) + (length (e_key (L ! i)) - e_shared (L ! i)) + length (e_val (L ! i))"
    and "off L (Suc i) \<le> off L (length L)"
  using assms off_Suc [OF assms(1)] length_e_bytes [of "L ! i"] off_mono [of "Suc i" "length L" L]
  by (auto simp: entries_ok_def)

lemma DecodeEntry_entry:
  assumes "i < length L" "entries_ok L"
  shows "DecodeEntry (lay_data L R tail) (off L i) (off L (length L)) =
      Some (Some (off L i + length (e_head (L ! i)), word_of_nat (e_shared (L ! i)),
        word_of_nat (length (e_key (L ! i)) - e_shared (L ! i)), word_of_nat (length (e_val (L ! i)))))"
proof -
  obtain rest where "lay_data L R tail = concat (map e_bytes (take i L)) @ e_bytes (L ! i) @ rest"
    "off L i = length (concat (map e_bytes (take i L)))" using drop_off_data [OF assms(1)] .
  then have "drop (off L i) (lay_data L R tail) = e_bytes (L ! i) @ rest" by simp
  then show ?thesis
    unfolding e_head_def
    using entry_span [OF assms] length_lay_data [of L R tail]
    by (intro DecodeEntry_head) (simp_all add: e_bytes_def e_head_def)
qed

interpretation data_decoder: entry_decoder DecodeEntry
  by unfold_locales (rule DecodeEntry_entry)

interpretation meta_decoder: entry_decoder CheckAndDecodeEntry
proof
  fix L :: "entry list" and R tail i
  assume a: "i < length L" "entries_ok L" "off L (length L) < 2 ^ 32"
  let ?q = "off L i + length (e_head (L ! i))" and ?n = "length (e_key (L ! i)) - e_shared (L ! i)" and ?v = "length (e_val (L ! i))"
  note span = entry_span [OF a(1,2)]
  have "off L i + 3 \<le> off L (length L)" using off_less [of i "length L" L] a(1) by simp
  moreover have "\<not> (word_of_nat (off L (length L) - ?q) :: u32) < word_of_nat ?n + word_of_nat ?v"
    unfolding of_nat_add [symmetric] by (rule word_of_nat_not_less) (use span a(3) in linarith)+
  ultimately show "CheckAndDecodeEntry (lay_data L R tail) (off L i) (off L (length L)) =
      Some (Some (?q, word_of_nat (e_shared (L ! i)), word_of_nat ?n, word_of_nat ?v))"
    by (simp add: CheckAndDecodeEntry_def DecodeEntry_entry [OF a(1,2)])
qed

end
