(* ===== verification/Block_Cursor.thy ===== *)
theory Block_Cursor
  imports Block_Layout
begin

unbundle bit_operations_syntax

text \<open>
  The iterators over a block that is laid out as in \<^verbatim>\<open>Block_Layout\<close>: where each positioning operation ends, for every decoder
  that satisfies the contract \<^verbatim>\<open>entry_decoder\<close>.
\<close>

section \<open>An iterator over a block\<close>

text \<open>What positioning leaves alone.\<close>

definition core :: "block_iter \<Rightarrow> block_iter" where
  "core it = it\<lparr>bi_current := 0, bi_raw_key := IterKey_init\<lparr>ik_is_user_key := ik_is_user_key (bi_raw_key it)\<rparr>,
     bi_value := None, bi_restart_index := 0, bi_cur_entry_idx := 0\<rparr>"

definition rkey :: "block_iter \<Rightarrow> slice \<Rightarrow> slice" where
  "rkey it key = (if bi_pad_min_timestamp it then PadInternalKeyWithMinTimestamp [] key (bi_ts_sz it) else key)"

definition vspan :: "entry list \<Rightarrow> nat \<Rightarrow> nat \<times> nat" where
  "vspan L i = (off L (Suc i) - length (e_val (L ! i)), length (e_val (L ! i)))"

definition block_ok :: "entry list \<Rightarrow> nat list \<Rightarrow> block_iter \<Rightarrow> bool" where
  "block_ok L R it \<longleftrightarrow> entries_ok L \<and> restarts_ok L R \<and> off L (length L) < 2 ^ 32 \<and>
     (\<exists>tail. bi_data it = Some (lay_data L R tail)) \<and> bi_restarts it = off L (length L) \<and> bi_num_restarts it = length R \<and>
     (bi_pad_min_timestamp it \<longrightarrow> \<not> ik_is_user_key (bi_raw_key it) \<and> (\<forall>e \<in> set L. 8 \<le> length (e_key e)))"

text \<open>Ready to parse entry \<open>i\<close>, and positioned at entry \<open>i\<close>.\<close>

definition before :: "entry list \<Rightarrow> nat list \<Rightarrow> block_iter \<Rightarrow> nat \<Rightarrow> bool" where
  "before L R it i \<longleftrightarrow> i \<le> length L \<and> NextEntryOffset it = Some (off L i) \<and> IterKey_inv (bi_raw_key it) \<and>
     (i < length L \<and> e_shared (L ! i) \<noteq> 0 \<longrightarrow> GetKey (bi_raw_key it) = rkey it (e_key (L ! (i - 1)))) \<and>
     bi_restart_index it < length R"

definition here :: "entry list \<Rightarrow> nat list \<Rightarrow> block_iter \<Rightarrow> nat \<Rightarrow> bool" where
  "here L R it i \<longleftrightarrow> i < length L \<and> bi_current it = off L i \<and> bi_value it = Some (vspan L i) \<and>
     IterKey_inv (bi_raw_key it) \<and> GetKey (bi_raw_key it) = rkey it (e_key (L ! i)) \<and> bi_restart_index it < length R"

lemma core_sel:
  "bi_ucmp (core it) = bi_ucmp it"
  "bi_data (core it) = bi_data it"
  "bi_num_restarts (core it) = bi_num_restarts it"
  "bi_restarts (core it) = bi_restarts it"
  "bi_key_buf (core it) = bi_key_buf it"
  "bi_status (core it) = bi_status it"
  "bi_key (core it) = bi_key it"
  "bi_global_seqno (core it) = bi_global_seqno it"
  "bi_ts_sz (core it) = bi_ts_sz it"
  "bi_pad_min_timestamp (core it) = bi_pad_min_timestamp it"
  "bi_kv_checksum (core it) = bi_kv_checksum it"
  "bi_block_restart_interval (core it) = bi_block_restart_interval it"
  "bi_protection_bytes_per_key (core it) = bi_protection_bytes_per_key it"
  "bi_prev_entries_keys_buff (core it) = bi_prev_entries_keys_buff it"
  "bi_prev_entries (core it) = bi_prev_entries it"
  "bi_prev_entries_idx (core it) = bi_prev_entries_idx it"
  "bi_hash_index (core it) = bi_hash_index it"
  "ik_is_user_key (bi_raw_key (core it)) = ik_is_user_key (bi_raw_key it)"
  by (simp_all add: core_def)

lemma core_fields:
  assumes "core it' = core it"
  shows "bi_ucmp it' = bi_ucmp it"
    "bi_data it' = bi_data it"
    "bi_num_restarts it' = bi_num_restarts it"
    "bi_restarts it' = bi_restarts it"
    "bi_key_buf it' = bi_key_buf it"
    "bi_status it' = bi_status it"
    "bi_key it' = bi_key it"
    "bi_global_seqno it' = bi_global_seqno it"
    "bi_ts_sz it' = bi_ts_sz it"
    "bi_pad_min_timestamp it' = bi_pad_min_timestamp it"
    "bi_kv_checksum it' = bi_kv_checksum it"
    "bi_block_restart_interval it' = bi_block_restart_interval it"
    "bi_protection_bytes_per_key it' = bi_protection_bytes_per_key it"
    "bi_prev_entries_keys_buff it' = bi_prev_entries_keys_buff it"
    "bi_prev_entries it' = bi_prev_entries it"
    "bi_prev_entries_idx it' = bi_prev_entries_idx it"
    "bi_hash_index it' = bi_hash_index it"
    "ik_is_user_key (bi_raw_key it') = ik_is_user_key (bi_raw_key it)"
  using arg_cong [OF assms, of bi_ucmp]
    arg_cong [OF assms, of bi_data]
    arg_cong [OF assms, of bi_num_restarts]
    arg_cong [OF assms, of bi_restarts]
    arg_cong [OF assms, of bi_key_buf]
    arg_cong [OF assms, of bi_status]
    arg_cong [OF assms, of bi_key]
    arg_cong [OF assms, of bi_global_seqno]
    arg_cong [OF assms, of bi_ts_sz]
    arg_cong [OF assms, of bi_pad_min_timestamp]
    arg_cong [OF assms, of bi_kv_checksum]
    arg_cong [OF assms, of bi_block_restart_interval]
    arg_cong [OF assms, of bi_protection_bytes_per_key]
    arg_cong [OF assms, of bi_prev_entries_keys_buff]
    arg_cong [OF assms, of bi_prev_entries]
    arg_cong [OF assms, of bi_prev_entries_idx]
    arg_cong [OF assms, of bi_hash_index]
    arg_cong [OF assms, of "\<lambda>it. ik_is_user_key (bi_raw_key it)"]
  by (simp_all only: core_sel)

lemma rkey_core:
  assumes "core it' = core it"
  shows "rkey it' = rkey it"
  by (rule ext) (simp add: rkey_def core_fields [OF assms])

lemma block_ok_core:
  assumes "core it' = core it"
  shows "block_ok L R it' = block_ok L R it"
  by (simp add: block_ok_def core_fields [OF assms])

lemma core_simps [simp]:
  "core (it\<lparr>bi_current := a\<rparr>) = core it" "core (it\<lparr>bi_value := b\<rparr>) = core it" "core (it\<lparr>bi_restart_index := c\<rparr>) = core it"
  "core (it\<lparr>bi_cur_entry_idx := d\<rparr>) = core it"
  by (simp_all add: core_def)

lemma core_raw_key: "ik_is_user_key k = ik_is_user_key (bi_raw_key it) \<Longrightarrow> core (it\<lparr>bi_raw_key := k\<rparr>) = core it"
  by (simp add: core_def)

lemma rkey_simps [simp]:
  "rkey (it\<lparr>bi_current := a\<rparr>) = rkey it" "rkey (it\<lparr>bi_value := b\<rparr>) = rkey it" "rkey (it\<lparr>bi_restart_index := c\<rparr>) = rkey it"
  "rkey (it\<lparr>bi_cur_entry_idx := d\<rparr>) = rkey it" "rkey (it\<lparr>bi_raw_key := e\<rparr>) = rkey it"
  by (simp_all add: rkey_def fun_eq_iff)

lemma block_okD:
  assumes "block_ok L R it"
  obtains tail where "bi_data it = Some (lay_data L R tail)" "entries_ok L" "restarts_ok L R" "off L (length L) < 2 ^ 32"
    "bi_restarts it = off L (length L)" "bi_num_restarts it = length R"
  using assms by (auto simp: block_ok_def)

lemma ok_data: "block_ok L R it \<Longrightarrow> bi_data it \<noteq> None"
  by (auto simp: block_ok_def)

lemma restarts_le:
  assumes "restarts_ok L R" "j < length R"
  shows "R ! j \<le> length L" "L \<noteq> [] \<Longrightarrow> R ! j < length L" "R ! j < length L \<Longrightarrow> e_shared (L ! (R ! j)) = 0"
  using assms nth_mem [OF assms(2)] by (auto simp: restarts_ok_def less_imp_le split: if_splits)

lemma GetRestartPoint_ok:
  assumes "block_ok L R it" "j < length R"
  shows "GetRestartPoint it j = Some (off L (R ! j))"
proof -
  obtain tail where d: "bi_data it = Some (lay_data L R tail)" "restarts_ok L R" "off L (length L) < 2 ^ 32"
    "bi_restarts it = off L (length L)" using block_okD [OF assms(1)] .
  have "off L (R ! j) < 2 ^ 32" using off_mono [of "R ! j" "length L" L] restarts_le(1) [OF d(2) assms(2)] d(3) by simp
  then have "unat (word_of_nat (off L (R ! j)) :: u32) = off L (R ! j)" by (simp add: unat_of_nat)
  moreover have "off L (length L) + j * 4 + 4 \<le> length (lay_data L R tail)" using assms(2) by (simp add: length_lay_data)
  ultimately show ?thesis
    using lay_restart_point [OF assms(2), of L tail] by (simp add: GetRestartPoint_def block_bytes_def d Decode_EncodeFixed32 [where r = "[]", simplified])
qed

lemma here_before:
  assumes "here L R it i" "block_ok L R it"
  shows "before L R it (Suc i)"
proof -
  have "length (e_val (L ! i)) \<le> off L (Suc i)"
    using assms entry_span(1) [of i L] by (auto simp: here_def block_ok_def)
  then show ?thesis using assms by (simp add: here_def before_def NextEntryOffset_def vspan_def)
qed

lemma SeekToRestartPoint_ok:
  assumes "block_ok L R it" "j < length R" "IterKey_inv (bi_raw_key it)"
  obtains it' where "SeekToRestartPoint j it = Some it'" "core it' = core it" "before L R it' (R ! j)"
    "bi_cur_entry_idx it' = bi_cur_entry_idx it" "bi_restart_index it' = j"
proof
  let ?it = "it\<lparr>bi_raw_key := IterKey_Clear (bi_raw_key it), bi_restart_index := j, bi_value := Some (off L (R ! j), 0)\<rparr>"
  have c: "core (it\<lparr>bi_raw_key := IterKey_Clear (bi_raw_key it), bi_restart_index := j\<rparr>) = core it"
    by (simp add: core_raw_key IterKey_Clear_def)
  then have "block_ok L R (it\<lparr>bi_raw_key := IterKey_Clear (bi_raw_key it), bi_restart_index := j\<rparr>)"
    using assms(1) block_ok_core [OF c] by simp
  from GetRestartPoint_ok [OF this assms(2)] show "SeekToRestartPoint j it = Some ?it"
    by (simp add: SeekToRestartPoint_def)
  show "core ?it = core it" using c by simp
  have "IterKey_inv (IterKey_Clear (bi_raw_key it))" using assms(3) by (auto simp: IterKey_inv_def IterKey_Clear_def key_bytes_def)
  then show "before L R ?it (R ! j)"
    using assms(1,2) restarts_le [of L R j] by (auto simp: before_def NextEntryOffset_def block_ok_def)
qed simp_all

lemma advance_restart_index_ok:
  assumes "block_ok L R it" "bi_restart_index it + n < length R"
  shows "\<exists>r < length R. advance_restart_index n it = Some (it\<lparr>bi_restart_index := r\<rparr>)"
  using assms
proof (induction n arbitrary: it)
  case 0
  then show ?case by (intro exI [of _ "bi_restart_index it"]) simp
next
  case (Suc n)
  let ?it = "it\<lparr>bi_restart_index := Suc (bi_restart_index it)\<rparr>"
  have "block_ok L R ?it" using Suc.prems(1) block_ok_core [of ?it it] by simp
  then obtain r where "r < length R" "advance_restart_index n ?it = Some (?it\<lparr>bi_restart_index := r\<rparr>)"
    using Suc.IH [of ?it] Suc.prems(2) by auto
  moreover have "bi_restart_index it < length R" using Suc.prems(2) by simp
  moreover have "GetRestartPoint it (bi_restart_index it + 1) = Some (off L (R ! Suc (bi_restart_index it)))"
    using GetRestartPoint_ok [OF Suc.prems(1), of "Suc (bi_restart_index it)"] Suc.prems(2) by simp
  ultimately show ?case
  proof (cases "off L (R ! Suc (bi_restart_index it)) < bi_current it")
    case False
    with \<open>bi_restart_index it < length R\<close> \<open>GetRestartPoint it _ = _\<close> show ?thesis
      by (intro exI [of _ "bi_restart_index it"]) simp
  qed auto
qed


section \<open>Parsing an entry\<close>

lemma UpdateRawKey_ok:
  assumes "block_ok L R it" "IterKey_inv (bi_raw_key it)"
  obtains k where "UpdateRawKeyAndMaybePadMinTimestamp key it = it\<lparr>bi_raw_key := k\<rparr>" "IterKey_inv k" "GetKey k = rkey it key"
    "ik_is_user_key k = ik_is_user_key (bi_raw_key it)"
proof -
  define k where "k = bi_raw_key (UpdateRawKeyAndMaybePadMinTimestamp key it)"
  have "ik_is_user_key (SetKey key' copy (bi_raw_key it)) = ik_is_user_key (bi_raw_key it)" for key' copy
    by (simp add: SetKey_def SetKeyImpl_def Let_def)
  then show thesis
    using assms that [of k]
    by (auto simp: UpdateRawKeyAndMaybePadMinTimestamp_def rkey_def k_def block_ok_def SetKey_def SetKeyImpl_ok)
qed

text \<open>Sharing with the previous key, when it still carries a padded timestamp.\<close>

lemma rkey_share:
  assumes "block_ok L R it" "IterKey_inv (bi_raw_key it)" "GetKey (bi_raw_key it) = rkey it prev"
    and "n \<le> length prev" "take n key = take n prev" "bi_pad_min_timestamp it \<Longrightarrow> 8 \<le> length key \<and> 8 \<le> length prev"
  shows "\<exists>k. (if bi_pad_min_timestamp it
        then it\<lparr>bi_raw_key := TrimAppendWithTimestamp n (drop n key) (bi_ts_sz it) (bi_raw_key it)\<rparr>
        else it\<lparr>bi_raw_key := TrimAppend n (drop n key) (bi_raw_key it)\<rparr>) = it\<lparr>bi_raw_key := k\<rparr> \<and>
      IterKey_inv k \<and> GetKey k = rkey it key \<and> ik_is_user_key k = ik_is_user_key (bi_raw_key it)"
proof (cases "bi_pad_min_timestamp it")
  case False
  have "ik_key_size (bi_raw_key it) = length prev"
    using assms(2,3) False arg_cong [OF assms(3), of length] by (auto simp: rkey_def GetKey_def IterKey_inv_def min_def split: if_splits)
  then have "IterKey_inv (TrimAppend n (drop n key) (bi_raw_key it)) \<and>
      GetKey (TrimAppend n (drop n key) (bi_raw_key it)) = take n prev @ drop n key"
    using TrimAppend_ok [OF assms(2)] assms(3,4) False by (simp add: rkey_def)
  moreover have "take n prev @ drop n key = key" using assms(5) by (metis append_take_drop_id)
  moreover have "ik_is_user_key (TrimAppend n (drop n key) (bi_raw_key it)) = ik_is_user_key (bi_raw_key it)"
    by (simp add: TrimAppend_def Let_def)
  ultimately show ?thesis using False by (auto simp: rkey_def)
next
  case True
  have u: "\<not> ik_is_user_key (bi_raw_key it)" using assms(1) True by (simp add: block_ok_def)
  let ?a = "take (length prev - 8) prev" and ?f = "drop (length prev - 8) prev"
  have f: "length ?f = 8" "?a @ ?f = prev" using assms(6) [OF True] by simp_all
  have g: "GetKey (bi_raw_key it) = ?a @ replicate (bi_ts_sz it) 0 @ ?f"
    using Pad_split [OF f(1), of ?a] f(2) assms(3) True by (simp add: rkey_def)
  let ?k = "TrimAppendWithTimestamp n (drop n key) (bi_ts_sz it) (bi_raw_key it)"
  have "GetKey ?k = PadInternalKeyWithMinTimestamp [] (take n (?a @ ?f) @ drop n key) (bi_ts_sz it)"
    by (rule TrimAppendWithTimestamp_key [OF assms(2) u g f(1)]) (use assms(4,6) f(1) True add_diff_inverse_nat [of "length key" n] in auto)
  also have "take n (?a @ ?f) @ drop n key = key" unfolding f(2) using assms(5) by (metis append_take_drop_id)
  finally have "GetKey ?k = rkey it key" using True by (simp add: rkey_def)
  moreover have "IterKey_inv ?k" using assms(2) by (simp add: TrimAppendWithTimestamp_def Let_def SetKey_def SetKeyImpl_ok)
  moreover have "ik_is_user_key ?k = ik_is_user_key (bi_raw_key it)"
    by (simp add: TrimAppendWithTimestamp_def Let_def SetKey_def SetKeyImpl_def)
  ultimately show ?thesis using True by auto
qed


lemma key_length: "entries_ok L \<Longrightarrow> i < length L \<Longrightarrow> length (e_key (L ! i)) \<le> off L (Suc i)"
proof (induction i)
  case 0
  then show ?case using entry_span(1) [of 0 L] by (auto simp: entries_ok_def)
next
  case (Suc i)
  then have "e_shared (L ! Suc i) \<le> off L (Suc i)"
    by (cases "e_shared (L ! Suc i) = 0") (force simp: entries_ok_def)+
  then show ?case using entry_span(1) [of "Suc i" L] Suc.prems by simp
qed

lemma GetKey_size: "IterKey_inv k \<Longrightarrow> ik_key_size k = length (GetKey k)"
  by (auto simp: GetKey_def IterKey_inv_def)

lemma rkey_length: "length key \<le> length (rkey it key)"
  by (simp add: rkey_def PadInternalKeyWithMinTimestamp_def Let_def)

lemma u32_of_nat:
  assumes "n < 2 ^ 32"
  shows "unat (word_of_nat n :: u32) = n" "(word_of_nat n :: u32) = 0 \<longleftrightarrow> n = 0"
proof -
  show u: "unat (word_of_nat n :: u32) = n" using assms by (simp add: unat_of_nat)
  then show "(word_of_nat n :: u32) = 0 \<longleftrightarrow> n = 0" using unat_eq_zero [of "word_of_nat n :: u32"] by simp
qed

text \<open>The key of entry \<open>i\<close> after its delta is applied to the key before it.\<close>

lemma apply_delta:
  assumes "block_ok L R it" "before L R it i" "i < length L"
  defines "n \<equiv> e_shared (L ! i)" and "d \<equiv> drop (e_shared (L ! i)) (e_key (L ! i))"
  obtains k where "(if n = 0 then UpdateRawKeyAndMaybePadMinTimestamp d it
       else if bi_pad_min_timestamp it then it\<lparr>bi_raw_key := TrimAppendWithTimestamp n d (bi_ts_sz it) (bi_raw_key it)\<rparr>
       else it\<lparr>bi_raw_key := TrimAppend n d (bi_raw_key it)\<rparr>) = it\<lparr>bi_raw_key := k\<rparr>"
    "IterKey_inv k" "GetKey k = rkey it (e_key (L ! i))" "ik_is_user_key k = ik_is_user_key (bi_raw_key it)"
    "\<not> ik_key_size (bi_raw_key it) < n"
proof (cases "n = 0")
  case True
  have "IterKey_inv (bi_raw_key it)" using assms(2) by (simp add: before_def)
  from UpdateRawKey_ok [OF assms(1) this, of d] True that show thesis by (auto simp: n_def d_def)
next
  case False
  have e: "entries_ok L" using assms(1) by (simp add: block_ok_def)
  then have share: "n \<le> length (e_key (L ! (i - 1)))" "take n (e_key (L ! i)) = take n (e_key (L ! (i - 1)))" "0 < i"
    using assms(3) False by (auto simp: entries_ok_def n_def)
  have b: "IterKey_inv (bi_raw_key it)" "GetKey (bi_raw_key it) = rkey it (e_key (L ! (i - 1)))"
    using assms(2,3) False by (auto simp: before_def n_def)
  have "8 \<le> length (e_key (L ! i)) \<and> 8 \<le> length (e_key (L ! (i - 1)))" if "bi_pad_min_timestamp it"
    using assms(1,3) that nth_mem [of i L] nth_mem [of "i - 1" L] by (auto simp: block_ok_def)
  from rkey_share [OF assms(1) b share(1,2) this, folded d_def [folded n_def]] obtain k where k:
    "(if bi_pad_min_timestamp it then it\<lparr>bi_raw_key := TrimAppendWithTimestamp n d (bi_ts_sz it) (bi_raw_key it)\<rparr>
       else it\<lparr>bi_raw_key := TrimAppend n d (bi_raw_key it)\<rparr>) = it\<lparr>bi_raw_key := k\<rparr>"
    "IterKey_inv k" "GetKey k = rkey it (e_key (L ! i))" "ik_is_user_key k = ik_is_user_key (bi_raw_key it)"
    by blast
  moreover have "\<not> ik_key_size (bi_raw_key it) < n"
    using rkey_length [of "e_key (L ! (i - 1))" it] share(1) GetKey_size [OF b(1)] b(2) by simp
  ultimately show thesis using that False by simp
qed

context entry_decoder
begin

lemma ParseNextKey_ok:
  assumes ok: "block_ok L R it" and bef: "before L R it i" and i: "i < length L"
  obtains it' where "ParseNextKey dec it = Some (it', True, e_shared (L ! i) \<noteq> 0)" "core it' = core it" "here L R it' i"
    "bi_cur_entry_idx it' = bi_cur_entry_idx it"
proof -
  obtain tail where d: "bi_data it = Some (lay_data L R tail)" "entries_ok L" "restarts_ok L R" "off L (length L) < 2 ^ 32"
    "bi_restarts it = off L (length L)" "bi_num_restarts it = length R" using block_okD [OF ok] .
  let ?n = "e_shared (L ! i)" and ?d = "drop (e_shared (L ! i)) (e_key (L ! i))" and ?v = "length (e_val (L ! i))"
  let ?p = "off L i + length (e_head (L ! i))" and ?it = "it\<lparr>bi_current := off L i\<rparr>"
  note span = entry_span [OF i d(2)]
  have lt: "\<not> off L (length L) \<le> off L i" using off_less_iff [of i L "length L"] i by simp
  have n: "?n \<le> length (e_key (L ! i))" using d(2) i by (simp add: entries_ok_def)
  have small: "?n < 2 ^ 32" "length (e_key (L ! i)) - ?n < 2 ^ 32" "?v < 2 ^ 32" "length (e_key (L ! i)) < 2 ^ 32"
    using span d(4) key_length [OF d(2) i] n by linarith+
  note w = u32_of_nat [OF small(1)] u32_of_nat(1) [OF small(2)] u32_of_nat(1) [OF small(3)] u32_of_nat(1) [OF small(4)]
  have c: "core ?it = core it" by simp
  have ok': "block_ok L R ?it" using ok block_ok_core [OF c] by simp
  have "before L R ?it i" using bef by (simp add: before_def NextEntryOffset_def)
  then obtain k where k: "(if ?n = 0 then UpdateRawKeyAndMaybePadMinTimestamp ?d ?it
       else if bi_pad_min_timestamp ?it then ?it\<lparr>bi_raw_key := TrimAppendWithTimestamp ?n ?d (bi_ts_sz ?it) (bi_raw_key ?it)\<rparr>
       else ?it\<lparr>bi_raw_key := TrimAppend ?n ?d (bi_raw_key ?it)\<rparr>) = ?it\<lparr>bi_raw_key := k\<rparr>"
    "IterKey_inv k" "GetKey k = rkey ?it (e_key (L ! i))" "ik_is_user_key k = ik_is_user_key (bi_raw_key ?it)"
    "\<not> ik_key_size (bi_raw_key ?it) < ?n"
    using apply_delta [OF ok' _ i] by blast
  obtain rest where "lay_data L R tail = concat (map e_bytes (take i L)) @ e_bytes (L ! i) @ rest"
    "off L i = length (concat (map e_bytes (take i L)))" using drop_off_data [OF i] .
  then have "take (length (e_key (L ! i)) - ?n) (drop ?p (lay_data L R tail)) = ?d" by (simp add: e_bytes_def)
  moreover have "?p + (length (e_key (L ! i)) - ?n) \<le> length (lay_data L R tail)"
    using span by (simp add: length_lay_data)
  ultimately have bytes: "block_bytes ?it ?p (length (e_key (L ! i)) - ?n) = Some ?d"
    by (simp add: block_bytes_def d(1))
  let ?it2 = "?it\<lparr>bi_raw_key := k, bi_value := Some (?p + (length (e_key (L ! i)) - ?n), ?v)\<rparr>"
  have c2: "core ?it2 = core it" using k(4) by (simp add: core_raw_key)
  have "block_ok L R ?it2" using ok block_ok_core [OF c2] by simp
  moreover have "bi_restart_index ?it2 + (bi_num_restarts ?it2 - 1 - bi_restart_index ?it2) < length R"
    using bef d(6) by (auto simp: before_def)
  ultimately obtain r where r: "r < length R"
    "advance_restart_index (bi_num_restarts ?it2 - 1 - bi_restart_index ?it2) ?it2 = Some (?it2\<lparr>bi_restart_index := r\<rparr>)"
    using advance_restart_index_ok by blast
  define q where "q = (if ?n = 0 then r else bi_restart_index it)"
  have nxt: "NextEntryOffset it = Some (off L i)" using bef by (simp add: before_def)
  note parse = ParseNextKey_def Let_def d w q_def lt nxt dec_entry [OF i d(2) d(4), of R tail]
  have "ParseNextKey dec it = Some (?it2\<lparr>bi_restart_index := q\<rparr>, True, ?n \<noteq> 0)"
  proof (cases "?n = 0")
    case True
    then have "UpdateRawKeyAndMaybePadMinTimestamp (e_key (L ! i)) ?it = ?it\<lparr>bi_raw_key := k\<rparr>" using k(1) by simp
    then show ?thesis using True bytes r(2) by (simp add: parse)
  next
    case False
    then show ?thesis using k(1,5) bytes by (cases "bi_pad_min_timestamp it") (simp_all add: parse)
  qed
  moreover have "core (?it2\<lparr>bi_restart_index := q\<rparr>) = core it" using c2 by simp
  moreover have "here L R (?it2\<lparr>bi_restart_index := q\<rparr>) i"
    using k i span(1) r(1) bef by (auto simp: here_def vspan_def q_def before_def)
  ultimately show thesis by (intro that [of "?it2\<lparr>bi_restart_index := q\<rparr>"]) simp_all
qed

lemma ParseNextKey_end:
  assumes "block_ok L R it" "before L R it (length L)"
  shows "ParseNextKey dec it = Some (no_more_entries it, False, False)"
  using assms by (auto simp: ParseNextKey_def before_def block_ok_def no_more_entries_def)

end


section \<open>Comparing and stepping\<close>

definition cmp_key :: "block_iter \<Rightarrow> slice \<Rightarrow> slice \<Rightarrow> int" where
  "cmp_key it key target =
     (if ik_is_user_key (bi_raw_key it) then bi_ucmp it key target
      else if bi_global_seqno it = kDisableGlobalSequenceNumber then InternalKey_Compare (bi_ucmp it) key target
      else InternalKey_Compare_global (bi_ucmp it) key (bi_global_seqno it) target kDisableGlobalSequenceNumber)"

definition cmp_at :: "entry list \<Rightarrow> block_iter \<Rightarrow> slice \<Rightarrow> nat \<Rightarrow> int" where
  "cmp_at L it target i = cmp_key it (rkey it (e_key (L ! i))) target"

text \<open>Position \<open>p\<close>: at entry \<open>p\<close>, or behind the last entry.\<close>

definition at_pos :: "entry list \<Rightarrow> nat list \<Rightarrow> block_iter \<Rightarrow> nat \<Rightarrow> bool" where
  "at_pos L R it p \<longleftrightarrow> p \<le> length L \<and> IterKey_inv (bi_raw_key it) \<and>
     (if p < length L then here L R it p else bi_current it = off L (length L))"

definition regular :: "nat list \<Rightarrow> block_iter \<Rightarrow> bool" where
  "regular R it \<longleftrightarrow> (\<forall>j < length R. R ! j = j * bi_block_restart_interval it)"

lemma cmp_at_core:
  assumes "core it' = core it"
  shows "cmp_at L it' = cmp_at L it"
  by (intro ext) (simp add: cmp_at_def cmp_key_def core_fields [OF assms] rkey_core [OF assms])

lemma regular_core:
  assumes "core it' = core it"
  shows "regular R it' = regular R it"
  by (simp add: regular_def core_fields [OF assms])

lemma Compare_cmp_key: "GetKey (bi_raw_key it) = key \<Longrightarrow> CompareCurrentKey target it = cmp_key it key target"
  by (auto simp: CompareCurrentKey_def cmp_key_def GetUserKey_def GetKey_def)

lemma Compare_here: "here L R it i \<Longrightarrow> CompareCurrentKey target it = cmp_at L it target i"
  by (simp add: cmp_at_def here_def Compare_cmp_key)

lemma here_at: "here L R it i \<Longrightarrow> at_pos L R it i"
  by (simp add: at_pos_def here_def)

lemma at_here: "at_pos L R it p \<Longrightarrow> p < length L \<Longrightarrow> here L R it p"
  by (simp add: at_pos_def)

lemma at_Valid: "at_pos L R it p \<Longrightarrow> block_ok L R it \<Longrightarrow> Valid it \<longleftrightarrow> p < length L"
  by (cases "p < length L") (auto simp: at_pos_def Valid_def block_ok_def here_def off_less_iff)

lemma at_inv: "at_pos L R it p \<Longrightarrow> IterKey_inv (bi_raw_key it)"
  by (simp add: at_pos_def)

lemma end_pos: "block_ok L R it \<Longrightarrow> IterKey_inv (bi_raw_key it) \<Longrightarrow> at_pos L R (no_more_entries it) (length L)"
  by (simp add: at_pos_def no_more_entries_def block_ok_def)

lemma core_no_more [simp]: "core (no_more_entries it) = core it"
  by (simp add: no_more_entries_def)

lemma idx_preds [simp]:
  "before L R (it\<lparr>bi_cur_entry_idx := d\<rparr>) i = before L R it i" "here L R (it\<lparr>bi_cur_entry_idx := d\<rparr>) i = here L R it i"
  "at_pos L R (it\<lparr>bi_cur_entry_idx := d\<rparr>) i = at_pos L R it i"
  by (simp_all add: before_def here_def at_pos_def NextEntryOffset_def)

context entry_decoder
begin

lemma NextImpl_ok:
  assumes "block_ok L R it" "before L R it i"
  obtains it' where "NextImpl dec it = Some it'" "core it' = core it" "at_pos L R it' i"
    "bi_cur_entry_idx it' = bi_cur_entry_idx it + 1"
proof (cases "i < length L")
  case True
  from ParseNextKey_ok [OF assms True] obtain it' where "ParseNextKey dec it = Some (it', True, e_shared (L ! i) \<noteq> 0)"
    "core it' = core it" "here L R it' i" "bi_cur_entry_idx it' = bi_cur_entry_idx it" .
  then show thesis by (intro that [of "it'\<lparr>bi_cur_entry_idx := bi_cur_entry_idx it + 1\<rparr>"]) (simp_all add: NextImpl_def here_at)
next
  case False
  then have i: "i = length L" using assms(2) by (simp add: before_def)
  have "IterKey_inv (bi_raw_key it)" using assms(2) by (simp add: before_def)
  with ParseNextKey_end [OF assms(1) assms(2) [unfolded i]] end_pos [OF assms(1)] show thesis
    by (intro that [of "(no_more_entries it)\<lparr>bi_cur_entry_idx := bi_cur_entry_idx it + 1\<rparr>"])
      (simp_all add: NextImpl_def i no_more_entries_def)
qed

text \<open>The scan ends at the first entry that is not less than the target, or at entry \<open>r\<close>.\<close>

lemma linear_scan_ok:
  assumes "block_ok L R it" "before L R it i" "r \<le> length L" "i \<le> r" "m = (if r < length L then Some (off L r) else None)"
  shows "\<exists>p it'. linear_scan dec target m it = Some it' \<and> core it' = core it \<and> at_pos L R it' p \<and> i \<le> p \<and> p \<le> r \<and>
    (\<forall>j. i \<le> j \<and> j < p \<longrightarrow> cmp_at L it target j < 0) \<and> (p < r \<longrightarrow> 0 \<le> cmp_at L it target p) \<and>
    bi_cur_entry_idx it' = bi_cur_entry_idx it + 1 + int (p - i)"
  using assms
proof (induction "r - i" arbitrary: i it)
  case (0)
  then have i: "i = r" by simp
  from NextImpl_ok [OF 0(2,3)] obtain it' where n: "NextImpl dec it = Some it'" "core it' = core it" "at_pos L R it' i"
    "bi_cur_entry_idx it' = bi_cur_entry_idx it + 1" .
  have "linear_scan dec target m it = Some it'"
  proof (cases "r < length L")
    case True
    then have "bi_current it' = off L r" using n(3) i by (simp add: at_pos_def here_def)
    then show ?thesis using n(1) True 0(6) by (subst linear_scan.simps) simp
  next
    case False
    have "block_ok L R it'" using 0(2) block_ok_core [OF n(2)] by simp
    then have "\<not> Valid it'" using at_Valid [OF n(3)] False i by simp
    then show ?thesis using n(1) by (subst linear_scan.simps) simp
  qed
  with n i show ?case by (intro exI [of _ i] exI [of _ it']) simp
next
  case (Suc d)
  then have i: "i < r" "i < length L" by simp_all
  from NextImpl_ok [OF Suc(3,4)] obtain it' where n: "NextImpl dec it = Some it'" "core it' = core it" "at_pos L R it' i"
    "bi_cur_entry_idx it' = bi_cur_entry_idx it + 1" .
  have ok: "block_ok L R it'" using Suc(3) block_ok_core [OF n(2)] by simp
  have h: "here L R it' i" using n(3) i by (simp add: at_pos_def)
  have v: "Valid it'" using at_Valid [OF n(3) ok] i by simp
  have "bi_current it' = off L i" using h by (simp add: here_def)
  then have nm: "Some (bi_current it') \<noteq> m" using Suc(7) i Suc(5) by (auto simp: off_eq_iff)
  have c: "CompareCurrentKey target it' = cmp_at L it target i" using Compare_here [OF h] cmp_at_core [OF n(2)] by simp
  show ?case
  proof (cases "0 \<le> cmp_at L it target i")
    case True
    have "linear_scan dec target m it = Some it'" using n(1) v nm c True by (subst linear_scan.simps) simp
    with n True i show ?thesis by (intro exI [of _ i] exI [of _ it']) simp
  next
    case False
    then have "linear_scan dec target m it = linear_scan dec target m it'" using n(1) v nm c by (subst linear_scan.simps) simp
    moreover have "d = r - Suc i" "Suc i \<le> r" using Suc(2) by simp_all
    then obtain p it2 where p: "linear_scan dec target m it' = Some it2" "core it2 = core it'" "at_pos L R it2 p" "Suc i \<le> p" "p \<le> r"
      "\<forall>j. Suc i \<le> j \<and> j < p \<longrightarrow> cmp_at L it' target j < 0" "p < r \<longrightarrow> 0 \<le> cmp_at L it' target p"
      "bi_cur_entry_idx it2 = bi_cur_entry_idx it' + 1 + int (p - Suc i)"
      using Suc(1) [OF _ ok here_before [OF h ok] Suc(5) _ Suc(7)] by blast
    moreover have "\<forall>j. i \<le> j \<and> j < p \<longrightarrow> cmp_at L it target j < 0"
    proof (intro allI impI)
      fix j assume "i \<le> j \<and> j < p"
      then show "cmp_at L it target j < 0" using p(6) False cmp_at_core [OF n(2)] by (cases "j = i") simp_all
    qed
    ultimately show ?thesis using n cmp_at_core [OF n(2)]
      by (intro exI [of _ p] exI [of _ it2]) simp
  qed
qed

end


section \<open>Seeking\<close>

text \<open>The keys are in strict order, as the target sees them.\<close>

definition ordered :: "entry list \<Rightarrow> block_iter \<Rightarrow> slice \<Rightarrow> bool" where
  "ordered L it target \<longleftrightarrow> (\<forall>j < length L. cmp_at L it target j \<le> 0 \<longrightarrow> (\<forall>i < j. cmp_at L it target i < 0))"

definition seek_result :: "entry list \<Rightarrow> block_iter \<Rightarrow> slice \<Rightarrow> nat \<Rightarrow> bool" where
  "seek_result L it target p \<longleftrightarrow> p \<le> length L \<and> (\<forall>i < p. cmp_at L it target i < 0) \<and>
     (p < length L \<longrightarrow> 0 \<le> cmp_at L it target p)"

lemma seek_core:
  assumes "core it' = core it"
  shows "ordered L it' = ordered L it" "seek_result L it' = seek_result L it"
  by (intro ext, simp add: ordered_def seek_result_def cmp_at_core [OF assms])+

lemma seek_result_unique: "seek_result L it target p \<Longrightarrow> seek_result L it target q \<Longrightarrow> p = q"
  unfolding seek_result_def by (cases p q rule: linorder_cases) force+

lemma ordered_less: "ordered L it target \<Longrightarrow> i < j \<Longrightarrow> j < length L \<Longrightarrow> cmp_at L it target j \<le> 0 \<Longrightarrow> cmp_at L it target i < 0"
  by (auto simp: ordered_def)

lemma restarts_less: "restarts_ok L R \<Longrightarrow> i < j \<Longrightarrow> j < length R \<Longrightarrow> R ! i < R ! j"
  by (simp add: restarts_ok_def sorted_wrt_nth_less)

lemma mid_key:
  assumes "block_ok L R it" "j < length R" "L \<noteq> []" "IterKey_inv (bi_raw_key it)"
  obtains it' q where "GetRestartPoint it j = Some (off L (R ! j))"
    "do { data \<leftarrow> bi_data it; DecodeKey data (off L (R ! j)) (bi_restarts it) } =
       Some (Some (q, 0, word_of_nat (length (e_key (L ! (R ! j))))))"
    "block_bytes it q (unat (word_of_nat (length (e_key (L ! (R ! j)))) :: u32)) = Some (e_key (L ! (R ! j)))"
    "UpdateRawKeyAndMaybePadMinTimestamp (e_key (L ! (R ! j))) it = it'" "core it' = core it" "IterKey_inv (bi_raw_key it')"
    "CompareCurrentKey target it' = cmp_at L it target (R ! j)"
proof -
  obtain tail where d: "bi_data it = Some (lay_data L R tail)" "entries_ok L" "restarts_ok L R" "off L (length L) < 2 ^ 32"
    "bi_restarts it = off L (length L)" using block_okD [OF assms(1)] .
  let ?i = "R ! j"
  have i: "?i < length L" "e_shared (L ! ?i) = 0" using restarts_le [OF d(3) assms(2)] assms(3) by simp_all
  let ?q = "off L ?i + length (e_head (L ! ?i))"
  obtain k where k: "UpdateRawKeyAndMaybePadMinTimestamp (e_key (L ! ?i)) it = it\<lparr>bi_raw_key := k\<rparr>" "IterKey_inv k"
    "GetKey k = rkey it (e_key (L ! ?i))" "ik_is_user_key k = ik_is_user_key (bi_raw_key it)"
    using UpdateRawKey_ok [OF assms(1,4)] .
  have c: "core (it\<lparr>bi_raw_key := k\<rparr>) = core it" using k(4) by (rule core_raw_key)
  obtain rest where "lay_data L R tail = concat (map e_bytes (take ?i L)) @ e_bytes (L ! ?i) @ rest"
    "off L ?i = length (concat (map e_bytes (take ?i L)))" using drop_off_data [OF i(1)] .
  then have "take (length (e_key (L ! ?i))) (drop ?q (lay_data L R tail)) = e_key (L ! ?i)" by (simp add: e_bytes_def i(2))
  moreover have "?q + length (e_key (L ! ?i)) \<le> length (lay_data L R tail)" "length (e_key (L ! ?i)) < 2 ^ 32"
    using entry_span [OF i(1) d(2)] d(4) i(2) by (simp_all add: length_lay_data)
  moreover have "CompareCurrentKey target (it\<lparr>bi_raw_key := k\<rparr>) = cmp_at L it target ?i"
    using Compare_cmp_key [of "it\<lparr>bi_raw_key := k\<rparr>"] k(3) fun_cong [OF fun_cong [OF cmp_at_core [OF c, of L]]]
    by (metis cmp_at_def rkey_core [OF c] block_iter.select_convs(7) block_iter.update_convs(7) block_iter.surjective)
  ultimately show thesis
    using that [of ?q "it\<lparr>bi_raw_key := k\<rparr>"] GetRestartPoint_ok [OF assms(1,2)] k(1,2) c DecodeEntry_entry [OF i(1) d(2), of R tail]
    by (simp add: DecodeKey_def d(1,5) i(2) block_bytes_def u32_of_nat)
qed


lemma binary_seek_step:
  assumes "block_ok L R it" "L \<noteq> []" "IterKey_inv (bi_raw_key it)" "left \<noteq> right" "- 1 \<le> left" "left < right" "right < int (length R)"
  defines "mid \<equiv> left + (right - left + 1) div 2"
  obtains it' where "core it' = core it" "IterKey_inv (bi_raw_key it')"
    "binary_seek_loop target left right skip it =
       (if cmp_at L it target (R ! nat mid) < 0 then binary_seek_loop target mid right skip it'
        else if cmp_at L it target (R ! nat mid) > 0 then binary_seek_loop target left (mid - 1) skip it'
        else Some (it', Some (mid, True)))"
proof -
  have "nat mid < length R" using assms(5,6,7) by (simp add: mid_def)
  obtain it' q where m: "GetRestartPoint it (nat mid) = Some (off L (R ! nat mid))"
    "do { data \<leftarrow> bi_data it; DecodeKey data (off L (R ! nat mid)) (bi_restarts it) } =
       Some (Some (q, 0, word_of_nat (length (e_key (L ! (R ! nat mid))))))"
    "block_bytes it q (unat (word_of_nat (length (e_key (L ! (R ! nat mid)))) :: u32)) = Some (e_key (L ! (R ! nat mid)))"
    "UpdateRawKeyAndMaybePadMinTimestamp (e_key (L ! (R ! nat mid))) it = it'" "core it' = core it" "IterKey_inv (bi_raw_key it')"
    "CompareCurrentKey target it' = cmp_at L it target (R ! nat mid)"
    using mid_key [OF assms(1) \<open>nat mid < length R\<close> assms(2,3), of target] .
  obtain data where data: "bi_data it = Some data" using assms(1) by (auto simp: block_ok_def)
  show thesis
    using m data assms(4) by (intro that [OF m(5,6)], subst binary_seek_loop.simps) (simp add: mid_def [symmetric] Let_def)
qed

lemma binary_seek_loop_ok:
  assumes "block_ok L R it" "L \<noteq> []" "IterKey_inv (bi_raw_key it)"
    and "- 1 \<le> left" "left \<le> right" "right < int (length R)"
    and "left = - 1 \<or> cmp_at L it target (R ! nat left) < 0"
    and "right + 1 < int (length R) \<longrightarrow> 0 < cmp_at L it target (R ! nat (right + 1))"
  shows "\<exists>it' l s. binary_seek_loop target left right False it = Some (it', Some (l, s)) \<and> core it' = core it \<and>
    IterKey_inv (bi_raw_key it') \<and> - 1 \<le> l \<and> l < int (length R) \<and>
    (if s then 0 \<le> l \<and> cmp_at L it target (R ! nat l) = 0
     else (l = - 1 \<or> cmp_at L it target (R ! nat l) < 0) \<and>
       (l + 1 < int (length R) \<longrightarrow> 0 < cmp_at L it target (R ! nat (l + 1))))"
  using assms
proof (induction "nat (right - left)" arbitrary: left right it rule: less_induct)
  case less
  show ?case
  proof (cases "left = right")
    case True
    then show ?thesis using less.prems
      by (intro exI [of _ it] exI [of _ left] exI [of _ False]) (simp add: binary_seek_loop.simps)
  next
    case False
    define mid where "mid = left + (right - left + 1) div 2"
    have b: "left < mid" "mid \<le> right" using less.prems(5) False by (simp_all add: mid_def)
    have lt: "left < right" using less.prems(5) False by simp
    obtain it' where s: "core it' = core it" "IterKey_inv (bi_raw_key it')"
      "binary_seek_loop target left right False it =
       (if cmp_at L it target (R ! nat mid) < 0 then binary_seek_loop target mid right False it'
        else if cmp_at L it target (R ! nat mid) > 0 then binary_seek_loop target left (mid - 1) False it'
        else Some (it', Some (mid, True)))"
      using binary_seek_step [OF less.prems(1-3) False less.prems(4) lt less.prems(6), of target False] mid_def by metis
    have ok: "block_ok L R it'" using less.prems(1) block_ok_core [OF s(1)] by simp
    have c: "cmp_at L it' = cmp_at L it" using cmp_at_core [OF s(1)] .
    consider "cmp_at L it target (R ! nat mid) < 0" | "cmp_at L it target (R ! nat mid) > 0" | "cmp_at L it target (R ! nat mid) = 0"
      by linarith
    then show ?thesis
    proof cases
      case 1
      have "nat (right - mid) < nat (right - left)" using b lt by simp
      from less.hyps [OF this ok less.prems(2) s(2), unfolded c s(1)] 1 b less.prems(4,6,8) show ?thesis unfolding s(3) by simp
    next
      case 2
      have "nat (mid - 1 - left) < nat (right - left)" using b lt by simp
      from less.hyps [OF this ok less.prems(2) s(2), unfolded c s(1)] 2 b less.prems(4,6,7) show ?thesis unfolding s(3) by simp
    next
      case 3
      then show ?thesis unfolding s(3) using s(1,2) b less.prems(4,6)
        by (intro exI [of _ it'] exI [of _ mid] exI [of _ True]) simp
    qed
  qed
qed

lemma BinarySeek_ok:
  assumes "block_ok L R it" "L \<noteq> []" "IterKey_inv (bi_raw_key it)"
  obtains it' j s where "BinarySeek target it = Some (it', Some (j, s))" "core it' = core it" "IterKey_inv (bi_raw_key it')"
    "j < length R" "s \<longrightarrow> (j = 0 \<and> 0 < cmp_at L it target (R ! 0)) \<or> cmp_at L it target (R ! j) = 0"
    "\<not> s \<longrightarrow> cmp_at L it target (R ! j) < 0 \<and> (Suc j < length R \<longrightarrow> 0 < cmp_at L it target (R ! Suc j))"
proof -
  have R: "0 < length R" using assms(1) by (auto simp: block_ok_def restarts_ok_def)
  have "0 < off L (length L)" using off_less [of 0 "length L" L] assms(2) by simp
  then have z: "bi_restarts it \<noteq> 0" using assms(1) by (simp add: block_ok_def)
  have n: "bi_num_restarts it = length R" using assms(1) by (simp add: block_ok_def)
  obtain it' l s where b: "binary_seek_loop target (- 1) (int (length R) - 1) False it = Some (it', Some (l, s))" "core it' = core it"
    "IterKey_inv (bi_raw_key it')" "- 1 \<le> l" "l < int (length R)"
    "if s then 0 \<le> l \<and> cmp_at L it target (R ! nat l) = 0
     else (l = - 1 \<or> cmp_at L it target (R ! nat l) < 0) \<and>
       (l + 1 < int (length R) \<longrightarrow> 0 < cmp_at L it target (R ! nat (l + 1)))"
    using binary_seek_loop_ok [OF assms, of "- 1" "int (length R) - 1" target] R by auto
  show thesis
  proof (cases "l = - 1")
    case True
    then show thesis using b z n R by (intro that [of it' 0 True]) (simp_all add: BinarySeek_def split: if_splits)
  next
    case False
    then have "nat (l + 1) = Suc (nat l)" using b(4) by (simp add: nat_add_distrib)
    then show thesis using False b z n by (intro that [of it' "nat l" s]) (auto simp: BinarySeek_def split: if_splits)
  qed
qed


context entry_decoder
begin

lemma FindKeyAfterBinarySeek_ok:
  assumes ok: "block_ok L R it" "L \<noteq> []" "IterKey_inv (bi_raw_key it)" "ordered L it target"
    and j: "j < length R" "s \<longrightarrow> (j = 0 \<and> 0 < cmp_at L it target (R ! 0)) \<or> cmp_at L it target (R ! j) = 0"
      "\<not> s \<longrightarrow> cmp_at L it target (R ! j) < 0 \<and> (Suc j < length R \<longrightarrow> 0 < cmp_at L it target (R ! Suc j))"
  obtains it' p where "FindKeyAfterBinarySeek dec target j s it = Some it'" "core it' = core it" "at_pos L R it' p"
    "seek_result L it target p" "regular R it \<longrightarrow> bi_cur_entry_idx it' = int p"
proof -
  have r: "restarts_ok L R" using ok(1) by (simp add: block_ok_def)
  then have 0: "R ! 0 = 0" by (simp add: restarts_ok_def)
  have rj: "R ! j < length L" using restarts_le [OF r j(1)] ok(2) by simp
  obtain it1 where s1: "SeekToRestartPoint j it = Some it1" "core it1 = core it" "before L R it1 (R ! j)"
    using SeekToRestartPoint_ok [OF ok(1) j(1) ok(3)] .
  let ?it1 = "it1\<lparr>bi_cur_entry_idx := int (j * bi_block_restart_interval it) - 1\<rparr>"
  have c1: "core ?it1 = core it" using s1(2) by simp
  have ok1: "block_ok L R ?it1" using ok(1) block_ok_core [OF c1] by simp
  have b1: "before L R ?it1 (R ! j)" using s1(3) by simp
  obtain it2 where n: "NextImpl dec ?it1 = Some it2" "core it2 = core ?it1" "at_pos L R it2 (R ! j)"
    "bi_cur_entry_idx it2 = bi_cur_entry_idx ?it1 + 1"
    using NextImpl_ok [OF ok1 b1] .
  have c2: "core it2 = core it" using n(2) c1 by simp
  have ok2: "block_ok L R it2" using ok(1) block_ok_core [OF c2] by simp
  have iv: "bi_block_restart_interval it1 = bi_block_restart_interval it" using core_fields(12) [OF s1(2)] .
  have idx: "bi_cur_entry_idx it2 = int (j * bi_block_restart_interval it)" using n(4) by simp
  have reg: "regular R it \<Longrightarrow> R ! j = j * bi_block_restart_interval it" using j(1) by (simp add: regular_def)
  show thesis
  proof (cases s)
    case True
    have "FindKeyAfterBinarySeek dec target j s it = Some it2"
      using s1(1) n(1) True iv by (simp add: FindKeyAfterBinarySeek_def)
    moreover have "seek_result L it target (R ! j)"
    proof (cases "cmp_at L it target (R ! j) = 0")
      case True
      then show ?thesis using rj ordered_less [OF ok(4) _ rj] by (simp add: seek_result_def)
    next
      case False
      then have "j = 0" "0 < cmp_at L it target (R ! 0)" using j(2) \<open>s\<close> by blast+
      then show ?thesis using 0 by (simp add: seek_result_def)
    qed
    moreover have "regular R it \<longrightarrow> bi_cur_entry_idx it2 = int (R ! j)" using idx reg by simp
    ultimately show thesis by (intro that [OF _ c2 n(3)])
  next
    case False
    define r' where "r' = (if Suc j < length R then R ! Suc j else length L)"
    have r': "r' \<le> length L" "Suc (R ! j) \<le> r'" "Suc j < length R \<longleftrightarrow> r' < length L"
      using restarts_le(2) [OF r, of "Suc j"] restarts_less [OF r, of j "Suc j"] ok(2) rj by (auto simp: r'_def)
    have m: "(if j + 1 < bi_num_restarts it2 then map_option Some (GetRestartPoint it2 (j + 1)) else Some None) =
        Some (if r' < length L then Some (off L r') else None)"
    proof -
      have n: "bi_num_restarts it2 = length R" using ok2 by (simp add: block_ok_def)
      show ?thesis
      proof (cases "Suc j < length R")
        case True
        moreover have "r' < length L" using True r'(3) by blast
        moreover have "r' = R ! Suc j" using True by (simp add: r'_def)
        ultimately show ?thesis using GetRestartPoint_ok [OF ok2 True] n by simp
      next
        case False
        moreover have "\<not> r' < length L" using False r'(3) by blast
        ultimately show ?thesis using n by simp
      qed
    qed
    have b: "before L R it2 (Suc (R ! j))" using here_before [OF at_here [OF n(3) rj] ok2] .
    obtain p it' where p: "linear_scan dec target (if r' < length L then Some (off L r') else None) it2 = Some it'" "core it' = core it2"
      "at_pos L R it' p" "Suc (R ! j) \<le> p" "p \<le> r'" "\<forall>i. Suc (R ! j) \<le> i \<and> i < p \<longrightarrow> cmp_at L it2 target i < 0"
      "p < r' \<longrightarrow> 0 \<le> cmp_at L it2 target p" "bi_cur_entry_idx it' = bi_cur_entry_idx it2 + 1 + int (p - Suc (R ! j))"
      using linear_scan_ok [OF ok2 b r'(1,2) refl] by blast
    have "FindKeyAfterBinarySeek dec target j s it = Some it'"
      using s1(1) n(1) False iv m p(1) by (simp add: FindKeyAfterBinarySeek_def)
    moreover have "cmp_at L it target i < 0" if "i < p" for i
    proof (cases "i \<le> R ! j")
      case True
      then show ?thesis using j(3) False ordered_less [OF ok(4) _ rj, of i] by (cases "i = R ! j") auto
    next
      case False
      then show ?thesis using p(6) that cmp_at_core [OF c2] by simp
    qed
    moreover have "0 \<le> cmp_at L it target p" if "p < length L"
    proof (cases "p < r'")
      case True
      then show ?thesis using p(7) cmp_at_core [OF c2, of L] by simp
    next
      case ge: False
      then have "p = r'" using p(5) by simp
      then have "Suc j < length R" using that r'(3) by blast
      then show ?thesis using j(3) False \<open>p = r'\<close> by (simp add: r'_def)
    qed
    moreover have "p \<le> length L" using p(5) r'(1) by simp
    ultimately have "FindKeyAfterBinarySeek dec target j s it = Some it'" "seek_result L it target p"
      by (simp_all add: seek_result_def)
    moreover have "regular R it \<longrightarrow> bi_cur_entry_idx it' = int p" using p(4,8) idx reg by simp
    ultimately show thesis using p(2) c2 by (intro that [OF _ _ p(3)]) simp_all
  qed
qed

lemma SeekImpl_ok:
  assumes "block_ok L R it" "at_pos L R it q" "ordered L it target"
  obtains it' p where "SeekImpl dec target it = Some it'" "core it' = core it" "at_pos L R it' p" "seek_result L it target p"
    "L \<noteq> [] \<longrightarrow> regular R it \<longrightarrow> bi_cur_entry_idx it' = int p"
proof (cases "L = []")
  case True
  then have "BinarySeek target it = Some (it, None)" using assms(1) by (simp add: BinarySeek_def block_ok_def off_def)
  then have "SeekImpl dec target it = Some it" by (simp add: SeekImpl_def)
  moreover have "q = 0" using assms(2) True by (simp add: at_pos_def)
  then have "at_pos L R it 0" using assms(2) by simp
  moreover have "seek_result L it target 0" using True by (simp add: seek_result_def)
  ultimately show thesis using True by (intro that [of it 0]) simp_all
next
  case False
  obtain it1 j s where b: "BinarySeek target it = Some (it1, Some (j, s))" "core it1 = core it" "IterKey_inv (bi_raw_key it1)"
    "j < length R" "s \<longrightarrow> (j = 0 \<and> 0 < cmp_at L it target (R ! 0)) \<or> cmp_at L it target (R ! j) = 0"
    "\<not> s \<longrightarrow> cmp_at L it target (R ! j) < 0 \<and> (Suc j < length R \<longrightarrow> 0 < cmp_at L it target (R ! Suc j))"
    using BinarySeek_ok [OF assms(1) False at_inv [OF assms(2)]] .
  note c = cmp_at_core [OF b(2), of L]
  have o: "ordered L it1 target" using assms(3) seek_core(1) [OF b(2)] by simp
  have ok: "block_ok L R it1" using assms(1) block_ok_core [OF b(2)] by simp
  obtain it2 p where f: "FindKeyAfterBinarySeek dec target j s it1 = Some it2" "core it2 = core it1" "at_pos L R it2 p"
    "seek_result L it1 target p" "regular R it1 \<longrightarrow> bi_cur_entry_idx it2 = int p"
    using FindKeyAfterBinarySeek_ok [OF ok False b(3) o b(4) b(5,6) [folded c]] .
  have "SeekImpl dec target it = Some it2" using b(1) f(1) by (simp add: SeekImpl_def ok_data [OF assms(1)])
  then show thesis using that [of it2 p] f(2-5) b(2) regular_core [OF b(2)] seek_core(2) [OF b(2)] by simp
qed

end

end
