(* ===== verification/Block_Moves.thy ===== *)
theory Block_Moves
  imports Block_Cursor
begin

unbundle bit_operations_syntax

text \<open>
  The remaining moves of the block iterators: to the ends of the block, backwards with and without the cache of
  previous entries, to the last entry not greater than a target; and the key and value an iterator shows.
\<close>

section \<open>Ends of the block\<close>

context entry_decoder
begin

lemma SeekToFirstImpl_ok:
  assumes "block_ok L R it" "IterKey_inv (bi_raw_key it)"
  obtains it' where "SeekToFirstImpl dec it = Some it'" "core it' = core it" "at_pos L R it' 0" "bi_cur_entry_idx it' = 0"
proof -
  have r: "0 < length R" "R ! 0 = 0" using assms(1) by (auto simp: block_ok_def restarts_ok_def)
  obtain it1 where s: "SeekToRestartPoint 0 it = Some it1" "core it1 = core it" "before L R it1 (R ! 0)"
    using SeekToRestartPoint_ok [OF assms(1) r(1) assms(2)] .
  have ok: "block_ok L R it1" using assms(1) block_ok_core [OF s(2)] by simp
  obtain it2 where n: "NextImpl dec it1 = Some it2" "core it2 = core it1" "at_pos L R it2 (R ! 0)"
    using NextImpl_ok [OF ok s(3)] .
  from n(1) obtain it3 b where p: "ParseNextKey dec it1 = Some (it3, b)" "it2 = it3\<lparr>bi_cur_entry_idx := bi_cur_entry_idx it3 + 1\<rparr>"
    by (auto simp: NextImpl_def bind_eq_Some_conv)
  show thesis
    using s(1,2) n(2,3) r(2) p
    by (intro that [of "it3\<lparr>bi_cur_entry_idx := 0\<rparr>"]) (simp_all add: SeekToFirstImpl_def ok_data [OF assms(1)] split: prod.split)
qed

lemma skip_to_last_ok:
  assumes "block_ok L R it" "before L R it i" "i < length L"
  shows "\<exists>it'. skip_to_last dec it = Some it' \<and> core it' = core it \<and> at_pos L R it' (length L - 1) \<and>
    bi_cur_entry_idx it' = bi_cur_entry_idx it + int (length L - 1 - i)"
  using assms
proof (induction "length L - i" arbitrary: i it)
  case (Suc d)
  obtain it1 where p: "ParseNextKey dec it = Some (it1, True, e_shared (L ! i) \<noteq> 0)" "core it1 = core it" "here L R it1 i"
    "bi_cur_entry_idx it1 = bi_cur_entry_idx it" using ParseNextKey_ok [OF Suc(3-5)] .
  have ok: "block_ok L R it1" using Suc(3) block_ok_core [OF p(2)] by simp
  note b = here_before [OF p(3) ok]
  then have nx: "NextEntryOffset it1 = Some (off L (Suc i))" by (simp add: before_def)
  have r: "bi_restarts it1 = off L (length L)" using ok by (simp add: block_ok_def)
  show ?case
  proof (cases "Suc i < length L")
    case True
    let ?it1 = "it1\<lparr>bi_cur_entry_idx := bi_cur_entry_idx it1 + 1\<rparr>"
    have "skip_to_last dec it = skip_to_last dec ?it1"
      using p(1) nx r True by (subst skip_to_last.simps) (simp add: off_less_iff)
    moreover have "d = length L - Suc i" "block_ok L R ?it1" "before L R ?it1 (Suc i)"
      using Suc(2) ok b block_ok_core [of ?it1 it1] by simp_all
    from Suc(1) [OF this True] obtain it' where "skip_to_last dec ?it1 = Some it'" "core it' = core ?it1" "at_pos L R it' (length L - 1)"
      "bi_cur_entry_idx it' = bi_cur_entry_idx ?it1 + int (length L - 1 - Suc i)" by blast
    ultimately show ?thesis using p(2,4) True by (intro exI [of _ it']) simp
  next
    case False
    then have i: "Suc i = length L" using Suc(5) by simp
    then have "skip_to_last dec it = Some it1" using p(1) nx r by (subst skip_to_last.simps) simp
    moreover have "i = length L - 1" using i by simp
    ultimately show ?thesis using p(2,4) here_at [OF p(3)] by (intro exI [of _ it1]) simp
  qed
qed simp

lemma SeekToLastImpl_ok:
  assumes "block_ok L R it" "IterKey_inv (bi_raw_key it)"
  obtains it' where "SeekToLastImpl dec it = Some it'" "core it' = core it" "at_pos L R it' (length L - 1)"
    "L \<noteq> [] \<longrightarrow> regular R it \<longrightarrow> bi_cur_entry_idx it' = int (length L - 1)"
proof -
  have r: "restarts_ok L R" "length R - 1 < length R" "bi_num_restarts it = length R"
    using assms(1) by (auto simp: block_ok_def restarts_ok_def)
  obtain it1 where s: "SeekToRestartPoint (length R - 1) it = Some it1" "core it1 = core it" "before L R it1 (R ! (length R - 1))"
    using SeekToRestartPoint_ok [OF assms(1) r(2) assms(2)] .
  let ?it1 = "it1\<lparr>bi_cur_entry_idx := int ((length R - 1) * bi_block_restart_interval it)\<rparr>"
  have c: "core ?it1 = core it" using s(2) by simp
  have ok: "block_ok L R ?it1" using assms(1) block_ok_core [OF c] by simp
  have b: "before L R ?it1 (R ! (length R - 1))" using s(3) by simp
  have iv: "bi_block_restart_interval it1 = bi_block_restart_interval it" "bi_num_restarts it1 = length R"
    using core_fields(12,3) [OF s(2)] r(3) by simp_all
  have e: "SeekToLastImpl dec it = skip_to_last dec ?it1"
    using s(1) r(3) iv by (simp add: SeekToLastImpl_def ok_data [OF assms(1)])
  show thesis
  proof (cases "L = []")
    case True
    then have "R ! (length R - 1) = length L" using b by (simp add: before_def)
    with b have "before L R ?it1 (length L)" by (simp only:)
    from ParseNextKey_end [OF ok this] have "skip_to_last dec ?it1 = Some (no_more_entries ?it1)"
      by (subst skip_to_last.simps) simp
    moreover have "at_pos L R (no_more_entries ?it1) (length L - 1)"
      using end_pos [OF ok] b True by (simp add: before_def)
    ultimately show thesis using that [of "no_more_entries ?it1"] e c True by simp
  next
    case False
    have lt: "R ! (length R - 1) < length L" using restarts_le(2) [OF r(1,2) False] .
    from skip_to_last_ok [OF ok b lt] obtain it' where "skip_to_last dec ?it1 = Some it'" "core it' = core ?it1"
      "at_pos L R it' (length L - 1)"
      "bi_cur_entry_idx it' = bi_cur_entry_idx ?it1 + int (length L - 1 - R ! (length R - 1))" by blast
    moreover have "R ! (length R - 1) = (length R - 1) * bi_block_restart_interval it" if "regular R it"
      using that r(2) by (simp add: regular_def)
    ultimately show thesis using e c lt by (intro that [of it']) auto
  qed
qed

end

section \<open>Backwards\<close>

lemma scan_back_ok:
  assumes "block_ok L R it" "i < length L" "index < length R"
  shows "if i = 0 then scan_back (off L i) it index = Some None
    else \<exists>j < length R. R ! j < i \<and> scan_back (off L i) it index = Some (Some j)"
  using assms(3)
proof (induction index)
  case 0
  have "R ! 0 = 0" using assms(1) by (auto simp: block_ok_def restarts_ok_def)
  then show ?case using GetRestartPoint_ok [OF assms(1) 0] 0 assms(2) off_le_iff [of i L 0] by auto
next
  case (Suc index)
  have r: "restarts_ok L R" using assms(1) by (simp add: block_ok_def)
  have le: "off L i \<le> off L (R ! Suc index) \<longleftrightarrow> i \<le> R ! Suc index"
    using restarts_le(1) [OF r Suc.prems] assms(2) by (simp add: off_le_iff)
  have g: "GetRestartPoint it (Suc index) = Some (off L (R ! Suc index))" using GetRestartPoint_ok [OF assms(1) Suc.prems] .
  show ?case
  proof (cases "i \<le> R ! Suc index")
    case True
    then have "scan_back (off L i) it (Suc index) = scan_back (off L i) it index" using g le by simp
    then show ?thesis using Suc.IH [OF Suc_lessD [OF Suc.prems]] by (simp only:)
  next
    case False
    then show ?thesis using g le Suc.prems by auto
  qed
qed

context entry_decoder
begin

lemma parse_until_ok:
  assumes "block_ok L R it" "before L R it k" "k < i" "i < length L"
  shows "\<exists>it'. parse_until dec (off L i) it = Some it' \<and> core it' = core it \<and> here L R it' (i - 1) \<and>
    bi_cur_entry_idx it' = bi_cur_entry_idx it"
  using assms
proof (induction "i - k" arbitrary: k it)
  case (Suc d)
  then have k: "k < length L" by simp
  obtain it1 where p: "ParseNextKey dec it = Some (it1, True, e_shared (L ! k) \<noteq> 0)" "core it1 = core it" "here L R it1 k"
    "bi_cur_entry_idx it1 = bi_cur_entry_idx it" using ParseNextKey_ok [OF Suc(3,4) k] .
  have ok: "block_ok L R it1" using Suc(3) block_ok_core [OF p(2)] by simp
  note b = here_before [OF p(3) ok]
  then have nx: "NextEntryOffset it1 = Some (off L (Suc k))" by (simp add: before_def)
  have lt: "off L (Suc k) < off L i \<longleftrightarrow> Suc k < i" using k Suc(6) by (simp add: off_less_iff)
  show ?case
  proof (cases "Suc k < i")
    case True
    have "parse_until dec (off L i) it = parse_until dec (off L i) it1"
      using p(1) nx lt True by (subst parse_until.simps) simp
    moreover have "d = i - Suc k" using Suc(2) by simp
    from Suc(1) [OF this ok b True Suc(6)] obtain it' where "parse_until dec (off L i) it1 = Some it'" "core it' = core it1"
      "here L R it' (i - 1)" "bi_cur_entry_idx it' = bi_cur_entry_idx it1" by blast
    ultimately show ?thesis using p(2,4) by (intro exI [of _ it']) simp
  next
    case False
    then have "parse_until dec (off L i) it = Some it1" using p(1) nx lt by (subst parse_until.simps) simp
    moreover have "k = i - 1" using False Suc(5) by simp
    ultimately show ?thesis using p by (intro exI [of _ it1]) simp
  qed
qed simp

end


text \<open>What no move changes: everything but the position and the cache; and what no public operation changes, which also sets the
  shown key.\<close>

definition kept :: "block_iter \<Rightarrow> block_iter" where
  "kept it = (core it)\<lparr>bi_prev_entries_keys_buff := [], bi_prev_entries := [], bi_prev_entries_idx := - 1\<rparr>"

definition static :: "block_iter \<Rightarrow> block_iter" where
  "static it = (kept it)\<lparr>bi_key_buf := IterKey_init, bi_key := []\<rparr>"

text \<open>Entry \<open>c\<close> of the cache holds entry \<open>i\<close> of the block.\<close>

definition caches :: "entry list \<Rightarrow> block_iter \<Rightarrow> CachedPrevEntry \<Rightarrow> nat \<Rightarrow> bool" where
  "caches L it c i \<longleftrightarrow> cp_offset c = off L i \<and> cp_value c = vspan L i \<and> cached_key c it = rkey it (e_key (L ! i)) \<and>
     (cp_key_in_block c = None \<longrightarrow> cp_key_offset c + cp_key_size c \<le> length (bi_prev_entries_keys_buff it))"

definition cache_run :: "entry list \<Rightarrow> block_iter \<Rightarrow> nat \<Rightarrow> bool" where
  "cache_run L it k \<longleftrightarrow> k + length (bi_prev_entries it) \<le> length L \<and>
     (\<forall>j < length (bi_prev_entries it). caches L it (bi_prev_entries it ! j) (k + j))"

definition cached :: "entry list \<Rightarrow> block_iter \<Rightarrow> bool" where
  "cached L it \<longleftrightarrow> - 1 \<le> bi_prev_entries_idx it \<and> bi_prev_entries_idx it < int (length (bi_prev_entries it)) \<and>
     (\<exists>k. cache_run L it k)"

lemma static_sel:
  "bi_ucmp (static it) = bi_ucmp it" "bi_data (static it) = bi_data it" "bi_num_restarts (static it) = bi_num_restarts it"
  "bi_restarts (static it) = bi_restarts it" "bi_status (static it) = bi_status it" "bi_global_seqno (static it) = bi_global_seqno it"
  "bi_ts_sz (static it) = bi_ts_sz it" "bi_pad_min_timestamp (static it) = bi_pad_min_timestamp it"
  "bi_kv_checksum (static it) = bi_kv_checksum it" "bi_block_restart_interval (static it) = bi_block_restart_interval it"
  "bi_protection_bytes_per_key (static it) = bi_protection_bytes_per_key it" "bi_hash_index (static it) = bi_hash_index it"
  "ik_is_user_key (bi_raw_key (static it)) = ik_is_user_key (bi_raw_key it)"
  by (simp_all add: static_def kept_def core_def)

lemma static_fields:
  assumes "static it' = static it"
  shows "bi_ucmp it' = bi_ucmp it" "bi_data it' = bi_data it" "bi_num_restarts it' = bi_num_restarts it"
    "bi_restarts it' = bi_restarts it" "bi_status it' = bi_status it" "bi_global_seqno it' = bi_global_seqno it"
    "bi_ts_sz it' = bi_ts_sz it" "bi_pad_min_timestamp it' = bi_pad_min_timestamp it"
    "bi_kv_checksum it' = bi_kv_checksum it" "bi_block_restart_interval it' = bi_block_restart_interval it"
    "bi_protection_bytes_per_key it' = bi_protection_bytes_per_key it" "bi_hash_index it' = bi_hash_index it"
    "ik_is_user_key (bi_raw_key it') = ik_is_user_key (bi_raw_key it)"
  using arg_cong [OF assms, of bi_ucmp] arg_cong [OF assms, of bi_data] arg_cong [OF assms, of bi_num_restarts]
    arg_cong [OF assms, of bi_restarts] arg_cong [OF assms, of bi_status] arg_cong [OF assms, of bi_global_seqno]
    arg_cong [OF assms, of bi_ts_sz] arg_cong [OF assms, of bi_pad_min_timestamp] arg_cong [OF assms, of bi_kv_checksum]
    arg_cong [OF assms, of bi_block_restart_interval] arg_cong [OF assms, of bi_protection_bytes_per_key]
    arg_cong [OF assms, of bi_hash_index] arg_cong [OF assms, of "\<lambda>it. ik_is_user_key (bi_raw_key it)"]
  by (simp_all only: static_sel)

lemma rkey_cache [simp]:
  "rkey (it\<lparr>bi_prev_entries := a\<rparr>) = rkey it" "rkey (it\<lparr>bi_prev_entries_keys_buff := b\<rparr>) = rkey it"
  "rkey (it\<lparr>bi_prev_entries_idx := c\<rparr>) = rkey it" "rkey (it\<lparr>bi_key_buf := d\<rparr>) = rkey it" "rkey (it\<lparr>bi_key := e\<rparr>) = rkey it"
  by (simp_all add: rkey_def fun_eq_iff)

lemma cached_key_simps [simp]:
  "cached_key e (it\<lparr>bi_prev_entries_idx := a\<rparr>) = cached_key e it" "cached_key e (it\<lparr>bi_current := b\<rparr>) = cached_key e it"
  "cached_key e (it\<lparr>bi_raw_key := c\<rparr>) = cached_key e it" "cached_key e (it\<lparr>bi_value := d\<rparr>) = cached_key e it"
  "cached_key e (it\<lparr>bi_cur_entry_idx := f\<rparr>) = cached_key e it" "cached_key e (it\<lparr>bi_key := g\<rparr>) = cached_key e it"
  "cached_key e (it\<lparr>bi_key_buf := h\<rparr>) = cached_key e it"
  by (cases "cp_key_in_block e"; simp add: cached_key_def)+

lemma static_core:
  assumes "core it' = core it"
  shows "static it' = static it" "kept it' = kept it"
  by (simp_all add: static_def kept_def assms)

lemma kept_static:
  assumes "kept it' = kept it"
  shows "static it' = static it" "bi_key_buf it' = bi_key_buf it"
proof -
  show "static it' = static it" by (simp add: static_def assms)
  have "bi_key_buf (kept i) = bi_key_buf i" for i by (simp add: kept_def core_def)
  then show "bi_key_buf it' = bi_key_buf it" using assms by metis
qed

lemma static_views:
  assumes "static it' = static it"
  shows "rkey it' = rkey it" "block_ok L R it' = block_ok L R it" "cmp_at L it' = cmp_at L it" "regular R it' = regular R it"
    "ordered L it' = ordered L it" "seek_result L it' = seek_result L it"
proof -
  show r: "rkey it' = rkey it" by (rule ext) (simp add: rkey_def static_fields [OF assms])
  show "block_ok L R it' = block_ok L R it" by (simp add: block_ok_def static_fields [OF assms])
  show c: "cmp_at L it' = cmp_at L it" by (intro ext) (simp add: cmp_at_def cmp_key_def static_fields [OF assms] r)
  show "regular R it' = regular R it" by (simp add: regular_def static_fields [OF assms])
  show "ordered L it' = ordered L it" "seek_result L it' = seek_result L it"
    by (intro ext, simp add: ordered_def seek_result_def c)+
qed

lemma cached_core:
  assumes "core it' = core it"
  shows "cached L it' = cached L it" "cache_run L it' k = cache_run L it k"
proof -
  note c = core_fields [OF assms] rkey_core [OF assms]
  have k: "cached_key e it' = cached_key e it" for e by (cases "cp_key_in_block e") (simp_all add: cached_key_def c)
  show r: "cache_run L it' k = cache_run L it k" for k by (simp add: cache_run_def caches_def k c)
  show "cached L it' = cached L it" by (simp add: cached_def r c)
qed

text \<open>Appending the current entry to the cache.\<close>

lemma cache_entry_ok:
  assumes "here L R it i" "cache_run L it k" "i = k + length (bi_prev_entries it)"
  obtains it' where "cache_entry it = Some it'" "cache_run L it' k" "bi_prev_entries_idx it' = bi_prev_entries_idx it"
    "length (bi_prev_entries it') = Suc (length (bi_prev_entries it))" "kept it' = kept it" "here L R it' i"
    "bi_cur_entry_idx it' = bi_cur_entry_idx it"
proof -
  let ?key = "GetKey (bi_raw_key it)"
  define c where "c = (if IsKeyPinned (bi_raw_key it)
    then \<lparr>cp_offset = bi_current it, cp_key_in_block = Some ?key, cp_key_offset = 0, cp_key_size = length ?key, cp_value = vspan L i\<rparr>
    else \<lparr>cp_offset = bi_current it, cp_key_in_block = None, cp_key_offset = length (bi_prev_entries_keys_buff it),
          cp_key_size = length ?key, cp_value = vspan L i\<rparr>)"
  define buff where "buff = (if IsKeyPinned (bi_raw_key it) then [] else ?key)"
  define it' where "it' = it\<lparr>bi_prev_entries_keys_buff := bi_prev_entries_keys_buff it @ buff, bi_prev_entries := bi_prev_entries it @ [c]\<rparr>"
  have "cache_entry it = Some it'"
    using assms(1) by (simp add: cache_entry_def here_def it'_def c_def buff_def Let_def)
  moreover have rk: "rkey it' = rkey it" by (simp add: it'_def)
  moreover have "caches L it' c i"
    using assms(1) by (auto simp: caches_def c_def buff_def it'_def here_def cached_key_def )
  moreover have "caches L it' d j" if "caches L it d j" for d j
    using that by (auto simp: caches_def it'_def cached_key_def  split: option.splits)
  ultimately have run: "cache_run L it' k"
    using assms by (auto simp: cache_run_def it'_def nth_append less_Suc_eq here_def)
  show thesis
    by (rule that [OF \<open>cache_entry it = Some it'\<close> run])
      (use assms(1) rk in \<open>simp_all add: it'_def here_def kept_def core_def\<close>)
qed


lemma parse_and_cache_ok:
  assumes "block_ok L R it" "before L R it m" "cache_run L it k" "m = k + length (bi_prev_entries it)" "m < i" "i < length L"
  shows "\<exists>it'. parse_and_cache (off L i) it = Some it' \<and> kept it' = kept it \<and> here L R it' (i - 1) \<and> cache_run L it' k \<and>
    k + length (bi_prev_entries it') = i \<and> bi_cur_entry_idx it' = bi_cur_entry_idx it"
  using assms
proof (induction "i - m" arbitrary: m it)
  case (Suc d)
  then have m: "m < length L" by simp
  obtain it1 where p: "ParseNextKey DecodeEntry it = Some (it1, True, e_shared (L ! m) \<noteq> 0)" "core it1 = core it" "here L R it1 m"
    "bi_cur_entry_idx it1 = bi_cur_entry_idx it" using data_decoder.ParseNextKey_ok [OF Suc(3,4) m] .
  have run: "cache_run L it1 k" "m = k + length (bi_prev_entries it1)"
    using Suc(5,6) cached_core(2) [OF p(2)] core_fields(15) [OF p(2)] by simp_all
  obtain it2 where c: "cache_entry it1 = Some it2" "cache_run L it2 k" "bi_prev_entries_idx it2 = bi_prev_entries_idx it1"
    "length (bi_prev_entries it2) = Suc (length (bi_prev_entries it1))" "kept it2 = kept it1" "here L R it2 m"
    "bi_cur_entry_idx it2 = bi_cur_entry_idx it1" using cache_entry_ok [OF p(3) run] .
  have st: "kept it2 = kept it" using c(5) static_core(2) [OF p(2)] by simp
  have ok: "block_ok L R it2" using Suc(3) static_views(2) [OF kept_static(1) [OF st]] by simp
  note b = here_before [OF c(6) ok]
  then have nx: "NextEntryOffset it2 = Some (off L (Suc m))" by (simp add: before_def)
  have lt: "off L (Suc m) < off L i \<longleftrightarrow> Suc m < i" using m Suc(8) by (simp add: off_less_iff)
  show ?case
  proof (cases "Suc m < i")
    case True
    have "parse_and_cache (off L i) it = parse_and_cache (off L i) it2"
      using p(1) c(1) nx lt True by (subst parse_and_cache.simps) simp
    moreover have "d = i - Suc m" "Suc m = k + length (bi_prev_entries it2)" using Suc(2) c(4) run(2) by simp_all
    from Suc(1) [OF this(1) ok b c(2) this(2) True Suc(8)] obtain it' where "parse_and_cache (off L i) it2 = Some it'"
      "kept it' = kept it2" "here L R it' (i - 1)" "cache_run L it' k" "k + length (bi_prev_entries it') = i"
      "bi_cur_entry_idx it' = bi_cur_entry_idx it2" by blast
    ultimately show ?thesis using p(4) c(7) st by (intro exI [of _ it']) simp
  next
    case False
    then have "parse_and_cache (off L i) it = Some it2" using p(1) c(1) nx lt by (subst parse_and_cache.simps) simp
    moreover have "m = i - 1" "Suc m = i" using False Suc(7) by simp_all
    ultimately show ?thesis using p(4) c st run(2) by (intro exI [of _ it2]) simp
  qed
qed simp

text \<open>Where \<^verbatim>\<open>Prev\<close> goes from entry \<open>i\<close>.\<close>

definition prev_pos :: "entry list \<Rightarrow> nat \<Rightarrow> nat" where
  "prev_pos L i = (if i = 0 then length L else i - 1)"

lemma clear_cache:
  "kept (clear_prev_cache it) = kept it" "cache_run L (clear_prev_cache it) k \<longleftrightarrow> k \<le> length L"
  "here L R (clear_prev_cache it) i = here L R it i" "bi_restart_index (clear_prev_cache it) = bi_restart_index it"
  "bi_current (clear_prev_cache it) = bi_current it" "bi_cur_entry_idx (clear_prev_cache it) = bi_cur_entry_idx it"
  "bi_raw_key (clear_prev_cache it) = bi_raw_key it" "bi_prev_entries (clear_prev_cache it) = []"
  "bi_prev_entries_idx (clear_prev_cache it) = - 1"
  by (simp_all add: clear_prev_cache_def kept_def core_def cache_run_def here_def)

text \<open>The step without the cache, which fills it.\<close>

lemma prev_scan_ok:
  assumes ok: "block_ok L R it" and h: "here L R it i"
  shows "\<exists>it'. do {
       r \<leftarrow> scan_back (bi_current it) (clear_prev_cache it) (bi_restart_index it);
       case r of None \<Rightarrow> Some (no_more_entries (clear_prev_cache it))
       | Some index \<Rightarrow> do {
           it' \<leftarrow> SeekToRestartPoint index (clear_prev_cache it);
           it' \<leftarrow> parse_and_cache (bi_current it) it';
           Some (it'\<lparr>bi_prev_entries_idx := int (length (bi_prev_entries it')) - 1\<rparr>) } } = Some it' \<and>
     kept it' = kept it \<and> cached L it' \<and> at_pos L R it' (prev_pos L i) \<and> bi_cur_entry_idx it' = bi_cur_entry_idx it"
proof -
  let ?c = "clear_prev_cache it"
  have okc: "block_ok L R ?c" using ok static_views(2) [OF kept_static(1) [OF clear_cache(1)]] by simp
  have i: "i < length L" "bi_current it = off L i" "bi_restart_index it < length R" "IterKey_inv (bi_raw_key it)"
    using h by (simp_all add: here_def)
  note sb = scan_back_ok [OF okc i(1) i(3)]
  show ?thesis
  proof (cases "i = 0")
    case True
    then have "scan_back (bi_current it) ?c (bi_restart_index it) = Some None" using sb i(2) by simp
    moreover have "kept (no_more_entries ?c) = kept it" using static_core(2) [OF core_no_more] clear_cache(1) by metis
    moreover have "cached L (no_more_entries ?c)"
      using cached_core(1) [OF core_no_more, of L ?c] by (simp add: cached_def clear_cache) blast
    moreover have "at_pos L R (no_more_entries ?c) (prev_pos L i)"
      using end_pos [OF okc] i(4) True by (simp add: prev_pos_def clear_cache)
    moreover have "bi_cur_entry_idx (no_more_entries ?c) = bi_cur_entry_idx it" by (simp add: no_more_entries_def clear_cache)
    ultimately show ?thesis by (intro exI [of _ "no_more_entries ?c"]) simp
  next
    case False
    then obtain j where j: "j < length R" "R ! j < i" "scan_back (bi_current it) ?c (bi_restart_index it) = Some (Some j)"
      using sb i(2) by auto
    have "IterKey_inv (bi_raw_key ?c)" using i(4) by (simp add: clear_cache)
    from SeekToRestartPoint_ok [OF okc j(1) this] obtain it1 where s: "SeekToRestartPoint j ?c = Some it1" "core it1 = core ?c"
      "before L R it1 (R ! j)" "bi_cur_entry_idx it1 = bi_cur_entry_idx ?c" .
    have ok1: "block_ok L R it1" using okc block_ok_core [OF s(2)] by simp
    have run: "cache_run L it1 (R ! j)" using cached_core(2) [OF s(2)] j(2) i(1) by (simp add: clear_cache)
    have e: "R ! j = R ! j + length (bi_prev_entries it1)" using core_fields(15) [OF s(2)] by (simp add: clear_cache)
    from parse_and_cache_ok [OF ok1 s(3) run e j(2) i(1)] obtain it2 where p: "parse_and_cache (off L i) it1 = Some it2"
      "kept it2 = kept it1" "here L R it2 (i - 1)" "cache_run L it2 (R ! j)" "R ! j + length (bi_prev_entries it2) = i"
      "bi_cur_entry_idx it2 = bi_cur_entry_idx it1" by blast
    let ?it' = "it2\<lparr>bi_prev_entries_idx := int (length (bi_prev_entries it2)) - 1\<rparr>"
    have "kept ?it' = kept it2" by (simp add: kept_def core_def)
    also have "\<dots> = kept it" using p(2) static_core(2) [OF s(2)] clear_cache(1) by simp
    finally have "kept ?it' = kept it" .
    moreover have "cache_run L ?it' (R ! j)" using p(4) by (simp add: cache_run_def caches_def)
    then have "cached L ?it'" by (auto simp: cached_def)
    moreover have "here L R ?it' (i - 1)" using p(3) by (simp add: here_def)
    then have "at_pos L R ?it' (prev_pos L i)" using False here_at by (simp add: prev_pos_def)
    moreover have "bi_cur_entry_idx ?it' = bi_cur_entry_idx it" using p(6) s(4) by (simp add: clear_cache)
    ultimately show ?thesis using j(3) s(1) p(1) i(2) by (intro exI [of _ ?it']) simp
  qed
qed


lemma DataBlockIter_PrevImpl_ok:
  assumes "block_ok L R it" "cached L it" "here L R it i"
  obtains it' where "DataBlockIter_PrevImpl it = Some it'" "kept it' = kept it" "cached L it'" "at_pos L R it' (prev_pos L i)"
    "bi_cur_entry_idx it' = bi_cur_entry_idx it - 1"
proof -
  let ?it = "it\<lparr>bi_cur_entry_idx := bi_cur_entry_idx it - 1\<rparr>" and ?idx = "bi_prev_entries_idx it"
  have c: "core ?it = core it" by simp
  have ok: "block_ok L R ?it" "cached L ?it" "here L R ?it i"
    using assms block_ok_core [OF c] cached_core(1) [OF c] by simp_all
  show thesis
  proof (cases "0 < ?idx \<and> cp_offset (bi_prev_entries it ! nat ?idx) = bi_current it")
    case True
    obtain k where run: "cache_run L it k" and lt: "?idx < int (length (bi_prev_entries it))" using assms(2) by (auto simp: cached_def)
    have lt': "nat ?idx < length (bi_prev_entries it)" using lt True by linarith
    have le: "k + length (bi_prev_entries it) \<le> length L" using run by (simp add: cache_run_def)
    have "cp_offset (bi_prev_entries it ! nat ?idx) = off L (k + nat ?idx)" using run lt' by (simp add: cache_run_def caches_def)
    then have "off L (k + nat ?idx) = off L i" using True assms(3) by (simp add: here_def)
    then have i: "i = k + nat ?idx" using assms(3) lt' le by (simp add: off_eq_iff here_def)
    let ?e = "bi_prev_entries it ! nat (?idx - 1)"
    have n: "nat (?idx - 1) < length (bi_prev_entries it)" "k + nat (?idx - 1) = i - 1" "i \<noteq> 0" "i - 1 < length L" "- 1 \<le> ?idx - 1"
      using i True lt' le by auto
    have e: "caches L it ?e (i - 1)" using run n(1,2) by (auto simp: cache_run_def)
    let ?k = "SetKey (cached_key ?e ?it) (cp_key_in_block ?e = None) (bi_raw_key it)"
    let ?it' = "?it\<lparr>bi_prev_entries_idx := ?idx - 1, bi_current := cp_offset ?e, bi_raw_key := ?k, bi_value := Some (cp_value ?e)\<rparr>"
    have inv: "IterKey_inv (bi_raw_key it)" using assms(3) by (simp add: here_def)
    have k: "IterKey_inv ?k" "GetKey ?k = cached_key ?e it" "ik_is_user_key ?k = ik_is_user_key (bi_raw_key it)"
      using SetKeyImpl_ok [OF inv] by (simp_all add: SetKey_def) (simp add: SetKeyImpl_def Let_def)
    have "DataBlockIter_PrevImpl it = Some ?it'" using True by (simp add: DataBlockIter_PrevImpl_def Let_def)
    moreover have "kept ?it' = kept it" using k(3) by (simp add: kept_def core_def)
    moreover have "cache_run L ?it' k" using run by (simp add: cache_run_def caches_def)
    then have "cached L ?it'" using lt n(5) by (auto simp: cached_def)
    moreover have "here L R ?it' (i - 1)" using e k(1,2) n(4) assms(3) by (simp add: here_def caches_def)
    then have "at_pos L R ?it' (prev_pos L i)" using here_at n(3) by (simp add: prev_pos_def)
    ultimately show thesis by (intro that [of ?it']) simp_all
  next
    case False
    from prev_scan_ok [OF ok(1,3)] obtain it' where it': "do {
       r \<leftarrow> scan_back (bi_current ?it) (clear_prev_cache ?it) (bi_restart_index ?it);
       case r of None \<Rightarrow> Some (no_more_entries (clear_prev_cache ?it))
       | Some index \<Rightarrow> do {
           it' \<leftarrow> SeekToRestartPoint index (clear_prev_cache ?it);
           it' \<leftarrow> parse_and_cache (bi_current ?it) it';
           Some (it'\<lparr>bi_prev_entries_idx := int (length (bi_prev_entries it')) - 1\<rparr>) } } = Some it'"
      "kept it' = kept ?it" "cached L it'" "at_pos L R it' (prev_pos L i)" "bi_cur_entry_idx it' = bi_cur_entry_idx ?it" by blast
    have no: "\<not> (0 < bi_prev_entries_idx ?it \<and> cp_offset (bi_prev_entries ?it ! nat (bi_prev_entries_idx ?it)) = bi_current ?it)"
      using False by simp
    have "DataBlockIter_PrevImpl it = Some it'"
      using it'(1) unfolding DataBlockIter_PrevImpl_def Let_def if_not_P [OF no] clear_cache(4,5) .
    then show thesis using it' static_core(2) [OF c] by (intro that) simp_all
  qed
qed

lemma MetaBlockIter_PrevImpl_ok:
  assumes "block_ok L R it" "cached L it" "here L R it i"
  obtains it' where "MetaBlockIter_PrevImpl CheckAndDecodeEntry it = Some it'" "kept it' = kept it" "cached L it'"
    "at_pos L R it' (prev_pos L i)" "0 < i \<longrightarrow> bi_cur_entry_idx it' = bi_cur_entry_idx it - 1"
proof -
  have i: "i < length L" "bi_current it = off L i" "bi_restart_index it < length R" "IterKey_inv (bi_raw_key it)"
    using assms(3) by (simp_all add: here_def)
  note sb = scan_back_ok [OF assms(1) i(1,3)]
  show thesis
  proof (cases "i = 0")
    case True
    then have "MetaBlockIter_PrevImpl CheckAndDecodeEntry it = Some (no_more_entries it)"
      using sb i(2) by (simp add: MetaBlockIter_PrevImpl_def)
    then show thesis
      using True assms static_core(2) [OF core_no_more] cached_core(1) [OF core_no_more] end_pos [OF assms(1) i(4)]
      by (intro that) (simp_all add: prev_pos_def)
  next
    case False
    then obtain j where j: "j < length R" "R ! j < i" "scan_back (bi_current it) it (bi_restart_index it) = Some (Some j)"
      using sb i(2) by auto
    from SeekToRestartPoint_ok [OF assms(1) j(1) i(4)] obtain it1 where s: "SeekToRestartPoint j it = Some it1" "core it1 = core it"
      "before L R it1 (R ! j)" "bi_cur_entry_idx it1 = bi_cur_entry_idx it" .
    have ok1: "block_ok L R it1" using assms(1) block_ok_core [OF s(2)] by simp
    from meta_decoder.parse_until_ok [OF ok1 s(3) j(2) i(1)] obtain it2 where
      p: "parse_until CheckAndDecodeEntry (off L i) it1 = Some it2" "core it2 = core it1" "here L R it2 (i - 1)"
      "bi_cur_entry_idx it2 = bi_cur_entry_idx it1" by blast
    let ?it' = "it2\<lparr>bi_cur_entry_idx := bi_cur_entry_idx it2 - 1\<rparr>"
    have c: "core ?it' = core it" using p(2) s(2) by simp
    have "MetaBlockIter_PrevImpl CheckAndDecodeEntry it = Some ?it'"
      using j(3) s(1) p(1) i(2) by (simp add: MetaBlockIter_PrevImpl_def)
    then show thesis
      using static_core(2) [OF c] cached_core(1) [OF c] assms(2) here_at [OF p(3)] p(4) s(4) False
      by (intro that [of ?it']) (simp_all add: prev_pos_def)
  qed
qed


text \<open>A decoder with a backward step.\<close>

locale block_cursor = entry_decoder +
  fixes prev :: "block_iter \<Rightarrow> block_iter option"
  assumes prev_ok: "block_ok L R it \<Longrightarrow> cached L it \<Longrightarrow> here L R it i \<Longrightarrow>
    \<exists>it'. prev it = Some it' \<and> kept it' = kept it \<and> cached L it' \<and> at_pos L R it' (prev_pos L i) \<and>
      (0 < i \<longrightarrow> bi_cur_entry_idx it' = bi_cur_entry_idx it - 1)"

interpretation data_cursor: block_cursor DecodeEntry DataBlockIter_PrevImpl
proof
  fix L R it i
  assume "block_ok L R it" "cached L it" "here L R it i"
  from DataBlockIter_PrevImpl_ok [OF this] show "\<exists>it'. DataBlockIter_PrevImpl it = Some it' \<and> kept it' = kept it \<and> cached L it' \<and>
      at_pos L R it' (prev_pos L i) \<and> (0 < i \<longrightarrow> bi_cur_entry_idx it' = bi_cur_entry_idx it - 1)" by blast
qed

interpretation meta_cursor: block_cursor CheckAndDecodeEntry "MetaBlockIter_PrevImpl CheckAndDecodeEntry"
proof
  fix L R it i
  assume "block_ok L R it" "cached L it" "here L R it i"
  from MetaBlockIter_PrevImpl_ok [OF this] show "\<exists>it'. MetaBlockIter_PrevImpl CheckAndDecodeEntry it = Some it' \<and>
      kept it' = kept it \<and> cached L it' \<and> at_pos L R it' (prev_pos L i) \<and>
      (0 < i \<longrightarrow> bi_cur_entry_idx it' = bi_cur_entry_idx it - 1)" by blast
qed

text \<open>The last entry that is not greater than the target, or the end when there is none.\<close>

definition seek_prev_result :: "entry list \<Rightarrow> block_iter \<Rightarrow> slice \<Rightarrow> nat \<Rightarrow> bool" where
  "seek_prev_result L it target q \<longleftrightarrow>
     (if q < length L then cmp_at L it target q \<le> 0 \<and> (\<forall>i < length L. q < i \<longrightarrow> 0 < cmp_at L it target i)
      else q = length L \<and> (\<forall>i < length L. 0 < cmp_at L it target i))"

lemma seek_result_prev:
  assumes "ordered L it target" "seek_result L it target p" "L \<noteq> []"
  shows "p = length L \<Longrightarrow> seek_prev_result L it target (length L - 1)"
    and "p < length L \<Longrightarrow> cmp_at L it target p = 0 \<Longrightarrow> seek_prev_result L it target p"
    and "p < length L \<Longrightarrow> 0 < cmp_at L it target p \<Longrightarrow> seek_prev_result L it target (prev_pos L p)"
proof -
  have above: "0 < cmp_at L it target i" if "p < length L" "0 \<le> cmp_at L it target p" "p < i" "i < length L" for i
    using ordered_less [OF assms(1) that(3,4)] that(2) by linarith
  have below: "cmp_at L it target i < 0" if "i < p" for i using assms(2) that by (simp add: seek_result_def)
  show "seek_prev_result L it target (length L - 1)" if "p = length L"
    using below [of "length L - 1"] that assms(3) by (auto simp: seek_prev_result_def)
  show "seek_prev_result L it target p" if "p < length L" "cmp_at L it target p = 0"
    using above that by (simp add: seek_prev_result_def)
  show "seek_prev_result L it target (prev_pos L p)" if "p < length L" "0 < cmp_at L it target p"
  proof (cases "p = 0")
    case True
    have "0 < cmp_at L it target i" if "i < length L" for i
      using above [of i] that \<open>0 < cmp_at L it target p\<close> \<open>p < length L\<close> True by (cases "i = 0") auto
    then show ?thesis using True by (simp add: seek_prev_result_def prev_pos_def)
  next
    case False
    have "0 < cmp_at L it target i" if "i < length L" "p - 1 < i" for i
      using above [of i] that \<open>0 < cmp_at L it target p\<close> \<open>p < length L\<close> by (cases "i = p") auto
    then show ?thesis using False that below [of "p - 1"] by (auto simp: seek_prev_result_def prev_pos_def)
  qed
qed

context block_cursor
begin

lemma SeekForPrevImpl_ok:
  assumes "block_ok L R it" "cached L it" "at_pos L R it p0" "ordered L it target" "ok (bi_status it)"
  obtains it' q where "SeekForPrevImpl dec prev target it = Some it'" "kept it' = kept it" "cached L it'" "at_pos L R it' q"
    "seek_prev_result L it target q" "q < length L \<longrightarrow> regular R it \<longrightarrow> bi_cur_entry_idx it' = int q"
proof (cases "L = []")
  case True
  then have "BinarySeek target it = Some (it, None)" using assms(1) by (simp add: BinarySeek_def block_ok_def off_def)
  then have "SeekForPrevImpl dec prev target it = Some it" by (simp add: SeekForPrevImpl_def)
  moreover have "p0 = 0" using assms(3) True by (simp add: at_pos_def)
  ultimately show thesis using assms(2,3) True by (intro that [of it 0]) (simp_all add: seek_prev_result_def)
next
  case False
  obtain it1 j s where b: "BinarySeek target it = Some (it1, Some (j, s))" "core it1 = core it" "IterKey_inv (bi_raw_key it1)"
    "j < length R" "s \<longrightarrow> (j = 0 \<and> 0 < cmp_at L it target (R ! 0)) \<or> cmp_at L it target (R ! j) = 0"
    "\<not> s \<longrightarrow> cmp_at L it target (R ! j) < 0 \<and> (Suc j < length R \<longrightarrow> 0 < cmp_at L it target (R ! Suc j))"
    using BinarySeek_ok [OF assms(1) False at_inv [OF assms(3)]] .
  note c = cmp_at_core [OF b(2), of L]
  have o1: "ordered L it1 target" using assms(4) seek_core(1) [OF b(2)] by simp
  have ok1: "block_ok L R it1" using assms(1) block_ok_core [OF b(2)] by simp
  obtain it2 p where f: "FindKeyAfterBinarySeek dec target j s it1 = Some it2" "core it2 = core it1" "at_pos L R it2 p"
    "seek_result L it1 target p" "regular R it1 \<longrightarrow> bi_cur_entry_idx it2 = int p"
    using FindKeyAfterBinarySeek_ok [OF ok1 False b(3) o1 b(4) b(5,6) [folded c]] .
  have c2: "core it2 = core it" using f(2) b(2) by simp
  have ok2: "block_ok L R it2" "cached L it2" using assms(1,2) block_ok_core [OF c2] cached_core(1) [OF c2] by simp_all
  have r: "seek_result L it target p" using f(4) seek_core(2) [OF b(2)] by simp
  have reg: "regular R it \<longrightarrow> bi_cur_entry_idx it2 = int p" using f(5) regular_core [OF b(2)] by simp
  note res = seek_result_prev [OF assms(4) r False]
  have e: "SeekForPrevImpl dec prev target it =
      (if \<not> Valid it2 then (if ok (bi_status it2) then SeekToLastImpl dec it2 else Some it2) else back_until prev target it2)"
    using b(1) f(1) by (simp add: SeekForPrevImpl_def ok_data [OF assms(1)])
  show thesis
  proof (cases "p < length L")
    case end_: False
    then have p: "p = length L" using r by (simp add: seek_result_def)
    have "\<not> Valid it2" using at_Valid [OF f(3) ok2(1)] p by simp
    moreover have "ok (bi_status it2)" using assms(5) core_fields(6) [OF c2] by simp
    ultimately have e2: "SeekForPrevImpl dec prev target it = SeekToLastImpl dec it2" using e by simp
    obtain it3 where l: "SeekToLastImpl dec it2 = Some it3" "core it3 = core it2" "at_pos L R it3 (length L - 1)"
      "L \<noteq> [] \<longrightarrow> regular R it2 \<longrightarrow> bi_cur_entry_idx it3 = int (length L - 1)"
      using SeekToLastImpl_ok [OF ok2(1) at_inv [OF f(3)]] .
    have c3: "core it3 = core it" using l(2) c2 by simp
    show thesis
      by (rule that [of it3 "length L - 1"])
        (use e2 l static_core(2) [OF c3] cached_core(1) [OF c3] assms(2) res(1) [OF p] regular_core [OF c2] False in simp_all)
  next
    case True
    have v: "Valid it2" using at_Valid [OF f(3) ok2(1)] True by simp
    have h: "here L R it2 p" using at_here [OF f(3) True] .
    have cc: "CompareCurrentKey target it2 = cmp_at L it target p" using Compare_here [OF h] cmp_at_core [OF c2, of L] by simp
    have ge: "0 \<le> cmp_at L it target p" using r True by (simp add: seek_result_def)
    have e2: "SeekForPrevImpl dec prev target it = back_until prev target it2" using e v by simp
    show thesis
    proof (cases "cmp_at L it target p = 0")
      case eq: True
      have "back_until prev target it2 = Some it2" using cc eq by (subst back_until.simps) simp
      then show thesis
        using e2 static_core(2) [OF c2] ok2(2) f(3) res(2) [OF True eq] reg by (intro that [of it2 p]) simp_all
    next
      case gt: False
      with ge have pos: "0 < cmp_at L it target p" by simp
      from prev_ok [OF ok2 h] obtain it3 where n: "prev it2 = Some it3" "kept it3 = kept it2" "cached L it3"
        "at_pos L R it3 (prev_pos L p)" "0 < p \<longrightarrow> bi_cur_entry_idx it3 = bi_cur_entry_idx it2 - 1" by blast
      have st: "kept it3 = kept it" using n(2) static_core(2) [OF c2] by simp
      have ok3: "block_ok L R it3" using assms(1) static_views(2) [OF kept_static(1) [OF st]] by simp
      have "back_until prev target it3 = Some it3"
      proof (cases "p = 0")
        case True
        then have "\<not> Valid it3" using at_Valid [OF n(4) ok3] by (simp add: prev_pos_def)
        then show ?thesis by (subst back_until.simps) simp
      next
        case nz: False
        then have "here L R it3 (p - 1)" using n(4) True by (simp add: prev_pos_def at_pos_def)
        then have "CompareCurrentKey target it3 = cmp_at L it target (p - 1)"
          using Compare_here static_views(3) [OF kept_static(1) [OF st], of L] by simp
        moreover have "cmp_at L it target (p - 1) < 0" using r nz by (simp add: seek_result_def)
        ultimately show ?thesis by (subst back_until.simps) simp
      qed
      then have "back_until prev target it2 = Some it3" using cc pos v n(1) by (subst back_until.simps) simp
      moreover have "prev_pos L p < length L \<longrightarrow> regular R it \<longrightarrow> bi_cur_entry_idx it3 = int (prev_pos L p)"
        using n(5) reg True by (auto simp: prev_pos_def)
      ultimately show thesis
        using e2 st n(3,4) res(3) [OF True pos] by (intro that [of it3 "prev_pos L p"]) simp_all
    qed
  qed
qed

end


section \<open>What an iterator shows\<close>

definition shown :: "block_iter \<Rightarrow> slice \<Rightarrow> slice" where
  "shown it key =
     (if ik_is_user_key (bi_raw_key it) \<or> bi_global_seqno it = kDisableGlobalSequenceNumber then rkey it key
      else enc_ikey (take (length (rkey it key) - 8) (rkey it key)) (bi_global_seqno it) (ExtractValueType (rkey it key)))"

definition checksums_ok :: "np_hash \<Rightarrow> entry list \<Rightarrow> nat list \<Rightarrow> block_iter \<Rightarrow> bool" where
  "checksums_ok hash L R it \<longleftrightarrow> bi_protection_bytes_per_key it = 0 \<or>
     (bi_protection_bytes_per_key it \<in> {1, 2, 4, 8} \<and> regular R it \<and>
      bi_kv_checksum it = concat (map (\<lambda>e. GenerateKVChecksum hash (bi_protection_bytes_per_key it) (rkey it (e_key e)) (e_val e)) L))"

lemma static_shown:
  assumes "static it' = static it"
  shows "shown it' = shown it" "checksums_ok hash L R it' = checksums_ok hash L R it"
    "seek_prev_result L it' = seek_prev_result L it"
  by (intro ext, simp add: shown_def static_fields [OF assms] static_views [OF assms])
    (simp add: checksums_ok_def static_fields [OF assms] static_views [OF assms],
     intro ext, simp add: seek_prev_result_def static_views [OF assms])

lemma drop_concat_blocks:
  assumes "\<forall>x \<in> set xs. length (f x) = n" "i < length xs"
  shows "drop (n * i) (concat (map f xs)) = f (xs ! i) @ concat (map f (drop (Suc i) xs))"
proof -
  have len: "length (concat (map f ys)) = n * length ys" if "\<forall>x \<in> set ys. length (f x) = n" for ys
    using that by (induction ys) simp_all
  have "length (concat (map f (take i xs))) = n * i" using len [of "take i xs"] assms by (auto dest: in_set_takeD)
  then show ?thesis using concat_split [OF assms(2), of f] by simp
qed

lemma checksum_verifies:
  assumes "checksums_ok hash L R it" "0 < bi_protection_bytes_per_key it" "i < length L"
  shows "ProtectionInfo_Verify (ProtectKV hash 0 (rkey it (e_key (L ! i))) (e_val (L ! i))) (bi_protection_bytes_per_key it)
    (drop (bi_protection_bytes_per_key it * i) (bi_kv_checksum it))"
proof -
  let ?n = "bi_protection_bytes_per_key it"
  let ?f = "\<lambda>e. GenerateKVChecksum hash ?n (rkey it (e_key e)) (e_val e)"
  have n: "?n \<in> {1, 2, 4, 8}" "bi_kv_checksum it = concat (map ?f L)" using assms(1,2) by (auto simp: checksums_ok_def)
  have g: "length (GenerateKVChecksum hash ?n k v) = ?n \<and>
      ProtectionInfo_Verify (ProtectKV hash 0 k v) ?n (GenerateKVChecksum hash ?n k v @ rest)" for k v rest
    using Encode_Verify [where val = "ProtectKV hash 0 k v" and len = ?n and rest = rest] n(1) by (auto simp: GenerateKVChecksum_def split: option.splits)
  show ?thesis unfolding n(2) drop_concat_blocks [of L ?f ?n, OF _ assms(3)] using g drop_concat_blocks [of L ?f ?n, OF _ assms(3)] by simp
qed

lemma value_here:
  assumes "block_ok L R it" "here L R it i"
  shows "value_slice it = Some (e_val (L ! i))"
proof -
  obtain tail where d: "bi_data it = Some (lay_data L R tail)" "entries_ok L" using block_okD [OF assms(1)] .
  have i: "i < length L" "bi_value it = Some (vspan L i)" using assms(2) by (simp_all add: here_def)
  note span = entry_span [OF i(1) d(2)]
  obtain rest where l: "lay_data L R tail = concat (map e_bytes (take i L)) @ e_bytes (L ! i) @ rest"
    "off L i = length (concat (map e_bytes (take i L)))" using drop_off_data [OF i(1)] .
  have "off L (Suc i) - length (e_val (L ! i)) =
      length (concat (map e_bytes (take i L)) @ e_head (L ! i) @ drop (e_shared (L ! i)) (e_key (L ! i)))"
    unfolding span(1) l(2) by simp
  moreover have "lay_data L R tail = (concat (map e_bytes (take i L)) @ e_head (L ! i) @ drop (e_shared (L ! i)) (e_key (L ! i))) @
      e_val (L ! i) @ rest" unfolding l(1) by (simp add: e_bytes_def)
  ultimately have "take (length (e_val (L ! i))) (drop (off L (Suc i) - length (e_val (L ! i))) (lay_data L R tail)) = e_val (L ! i)"
    by (metis take_drop_append)
  then show ?thesis
    using i(2) span by (simp add: value_slice_def vspan_def block_bytes_def d(1) length_lay_data)
qed


text \<open>The state of an iterator between two public operations.\<close>

definition cursor :: "np_hash \<Rightarrow> entry list \<Rightarrow> nat list \<Rightarrow> block_iter \<Rightarrow> nat \<Rightarrow> bool" where
  "cursor hash L R it p \<longleftrightarrow> block_ok L R it \<and> cached L it \<and> at_pos L R it p \<and> checksums_ok hash L R it \<and>
     IterKey_inv (bi_key_buf it) \<and> bi_status it = Status_OK \<and>
     (p < length L \<longrightarrow> bi_key it = shown it (e_key (L ! p)) \<and> value_slice it = Some (e_val (L ! p)) \<and>
        (0 < bi_protection_bytes_per_key it \<longrightarrow> bi_cur_entry_idx it = int p))"

lemma UpdateKey_ok:
  assumes ok: "block_ok L R it" "cached L it" "at_pos L R it p" "checksums_ok hash L R it" "IterKey_inv (bi_key_buf it)"
      "bi_status it = Status_OK"
    and idx: "p < length L \<Longrightarrow> 0 < bi_protection_bytes_per_key it \<Longrightarrow> bi_cur_entry_idx it = int p"
  obtains it' where "UpdateKey hash it = Some it'" "static it' = static it" "cursor hash L R it' p"
proof -
  define it1 where "it1 = it\<lparr>bi_key_buf := IterKey_Clear (bi_key_buf it)\<rparr>"
  have clr: "IterKey_inv (IterKey_Clear (bi_key_buf it))" using ok(5) by (auto simp: IterKey_inv_def IterKey_Clear_def key_bytes_def)
  have v: "Valid it1 \<longleftrightarrow> p < length L" using at_Valid [OF ok(3,1)] by (simp add: it1_def Valid_def)
  have same: "static it' = static it" "cached L it'" "at_pos L R it' p" "IterKey_inv (bi_key_buf it')"
      "bi_cur_entry_idx it' = bi_cur_entry_idx it" "bi_raw_key it' = bi_raw_key it" "Valid it' = Valid it1"
    if form: "\<exists>k b. it' = it1\<lparr>bi_key_buf := b, bi_key := k\<rparr> \<and> IterKey_inv b" for it'
  proof -
    from form obtain k b where e: "it' = it1\<lparr>bi_key_buf := b, bi_key := k\<rparr>" "IterKey_inv b" by blast
    show "static it' = static it" by (simp add: e it1_def static_def kept_def core_def)
    show "cached L it'" using ok(2) by (simp add: e it1_def cached_def cache_run_def caches_def)
    show "at_pos L R it' p" using ok(3) by (cases "p < length L") (simp_all add: e it1_def at_pos_def here_def)
    show "IterKey_inv (bi_key_buf it')" "bi_cur_entry_idx it' = bi_cur_entry_idx it" "bi_raw_key it' = bi_raw_key it"
      using e(2) by (simp_all add: e(1) it1_def)
    show "Valid it' = Valid it1" by (simp add: e(1) Valid_def)
  qed
  have fin: "cursor hash L R it' p" if "static it' = static it" "cached L it'" "at_pos L R it' p" "IterKey_inv (bi_key_buf it')"
      "bi_cur_entry_idx it' = bi_cur_entry_idx it" "p < length L \<longrightarrow> bi_key it' = shown it (e_key (L ! p))" for it'
  proof -
    have ok': "block_ok L R it'" using ok(1) static_views(2) [OF that(1)] by simp
    show ?thesis
      using that ok ok' idx value_here [OF ok'] at_here [OF that(3)] static_shown [OF that(1)] static_fields(5,11) [OF that(1)]
      by (simp add: cursor_def)
  qed
  show thesis
  proof (cases "p < length L")
    case False
    then have "UpdateKey hash it = Some it1" using v by (simp add: UpdateKey_def it1_def)
    moreover have "it1 = it1\<lparr>bi_key_buf := IterKey_Clear (bi_key_buf it), bi_key := bi_key it\<rparr>" by (simp add: it1_def)
    with clr have "\<exists>k b. it1 = it1\<lparr>bi_key_buf := b, bi_key := k\<rparr> \<and> IterKey_inv b" by metis
    note s1 = same [OF this]
    have "cursor hash L R it1 p" using fin [OF s1(1-5)] False by simp
    ultimately show thesis using that s1(1) by blast
  next
    case True
    have h: "here L R it p" using at_here [OF ok(3) True] .
    have key: "GetKey (bi_raw_key it) = rkey it (e_key (L ! p))" "IterKey_inv (bi_raw_key it)" using h by (simp_all add: here_def)
    have same1: "bi_raw_key it1 = bi_raw_key it" "bi_global_seqno it1 = bi_global_seqno it" "bi_key_buf it1 = IterKey_Clear (bi_key_buf it)"
      by (simp_all add: it1_def)
    let ?kb = "SetInternalKey_parts [] (GetUserKey (bi_raw_key it1)) (bi_global_seqno it1) (ExtractValueType (GetKey (bi_raw_key it1))) None
      (bi_key_buf it1)"
    define it2 where "it2 = (if ik_is_user_key (bi_raw_key it1) then it1\<lparr>bi_key := GetUserKey (bi_raw_key it1)\<rparr>
       else if bi_global_seqno it1 = kDisableGlobalSequenceNumber then it1\<lparr>bi_key := GetKey (bi_raw_key it1)\<rparr>
       else it1\<lparr>bi_key_buf := ?kb, bi_key := GetKey ?kb\<rparr>)"
    have U: "UpdateKey hash it = (if bi_protection_bytes_per_key it2 > 0 then do {
          value \<leftarrow> value_slice it2;
          if ProtectionInfo_Verify (ProtectKV hash 0 (GetKey (bi_raw_key it2)) value) (bi_protection_bytes_per_key it2)
               (drop (nat (int (bi_protection_bytes_per_key it2) * bi_cur_entry_idx it2)) (bi_kv_checksum it2))
          then Some it2 else Some (PerKVChecksumCorruptionError it2) } else Some it2)"
      unfolding UpdateKey_def Let_def it1_def [symmetric] it2_def [symmetric] using v True by simp
    note kb = SetInternalKey_parts_ok [OF clr, of "[]" "GetUserKey (bi_raw_key it)" "bi_global_seqno it"
      "ExtractValueType (GetKey (bi_raw_key it))" None]
    have form: "\<exists>k b. it2 = it1\<lparr>bi_key_buf := b, bi_key := k\<rparr> \<and> IterKey_inv b"
    proof -
      have "it1\<lparr>bi_key := k\<rparr> = it1\<lparr>bi_key_buf := IterKey_Clear (bi_key_buf it), bi_key := k\<rparr>" for k by (simp add: it1_def)
      then show ?thesis unfolding it2_def same1 using clr kb by (metis (full_types))
    qed
    note s2 = same [OF form]
    have "bi_key it2 = shown it (e_key (L ! p))"
    proof (cases "ik_is_user_key (bi_raw_key it) \<or> bi_global_seqno it = kDisableGlobalSequenceNumber")
      case True
      then show ?thesis using key(1) by (auto simp: it2_def same1 shown_def GetUserKey_def GetKey_def)
    next
      case False
      have "GetUserKey (bi_raw_key it) = take (length (rkey it (e_key (L ! p))) - 8) (rkey it (e_key (L ! p)))"
        unfolding key(1) [symmetric] GetKey_size [OF key(2), symmetric] using False by (simp add: GetUserKey_def GetKey_def min_def)
      then show ?thesis using False kb key(1) by (simp add: it2_def same1 shown_def)
    qed
    then have c: "cursor hash L R it2 p" using fin [OF s2(1-5)] by simp
    have "UpdateKey hash it = Some it2"
    proof (cases "0 < bi_protection_bytes_per_key it")
      case False
      then have "\<not> 0 < bi_protection_bytes_per_key it2" using static_fields(11) [OF s2(1)] by simp
      then show ?thesis unfolding U by simp
    next
      case prot: True
      have val: "value_slice it2 = Some (e_val (L ! p))" using c True by (simp add: cursor_def)
      have "nat (int (bi_protection_bytes_per_key it) * bi_cur_entry_idx it) = bi_protection_bytes_per_key it * p"
        using idx [OF True prot] by (simp add: nat_mult_distrib)
      then have "ProtectionInfo_Verify (ProtectKV hash 0 (GetKey (bi_raw_key it)) (e_val (L ! p))) (bi_protection_bytes_per_key it)
          (drop (nat (int (bi_protection_bytes_per_key it) * bi_cur_entry_idx it)) (bi_kv_checksum it))"
        using checksum_verifies [OF ok(4) prot True] key(1) by simp
      then have ver: "ProtectionInfo_Verify (ProtectKV hash 0 (GetKey (bi_raw_key it2)) (e_val (L ! p))) (bi_protection_bytes_per_key it2)
          (drop (nat (int (bi_protection_bytes_per_key it2) * bi_cur_entry_idx it2)) (bi_kv_checksum it2))"
        using s2(5,6) static_fields(9,11) [OF s2(1)] by simp
      have "0 < bi_protection_bytes_per_key it2" using prot static_fields(11) [OF s2(1)] by simp
      with ver val show ?thesis unfolding U by simp
    qed
    then show thesis using that s2(1) c by blast
  qed
qed


section \<open>The public operations\<close>

text \<open>The positions an abstract cursor over the entries may take, and which calls are allowed.\<close>

definition moves :: "entry list \<Rightarrow> block_iter \<Rightarrow> cursor_call \<Rightarrow> nat \<Rightarrow> nat \<Rightarrow> bool" where
  "moves L it call p q =
     (case call of
        SeekToFirst \<Rightarrow> q = 0
      | SeekToLast \<Rightarrow> q = length L - 1
      | Seek target \<Rightarrow> seek_result L it target q
      | SeekForPrev target \<Rightarrow> seek_prev_result L it target q
      | Next \<Rightarrow> q = Suc p
      | Prev \<Rightarrow> q = prev_pos L p)"

definition allowed :: "entry list \<Rightarrow> block_iter \<Rightarrow> cursor_call \<Rightarrow> nat \<Rightarrow> bool" where
  "allowed L it call p =
     (case call of
        Seek target \<Rightarrow> ordered L it target
      | SeekForPrev target \<Rightarrow> ordered L it target
      | Next \<Rightarrow> p < length L
      | Prev \<Rightarrow> p < length L
      | _ \<Rightarrow> True)"

lemma cursor_update:
  assumes c: "cursor hash L R it p" and s: "kept it' = kept it" "cached L it'" "at_pos L R it' q"
    and idx: "q < length L \<Longrightarrow> 0 < bi_protection_bytes_per_key it \<Longrightarrow> regular R it \<Longrightarrow> bi_cur_entry_idx it' = int q"
  obtains it2 where "UpdateKey hash it' = Some it2" "static it2 = static it" "cursor hash L R it2 q"
proof -
  have c': "block_ok L R it" "checksums_ok hash L R it" "IterKey_inv (bi_key_buf it)" "bi_status it = Status_OK"
    using c by (simp_all add: cursor_def)
  note st = kept_static(1) [OF s(1)]
  have "bi_cur_entry_idx it' = int q" if "q < length L" "0 < bi_protection_bytes_per_key it'"
    using idx [OF that(1)] that(2) static_fields(11) [OF st] c'(2) by (auto simp: checksums_ok_def)
  then obtain it2 where "UpdateKey hash it' = Some it2" "static it2 = static it'" "cursor hash L R it2 q"
    using UpdateKey_ok [of L R it' q hash] s(2,3) c' static_views(2) [OF st] static_shown(2) [OF st] static_fields(5) [OF st]
      kept_static(2) [OF s(1)] by (metis (no_types))
  then show thesis using that st by simp
qed


text \<open>A move that returns, at a position the abstract cursor may take.\<close>

definition lands :: "entry list \<Rightarrow> nat list \<Rightarrow> block_iter \<Rightarrow> cursor_call \<Rightarrow> nat \<Rightarrow> block_iter option \<Rightarrow> bool" where
  "lands L R it call p r \<longleftrightarrow> (\<exists>it' q. r = Some it' \<and> kept it' = kept it \<and> cached L it' \<and> at_pos L R it' q \<and> moves L it call p q \<and>
     (q < length L \<longrightarrow> 0 < bi_protection_bytes_per_key it \<longrightarrow> regular R it \<longrightarrow> bi_cur_entry_idx it' = int q))"

lemma lands_core:
  assumes "r = Some it'" "core it' = core it" "cached L it" "at_pos L R it' q" "moves L it call p q"
    "q < length L \<Longrightarrow> 0 < bi_protection_bytes_per_key it \<Longrightarrow> regular R it \<Longrightarrow> bi_cur_entry_idx it' = int q"
  shows "lands L R it call p r"
proof -
  have "cached L it'" using assms(3) cached_core(1) [OF assms(2)] by simp
  then show ?thesis unfolding lands_def
    by (intro exI [of _ it'] exI [of _ q] conjI impI assms(1,4,5,6) static_core(2) [OF assms(2)])
qed

context block_cursor
begin

lemma SeekToFirst_lands:
  assumes "cursor hash L R it p"
  shows "lands L R it SeekToFirst p (SeekToFirstImpl dec it)"
proof -
  have ok: "block_ok L R it" "cached L it" "at_pos L R it p" using assms by (simp_all add: cursor_def)
  from SeekToFirstImpl_ok [OF ok(1) at_inv [OF ok(3)]] obtain it' where "SeekToFirstImpl dec it = Some it'" "core it' = core it"
    "at_pos L R it' 0" "bi_cur_entry_idx it' = 0" .
  then show ?thesis by (intro lands_core [of _ it' _ _ _ 0] ok(2)) (simp_all add: moves_def)
qed

lemma SeekToLast_lands:
  assumes "cursor hash L R it p"
  shows "lands L R it SeekToLast p (SeekToLastImpl dec it)"
proof -
  have ok: "block_ok L R it" "cached L it" "at_pos L R it p" using assms by (simp_all add: cursor_def)
  from SeekToLastImpl_ok [OF ok(1) at_inv [OF ok(3)]] obtain it' where "SeekToLastImpl dec it = Some it'" "core it' = core it"
    "at_pos L R it' (length L - 1)" "L \<noteq> [] \<longrightarrow> regular R it \<longrightarrow> bi_cur_entry_idx it' = int (length L - 1)" .
  then show ?thesis by (intro lands_core [of _ it' _ _ _ "length L - 1"] ok(2)) (auto simp: moves_def)
qed

lemma Seek_lands:
  assumes "cursor hash L R it p" "ordered L it target"
  shows "lands L R it (Seek target) p (SeekImpl dec target it)"
proof -
  have ok: "block_ok L R it" "cached L it" "at_pos L R it p" using assms by (simp_all add: cursor_def)
  from SeekImpl_ok [OF ok(1,3) assms(2)] obtain it' q where "SeekImpl dec target it = Some it'" "core it' = core it"
    "at_pos L R it' q" "seek_result L it target q" "L \<noteq> [] \<longrightarrow> regular R it \<longrightarrow> bi_cur_entry_idx it' = int q" .
  then show ?thesis by (intro lands_core [of _ it' _ _ _ q] ok(2)) (auto simp: moves_def)
qed

lemma SeekForPrev_lands:
  assumes "cursor hash L R it p" "ordered L it target"
  shows "lands L R it (SeekForPrev target) p (SeekForPrevImpl dec prev target it)"
proof -
  have ok: "block_ok L R it" "cached L it" "at_pos L R it p" "ok (bi_status it)" using assms by (simp_all add: cursor_def)
  from SeekForPrevImpl_ok [OF ok(1-3) assms(2) ok(4)] obtain it' q where "SeekForPrevImpl dec prev target it = Some it'" "kept it' = kept it"
    "cached L it'" "at_pos L R it' q" "seek_prev_result L it target q" "q < length L \<longrightarrow> regular R it \<longrightarrow> bi_cur_entry_idx it' = int q" .
  then show ?thesis unfolding lands_def moves_def by (intro exI [of _ it'] exI [of _ q]) simp
qed

lemma Next_lands:
  assumes "cursor hash L R it p" "p < length L"
  shows "lands L R it Next p (NextImpl dec it)"
proof -
  have ok: "block_ok L R it" "cached L it" "at_pos L R it p" "0 < bi_protection_bytes_per_key it \<longrightarrow> bi_cur_entry_idx it = int p"
    using assms by (simp_all add: cursor_def)
  from NextImpl_ok [OF ok(1) here_before [OF at_here [OF ok(3) assms(2)] ok(1)]] obtain it' where "NextImpl dec it = Some it'"
    "core it' = core it" "at_pos L R it' (Suc p)" "bi_cur_entry_idx it' = bi_cur_entry_idx it + 1" .
  then show ?thesis using ok(4) by (intro lands_core [of _ it' _ _ _ "Suc p"] ok(2)) (simp_all add: moves_def)
qed

lemma Prev_lands:
  assumes "cursor hash L R it p" "p < length L"
  shows "lands L R it Prev p (prev it)"
proof -
  have ok: "block_ok L R it" "cached L it" "at_pos L R it p" "0 < bi_protection_bytes_per_key it \<longrightarrow> bi_cur_entry_idx it = int p"
    using assms by (simp_all add: cursor_def)
  from prev_ok [OF ok(1,2) at_here [OF ok(3) assms(2)]] obtain it' where p: "prev it = Some it'" "kept it' = kept it" "cached L it'"
    "at_pos L R it' (prev_pos L p)" "0 < p \<longrightarrow> bi_cur_entry_idx it' = bi_cur_entry_idx it - 1" by blast
  moreover have "prev_pos L p < length L \<longrightarrow> 0 < bi_protection_bytes_per_key it \<longrightarrow> bi_cur_entry_idx it' = int (prev_pos L p)"
    using p(5) ok(4) by (auto simp: prev_pos_def)
  ultimately show ?thesis unfolding lands_def moves_def by (intro exI [of _ it'] exI [of _ "prev_pos L p"]) simp
qed

lemma cursor_step_ok:
  assumes c: "cursor hash L R it p" and a: "allowed L it call p"
  obtains it' q where "cursor_step dec prev hash call it = Some it'" "static it' = static it" "cursor hash L R it' q" "moves L it call p q"
proof -
  define r where "r = (case call of SeekToFirst \<Rightarrow> SeekToFirstImpl dec it | SeekToLast \<Rightarrow> SeekToLastImpl dec it
      | Seek target \<Rightarrow> SeekImpl dec target it | SeekForPrev target \<Rightarrow> SeekForPrevImpl dec prev target it
      | Next \<Rightarrow> NextImpl dec it | Prev \<Rightarrow> prev it)"
  have "lands L R it call p r"
    using a SeekToFirst_lands [OF c] SeekToLast_lands [OF c] Seek_lands [OF c] SeekForPrev_lands [OF c] Next_lands [OF c] Prev_lands [OF c]
    by (cases call) (simp_all add: r_def allowed_def)
  then obtain it1 q where l: "r = Some it1" "kept it1 = kept it" "cached L it1" "at_pos L R it1 q" "moves L it call p q"
    "q < length L \<longrightarrow> 0 < bi_protection_bytes_per_key it \<longrightarrow> regular R it \<longrightarrow> bi_cur_entry_idx it1 = int q" by (auto simp: lands_def)
  from l(6) have idx: "q < length L \<Longrightarrow> 0 < bi_protection_bytes_per_key it \<Longrightarrow> regular R it \<Longrightarrow> bi_cur_entry_idx it1 = int q" by blast
  obtain it2 where "UpdateKey hash it1 = Some it2" "static it2 = static it" "cursor hash L R it2 q"
    using cursor_update [OF c l(2-4) idx] .
  then show thesis using that l(1,5) by (simp add: cursor_step_def r_def)
qed

end

end
