(* ===== verification/Spec2Isabelle.thy ===== *)
theory Spec2Isabelle
  imports Coding Crc32c Comparator Dbformat Iter_Key Log_Format Log_Reader Log_Roundtrip Wide_Columns Kv_Checksum
    Write_Batch Write_Batch_Iterate Write_Batch_Props Binary_Heap Unique_Id Block_Builder Block_Iter Block_Layout Block_Cursor Block_Moves
begin

text \<open>
  A verification library for rocksdb-rs: the RocksDB storage engine in C++ (\<^verbatim>\<open>src/rocksdb-cxx/\<close>) with parts moved
  to Rust (\<^verbatim>\<open>src/src/\<close>).

  \<^bold>\<open>The program.\<close> A write is collected in a write batch, appended to the write-ahead log, and inserted
  into a memtable under a sequence number; memtables are flushed to table files of sorted blocks; recovery
  replays the log. Keys carry their sequence number and type as a trailer and are ordered by the user's
  comparator. The library covers the byte formats and algorithms on this path, bottom up.

  \<^bold>\<open>The model.\<close> Bytes are \<open>8 word\<close>, machine integers words of their width, \<^verbatim>\<open>Slice\<close> and \<^verbatim>\<open>std::string\<close> byte lists
  (addresses are dropped; where a buffer is written in place, as in \<^verbatim>\<open>IterKey\<close>, the buffer and its size are
  part of the state), \<^verbatim>\<open>size_t\<close> a natural number, \<^verbatim>\<open>Status\<close> a value. An object is a record, an operation a function
  from the old to the new record; assertions are not branches (the release build is modelled). Loops that
  always end are total functions with a termination proof; \<^verbatim>\<open>ReadRecord\<close>, which may not end, takes
  fuel, and the theorems about it say that some amount suffices, or that none does; the loops of the heap and
  of the block iterators are partial functions into an option, where \<^const>\<open>None\<close> is no result. What is not in the
  sources is a parameter: the file behind a log (\<open>log_env\<close>, \<open>dest_ops\<close>), the stream decompressor, the user
  comparator (locale \<open>comparator\<close>), the hash behind checksums, the handler of a batch.

  \<^bold>\<open>Theories.\<close>
  \<^item> \<^verbatim>\<open>Prelude\<close>: machine types, \<^verbatim>\<open>Status\<close> (\<^verbatim>\<open>status.rs\<close>), little-endian words, and the locale \<open>codec\<close>: what an
    encoder and a decoder owe each other.
  \<^item> \<^verbatim>\<open>Coding\<close>: \<^verbatim>\<open>util/coding.h\<close>, \<^verbatim>\<open>coding.rs\<close>, \<^verbatim>\<open>coding_lean.rs\<close>. Every coding reads back; the unrolled varint writer equals the loop.
  \<^item> \<^verbatim>\<open>Crc32c\<close>: \<^verbatim>\<open>util/crc32c.cc\<close>. The sliced table computation equals the bit-serial CRC at every alignment;
    \<^verbatim>\<open>Crc32cCombine\<close> is the checksum of a concatenation.
  \<^item> \<^verbatim>\<open>Comparator\<close>: \<^verbatim>\<open>include/rocksdb/slice.h\<close>, \<^verbatim>\<open>util/comparator.cc\<close>. The locales \<open>comparator\<close> (total preorder) and
    \<open>key_shortening\<close> are interpreted on the bytewise, reverse and timestamped comparators.
  \<^item> \<^verbatim>\<open>Dbformat\<close>: \<^verbatim>\<open>db/dbformat.h\<close>, \<^verbatim>\<open>db/dbformat.cc\<close>, \<^verbatim>\<open>db/lookup_key.h\<close>. Internal keys, their order, lookup keys, range tombstones.
  \<^item> \<^verbatim>\<open>Iter_Key\<close>: class \<^verbatim>\<open>IterKey\<close>. No operation writes outside the buffer; each leaves the key it promises.
  \<^item> \<^verbatim>\<open>Log_Format\<close>, \<^verbatim>\<open>Log_Reader\<close>, \<^verbatim>\<open>Log_Roundtrip\<close>: \<^verbatim>\<open>db/log_writer.cc\<close>, \<^verbatim>\<open>db/log_reader.cc\<close>. What is appended is read back in
    every recovery mode; the cases where it is not are theorems of their own.
  \<^item> \<^verbatim>\<open>Wide_Columns\<close>: \<^verbatim>\<open>db/wide/wide_column_serialization.cc\<close>.
  \<^item> \<^verbatim>\<open>Kv_Checksum\<close>: \<^verbatim>\<open>db/kv_checksum.h\<close>, for any hash function.
  \<^item> \<^verbatim>\<open>Write_Batch\<close>, \<^verbatim>\<open>Write_Batch_Iterate\<close>, \<^verbatim>\<open>Write_Batch_Props\<close>: \<^verbatim>\<open>db/write_batch.cc\<close>. The batch refines a list of records with
    save points; iteration visits that list; checksums, content flags, concatenation.
  \<^item> \<^verbatim>\<open>Binary_Heap\<close>: \<^verbatim>\<open>util/heap.h\<close>, \<^verbatim>\<open>table/iter_heap.h\<close>. The heap refines a bag for every total preorder (locales
    \<open>heap_order\<close> and \<open>priority_queue\<close>), and every call returns whatever the comparisons answer.
  \<^item> \<^verbatim>\<open>Unique_Id\<close>: \<^verbatim>\<open>hash.rs\<close>, \<^verbatim>\<open>string_util.rs\<close>, \<^verbatim>\<open>unique_id.rs\<close>, \<^verbatim>\<open>table/unique_id.cc\<close>, \<^verbatim>\<open>cache/cache_key.cc\<close>. Ids and cache keys are
    one to one.
  \<^item> \<^verbatim>\<open>Block_Builder\<close>, \<^verbatim>\<open>Block_Iter\<close>, \<^verbatim>\<open>Block_Layout\<close>: \<^verbatim>\<open>table/block_based/block_builder.cc\<close>, \<^verbatim>\<open>block.cc\<close>, \<^verbatim>\<open>data_block_hash_index.cc\<close>,
    \<^verbatim>\<open>data_block_footer.cc\<close>. Building a block and iterating over it; the bytes of a block as a list of entries.

  \<^bold>\<open>Bounds.\<close> Lengths written as 32-bit varints and counts kept in 32 bits are assumed to fit where a round trip
  is claimed; what happens beyond is stated where the code does not check (\<open>delete_oversized_key\<close>).

  \<^bold>\<open>Not modelled.\<close> Threads, locks and atomics, and with them memtables, caches and the write queue; the file
  system and the environment; compression codecs and hash functions, which are parameters; filters, whose
  sizing uses floating point; the iterators composed of others, range tombstone fragmentation, table
  builders and readers, versions, compaction and flush, of which only the parts above are modelled; index
  blocks; options, statistics, utilities, tools, tests and bindings.
\<close>

end
